(* ===== verification/Prelude.thy ===== *)
theory Prelude
  imports Main "HOL-Library.Word"
begin

text \<open>
  Shared vocabulary of the development: machine integers, address ranges that may wrap, the
  counted C loop and its invariant rule, little-endian words, and the \<open>overlay\<close> of one
  loadable segment on a byte map, which is the specification both of the Boot ROM loader and of
  the user-module loader.
\<close>

unbundle bit_operations_syntax

section \<open>Machine integers\<close>

type_synonym u8 = "8 word"
type_synonym u16 = "16 word"
type_synonym u32 = "32 word"

text \<open>A flat byte memory, addressed by 32-bit addresses.\<close>

type_synonym mem = "u32 \<Rightarrow> u8"

named_theorems word_facts \<open>bounds and conversions of machine words\<close>

lemma unat_u32_bound [word_facts]: "unat (x :: u32) < 4294967296"
  using unsigned_less [of x] by simp

lemma unat_add_u32:
  "unat (a :: u32) + unat b < 4294967296 \<Longrightarrow> unat (a + b) = unat a + unat b"
  by (simp add: unat_word_ariths)

lemma unat_sub_u32: "(b :: u32) \<le> a \<Longrightarrow> unat (a - b) = unat a - unat b"
  by (rule unat_sub)

lemma unat_Suc_u32: "(i :: u32) < n \<Longrightarrow> unat (i + 1) = Suc (unat i)"
proof -
  assume lt: "i < n"
  then have "unat i + 1 < 4294967296"
    using unat_u32_bound [of n] by (simp add: word_less_nat_alt)
  then show ?thesis by (simp add: unat_add_u32)
qed

lemma loop_measure_u32: "(i :: u32) < n \<Longrightarrow> unat (n - (i + 1)) < unat (n - i)"
proof -
  assume lt: "i < n"
  then have "unat (i + 1) = Suc (unat i)" by (rule unat_Suc_u32)
  moreover have "unat i < unat n" using lt by (simp add: word_less_nat_alt)
  ultimately show ?thesis
    by (simp add: unat_sub_if' word_le_nat_alt)
qed

lemma inc_le_u32: "(i :: u32) < n \<Longrightarrow> i + 1 \<le> n"
  by (simp add: inc_le)

text \<open>Testing, setting and clearing one bit with a mask.\<close>

lemma mask_bit: "(w :: u32) AND push_bit n 1 = 0 \<longleftrightarrow> \<not> bit w n"
  by (simp add: bit_iff_and_push_bit_not_eq_0)

lemma set_then_clear: "w AND m = 0 \<Longrightarrow> (w OR m) AND NOT m = (w :: u32)"
proof -
  assume wm: "w AND m = 0"
  show ?thesis
  proof (rule bit_word_eqI)
    fix n assume "n < LENGTH(32)"
    moreover from wm have "bit (w AND m) n = bit (0 :: u32) n" by simp
    ultimately show "bit ((w OR m) AND NOT m) n = bit w n" by (auto simp: bit_simps)
  qed
qed

lemma set_bit_present: "bit w n \<Longrightarrow> w OR push_bit n 1 = (w :: u32)"
  by (rule bit_word_eqI) (auto simp: bit_simps)

lemma push_bit_7: "push_bit 7 (1 :: u32) = 0x80"
  by simp

lemma irq_bit_restored [simp]:
  "w AND 0x80 = 0 \<Longrightarrow> (w OR 0x80) AND - 129 = (w :: u32)"
  "w AND 0x80 \<noteq> 0 \<Longrightarrow> w OR 0x80 = (w :: u32)"
  using set_then_clear [of w "0x80"] mask_bit [of w 7] set_bit_present [of w 7]
  unfolding push_bit_7 by auto

section \<open>Address ranges\<close>

text \<open>
  The range of \<open>n\<close> bytes from \<open>p\<close>. Subtraction wraps, so \<open>a - p\<close> is the offset of \<open>a\<close>
  in the range also for a range that runs over the end of the address space.
\<close>

definition in_range :: "u32 \<Rightarrow> u32 \<Rightarrow> u32 \<Rightarrow> bool" where
  "in_range p n a \<longleftrightarrow> a - p < n"

text \<open>A range that does not run over the end of the address space.\<close>

definition no_wrap :: "u32 \<Rightarrow> u32 \<Rightarrow> bool" where
  "no_wrap p n \<longleftrightarrow> unat p + unat n \<le> 4294967296"

lemma in_range_no_wrap:
  assumes "no_wrap p n"
  shows "in_range p n a \<longleftrightarrow> unat p \<le> unat a \<and> unat a < unat p + unat n"
proof (cases "p \<le> a")
  case True
  then have "unat (a - p) = unat a - unat p" by (rule unat_sub_u32)
  with True show ?thesis
    by (auto simp: in_range_def word_less_nat_alt word_le_nat_alt)
next
  case False
  then have lt: "unat a < unat p" by (simp add: word_le_nat_alt)
  then have "unat (a - p) = 4294967296 + unat a - unat p"
    using unat_u32_bound [of a] by (simp add: unat_sub_if' word_le_nat_alt)
  with assms lt show ?thesis
    by (auto simp: in_range_def no_wrap_def word_less_nat_alt)
qed

lemma in_range_add:
  assumes "in_range p n a" and "unat (a - p) + unat j < unat k"
  shows "in_range p k (a + j)"
proof -
  have "unat ((a - p) + j) = unat (a - p) + unat j"
    using assms(2) unat_u32_bound [of k] by (intro unat_add_u32) simp
  moreover have "a + j - p = (a - p) + j" by (simp add: algebra_simps)
  ultimately show ?thesis
    unfolding in_range_def word_less_nat_alt using assms(2) by (simp only:)
qed

lemma in_range_part:
  assumes "in_range b k a" and "unat (b - p) + unat k \<le> unat n"
  shows "in_range p n a"
proof -
  have "unat (a - b) < unat k" using assms(1) by (simp add: in_range_def word_less_nat_alt)
  then have "unat ((b - p) + (a - b)) = unat (b - p) + unat (a - b)"
    using assms(2) unat_u32_bound [of n] by (intro unat_add_u32) simp
  moreover have "a - p = (b - p) + (a - b)" by (simp add: algebra_simps)
  ultimately show ?thesis
    unfolding in_range_def word_less_nat_alt using assms(2) \<open>unat (a - b) < unat k\<close> by (simp only:)
qed

lemma sub_less_sub:
  assumes "(f :: u32) \<le> n"
  shows "x - f < n - f \<longleftrightarrow> f \<le> x \<and> x < n"
proof (cases "f \<le> x")
  case True
  with assms show ?thesis by (auto simp: word_less_nat_alt word_le_nat_alt unat_sub_u32)
next
  case False
  then have "unat (x - f) = 4294967296 + unat x - unat f"
    using unat_u32_bound [of x] by (simp add: unat_sub_if' word_le_nat_alt)
  moreover have "unat (n - f) = unat n - unat f" using assms by (rule unat_sub_u32)
  ultimately show ?thesis
    using False unat_u32_bound [of n] by (auto simp: word_less_nat_alt)
qed

section \<open>Pages\<close>

text \<open>A 4096-byte page and the offset in it, as the masks of the code compute them.\<close>

definition page_of :: "u32 \<Rightarrow> u32" where
  "page_of a = a AND 0xfffff000"

definition page_off :: "u32 \<Rightarrow> u32" where
  "page_off a = a AND 0xfff"

lemma mask_12: "(0xfff :: u32) = mask 12" "(0xfffff000 :: u32) = NOT (mask 12)"
  by (simp_all add: mask_eq_exp_minus_1)

lemma unat_page_off: "unat (page_off a) = unat a mod 4096"
proof -
  have "page_off a = take_bit 12 a"
    unfolding page_off_def mask_12 by (rule take_bit_eq_mask [symmetric])
  then show ?thesis by (simp add: take_bit_eq_mod unat_mod_distrib)
qed

lemma page_split: "page_of a + page_off a = a"
proof -
  have "a AND NOT (mask 12) = push_bit 12 (drop_bit 12 a)"
    by (rule bit_word_eqI) (auto simp: bit_simps)
  moreover have "a AND mask 12 = take_bit 12 a" by (rule take_bit_eq_mask [symmetric])
  ultimately show ?thesis
    unfolding page_of_def page_off_def mask_12 by (simp add: bits_ident)
qed

lemma page_of_eq: "page_of a = a - page_off a"
  using page_split [of a] by (metis add_diff_cancel_right')

lemma unat_page_of: "unat (page_of a) = 4096 * (unat a div 4096)"
proof -
  have "page_off a \<le> a" by (simp add: word_le_nat_alt unat_page_off)
  then have "unat (page_of a) = unat a - unat a mod 4096"
    by (simp add: page_of_eq unat_sub_u32 unat_page_off)
  then show ?thesis by (simp add: minus_mod_eq_mult_div)
qed

lemma page_of_page_of [simp]: "page_of (page_of a) = page_of a"
  by (simp add: page_of_def ac_simps)

lemma page_off_less: "unat (page_off a) < 4096"
  by (simp add: unat_page_off)

lemma page_of_unique:
  "unat p mod 4096 = 0 \<Longrightarrow> page_of a = p \<longleftrightarrow> unat p \<le> unat a \<and> unat a < unat p + 4096"
  unfolding word_unat_eq_iff unat_page_of by auto

lemma aligned_multiple: "page_of p = p \<longleftrightarrow> (\<exists>k. p = 4096 * k)"
proof
  assume "page_of p = p"
  then have "p = of_nat (4096 * (unat p div 4096))"
    using unat_page_of [of p] by (metis of_nat_unat ucast_id)
  then have "p = 4096 * of_nat (unat p div 4096)" by simp
  then show "\<exists>k. p = 4096 * k" ..
next
  assume "\<exists>k. p = 4096 * k"
  then obtain k where p: "p = push_bit 12 k" by (auto simp: push_bit_eq_mult mult.commute)
  show "page_of p = p"
    unfolding page_of_def mask_12 p by (rule bit_word_eqI) (auto simp: bit_simps)
qed

lemma aligned_add: "page_of p = p \<Longrightarrow> page_of (p + 4096 * k) = p + 4096 * k"
  unfolding aligned_multiple by (metis distrib_left)

lemma page_of_or: "page_of (a OR b) = page_of a OR page_of b"
  by (simp add: page_of_def bit.conj_disj_distrib2)

lemma page_off_or: "page_off (a OR b) = page_off a OR page_off b"
  by (simp add: page_off_def bit.conj_disj_distrib2)

lemma page_off_aligned: "page_of p = p \<Longrightarrow> page_off p = 0"
  using page_split [of p] by simp

lemma page_off_small: "page_of f = 0 \<Longrightarrow> page_off f = f"
  using page_split [of f] by simp

lemma pte_parts:
  assumes "page_of f = f" and "page_of x = 0"
  shows "page_of (f OR x) = f" and "page_off (f OR x) = x"
  using assms page_off_aligned [of f] page_off_small [of x] by (simp_all add: page_of_or page_off_or)

section \<open>The counted loop\<close>

text \<open>
  \<^verbatim>\<open>for (uint32_t i = 0; i < n; ++i) body\<close> over a state, the index kept at its width.
  The loop stops because the distance to the bound shrinks.
\<close>

function for_u32 :: "(u32 \<Rightarrow> 's \<Rightarrow> 's) \<Rightarrow> u32 \<Rightarrow> u32 \<Rightarrow> 's \<Rightarrow> 's" where
  "for_u32 body i n s = (if i < n then for_u32 body (i + 1) n (body i s) else s)"
  by pat_completeness auto
termination
  by (relation "measure (\<lambda>(body, i, n, s). unat (n - i))") (auto intro: loop_measure_u32)

declare for_u32.simps [simp del]

lemma for_u32_done [simp]: "\<not> i < n \<Longrightarrow> for_u32 body i n s = s"
  by (simp add: for_u32.simps)

lemma for_u32_step: "i < n \<Longrightarrow> for_u32 body i n s = for_u32 body (i + 1) n (body i s)"
  by (simp add: for_u32.simps [of body i])

text \<open>The invariant rule: established, kept by every iteration, so it holds at the bound.\<close>

lemma for_u32_rule:
  assumes "I i s" and "i \<le> n"
    and step: "\<And>k t. i \<le> k \<Longrightarrow> k < n \<Longrightarrow> I k t \<Longrightarrow> I (k + 1) (body k t)"
  shows "I n (for_u32 body i n s)"
  using assms
proof (induction body i n s rule: for_u32.induct)
  case (1 body i n s)
  show ?case
  proof (cases "i < n")
    case True
    have le: "i \<le> i + 1"
      using True by (simp add: word_le_nat_alt unat_Suc_u32)
    have "I n (for_u32 body (i + 1) n (body i s))"
    proof (rule "1.IH" [OF True])
      show "I (i + 1) (body i s)" using True "1.prems" by auto
      show "i + 1 \<le> n" using True by (rule inc_le_u32)
      show "\<And>k t. i + 1 \<le> k \<Longrightarrow> k < n \<Longrightarrow> I k t \<Longrightarrow> I (k + 1) (body k t)"
        using "1.prems"(3) le by (meson order_trans)
    qed
    with True show ?thesis by (simp add: for_u32_step)
  next
    case False
    with "1.prems" have "i = n" by simp
    with "1.prems" show ?thesis by simp
  qed
qed


text \<open>
  \<^verbatim>\<open>for (uint32_t i = n; i != 0; --i) body\<close>: the loop that counts down to zero.
\<close>

function down_u32 :: "(u32 \<Rightarrow> 's \<Rightarrow> 's) \<Rightarrow> u32 \<Rightarrow> 's \<Rightarrow> 's" where
  "down_u32 body i s = (if i \<noteq> 0 then down_u32 body (i - 1) (body i s) else s)"
  by pat_completeness auto
termination
  by (relation "measure (\<lambda>(body, i, s). unat i)") (auto simp: unat_minus_one unat_gt_0)

declare down_u32.simps [simp del]

lemma down_u32_0 [simp]: "down_u32 body 0 s = s"
  by (simp add: down_u32.simps)

lemma down_u32_step: "i \<noteq> 0 \<Longrightarrow> down_u32 body i s = down_u32 body (i - 1) (body i s)"
  by (simp add: down_u32.simps [of body i])

lemma down_u32_rule:
  assumes "I i s"
    and step: "\<And>k t. k \<noteq> 0 \<Longrightarrow> k \<le> i \<Longrightarrow> I k t \<Longrightarrow> I (k - 1) (body k t)"
  shows "I 0 (down_u32 body i s)"
  using assms
proof (induction body i s rule: down_u32.induct)
  case (1 body i s)
  show ?case
  proof (cases "i = 0")
    case True
    with "1.prems" show ?thesis by simp
  next
    case False
    have "I 0 (down_u32 body (i - 1) (body i s))"
    proof (rule "1.IH" [OF False])
      show "I (i - 1) (body i s)" using False "1.prems" by simp
      have "i - 1 \<le> i" using False by (simp add: word_le_nat_alt unat_minus_one)
      then show "\<And>k t. k \<noteq> 0 \<Longrightarrow> k \<le> i - 1 \<Longrightarrow> I k t \<Longrightarrow> I (k - 1) (body k t)"
        using "1.prems"(2) by (meson order_trans)
    qed
    with False show ?thesis by (simp add: down_u32_step)
  qed
qed

section \<open>Copying and filling in a flat memory\<close>

lemma less_inc_u32: "(k :: u32) < n \<Longrightarrow> x < k + 1 \<longleftrightarrow> x < k \<or> x = k"
  by (simp add: word_less_nat_alt unat_Suc_u32 less_Suc_eq word_unat_eq_iff)

text \<open>
  Copying upwards is right as soon as no byte is overwritten before it is read, which
  holds for disjoint ranges and for a destination below the source.
\<close>

lemma copy_up:
  assumes safe: "\<And>j k. j < k \<Longrightarrow> k < n \<Longrightarrow> to + j \<noteq> from + k"
  shows "for_u32 (\<lambda>i m. m(to + i := m (from + i))) 0 n m =
         (\<lambda>a. if in_range to n a then m (from + (a - to)) else m a)"
proof -
  let ?I = "\<lambda>k (m' :: u32 \<Rightarrow> 'a). m' = (\<lambda>a. if a - to < k then m (from + (a - to)) else m a)"
  have "?I n (for_u32 (\<lambda>i m. m(to + i := m (from + i))) 0 n m)"
  proof (rule for_u32_rule [where I = ?I])
    fix k :: u32 and m' :: "u32 \<Rightarrow> 'a"
    assume k: "k < n" and inv: "?I k m'"
    have "\<not> from + k - to < k"
    proof
      assume "from + k - to < k"
      from safe [OF this k] show False by simp
    qed
    then have src: "m' (from + k) = m (from + k)" using inv by simp
    show "?I (k + 1) (m'(to + k := m' (from + k)))"
    proof
      fix a
      show "(m'(to + k := m' (from + k))) a = (if a - to < k + 1 then m (from + (a - to)) else m a)"
        using inv src less_inc_u32 [OF k, of "a - to"]
        by (cases "a - to = k") auto
    qed
  qed (simp_all)
  then show ?thesis by (simp add: in_range_def)
qed

lemma copy_down:
  assumes safe: "\<And>j k. j < k \<Longrightarrow> k < n \<Longrightarrow> to + k \<noteq> from + j"
  shows "down_u32 (\<lambda>i m. m(to + (i - 1) := m (from + (i - 1)))) n m =
         (\<lambda>a. if in_range to n a then m (from + (a - to)) else m a)"
proof -
  let ?I = "\<lambda>k (m' :: u32 \<Rightarrow> 'a). m' = (\<lambda>a. if k \<le> a - to \<and> a - to < n then m (from + (a - to)) else m a)"
  have "?I 0 (down_u32 (\<lambda>i m. m(to + (i - 1) := m (from + (i - 1)))) n m)"
  proof (rule down_u32_rule [where I = ?I])
    fix k :: u32 and m' :: "u32 \<Rightarrow> 'a"
    assume k: "k \<noteq> 0" "k \<le> n" and inv: "?I k m'"
    define j where "j = k - 1"
    have kj: "k = j + 1" by (simp add: j_def)
    have jk: "j < k" using k by (simp add: j_def word_less_nat_alt unat_minus_one unat_gt_0)
    with k have jn: "j < n" by simp
    have split: "j \<le> x \<longleftrightarrow> k \<le> x \<or> x = j" for x
      using less_inc_u32 [OF jn, of x] by (auto simp: kj not_less [symmetric])
    have "\<not> (k \<le> from + j - to \<and> from + j - to < n)"
    proof
      assume c: "k \<le> from + j - to \<and> from + j - to < n"
      with jk have "j < from + j - to" by (meson less_le_trans)
      from safe [OF this] c show False by simp
    qed
    then have src: "m' (from + j) = m (from + j)" unfolding inv by (rule if_not_P)
    show "?I (k - 1) (m'(to + (k - 1) := m' (from + (k - 1))))"
    proof
      fix a
      show "(m'(to + (k - 1) := m' (from + (k - 1)))) a =
            (if k - 1 \<le> a - to \<and> a - to < n then m (from + (a - to)) else m a)"
        using inv src jn split [of "a - to"]
        by (cases "a - to = j") (auto simp: j_def [symmetric])
    qed
  next
    show "?I n m" by (rule ext) (meson leD)
  qed
  then show ?thesis by (simp add: in_range_def)
qed

lemma fill_up:
  "for_u32 (\<lambda>i m. m(to + i := v)) 0 n m = (\<lambda>a. if in_range to n a then v else m a)"
proof -
  let ?I = "\<lambda>k (m' :: u32 \<Rightarrow> 'a). m' = (\<lambda>a. if a - to < k then v else m a)"
  have "?I n (for_u32 (\<lambda>i m. m(to + i := v)) 0 n m)"
  proof (rule for_u32_rule [where I = ?I])
    fix k :: u32 and m' :: "u32 \<Rightarrow> 'a"
    assume k: "k < n" and inv: "?I k m'"
    show "?I (k + 1) (m'(to + k := v))"
    proof
      fix a
      show "(m'(to + k := v)) a = (if a - to < k + 1 then v else m a)"
        using inv less_inc_u32 [OF k, of "a - to"] by (cases "a - to = k") auto
    qed
  qed (simp_all)
  then show ?thesis by (simp add: in_range_def)
qed

section \<open>Little-endian words\<close>

definition join4 :: "u8 \<Rightarrow> u8 \<Rightarrow> u8 \<Rightarrow> u8 \<Rightarrow> u32" where
  "join4 b0 b1 b2 b3 =
     (ucast b0 :: u32) OR push_bit 8 (ucast b1 :: u32)
     OR push_bit 16 (ucast b2 :: u32) OR push_bit 24 (ucast b3 :: u32)"

definition byte_of :: "u32 \<Rightarrow> nat \<Rightarrow> u8" where
  "byte_of w k = ucast (drop_bit (8 * k) w)"

lemma bit_join4:
  "bit (join4 b0 b1 b2 b3) n \<longleftrightarrow>
     (if n < 8 then bit b0 n else if n < 16 then bit b1 (n - 8)
      else if n < 24 then bit b2 (n - 16) else n < 32 \<and> bit b3 (n - 24))"
  by (auto simp: join4_def bit_simps dest: bit_imp_le_length)

lemma join4_byte_of [simp]:
  "join4 (byte_of w 0) (byte_of w (Suc 0)) (byte_of w 2) (byte_of w 3) = w"
  by (rule bit_word_eqI) (auto simp: byte_of_def bit_simps bit_join4)

lemma byte_of_join4 [simp]:
  "byte_of (join4 b0 b1 b2 b3) 0 = b0"
  "byte_of (join4 b0 b1 b2 b3) (Suc 0) = b1"
  "byte_of (join4 b0 b1 b2 b3) 2 = b2"
  "byte_of (join4 b0 b1 b2 b3) 3 = b3"
  by (rule bit_word_eqI; simp add: byte_of_def bit_simps bit_join4)+

section \<open>Loadable segments\<close>

text \<open>
  A loadable segment: \<open>seg_file\<close> initialised bytes at \<open>seg_dest\<close>, followed by zeroes up to
  \<open>seg_mem\<close> bytes. \<open>overlay\<close> is what loading it does to a byte map.
\<close>

record segment =
  seg_dest :: u32
  seg_file :: u32
  seg_mem :: u32
  seg_data :: "u32 \<Rightarrow> u8"

definition overlay :: "segment \<Rightarrow> mem \<Rightarrow> mem" where
  "overlay g m = (\<lambda>a.
     if in_range (seg_dest g) (seg_mem g) a
     then (if a - seg_dest g < seg_file g then seg_data g (a - seg_dest g) else 0)
     else m a)"

lemma overlay_outside: "\<not> in_range (seg_dest g) (seg_mem g) a \<Longrightarrow> overlay g m a = m a"
  by (simp add: overlay_def)

lemma fold_overlay_outside:
  "(\<And>g. g \<in> set gs \<Longrightarrow> \<not> in_range (seg_dest g) (seg_mem g) a) \<Longrightarrow> fold overlay gs m a = m a"
proof (induction gs arbitrary: m)
  case Nil
  then show ?case by simp
next
  case (Cons g gs)
  then have "fold overlay gs (overlay g m) a = overlay g m a" by simp
  with Cons.prems show ?case by (simp add: overlay_outside)
qed

text \<open>The last segment that covers an address decides its byte.\<close>

lemma fold_overlay_last:
  assumes "\<And>g. g \<in> set gs2 \<Longrightarrow> \<not> in_range (seg_dest g) (seg_mem g) a"
    and "in_range (seg_dest g) (seg_mem g) a"
  shows "fold overlay (gs1 @ g # gs2) m a =
         (if a - seg_dest g < seg_file g then seg_data g (a - seg_dest g) else 0)"
  using assms by (simp add: fold_overlay_outside overlay_def)

lemma of_nat_less_u32: "i < unat n \<Longrightarrow> of_nat i < (n :: u32)"
  using unat_u32_bound [of n] by (simp add: word_less_nat_alt unat_of_nat)

text \<open>A counted loop is a fold over its indices.\<close>

lemma for_u32_fold: "for_u32 body 0 n s = fold (\<lambda>i. body (of_nat i)) [0..<unat n] s"
proof -
  let ?I = "\<lambda>k t. t = fold (\<lambda>i. body (of_nat i)) [0..<unat k] s"
  have "?I n (for_u32 body 0 n s)"
    by (rule for_u32_rule [where I = ?I]) (auto simp: unat_Suc_u32)
  then show ?thesis .
qed

text \<open>
  The contract of a loader: one step installs one segment in the bytes the loader fills
  (\<open>view\<close>), and no step spoils a later one. The loader of a whole table then implements
  the fold of \<open>overlay\<close> over the table.
\<close>

locale segment_loader =
  fixes install :: "'g \<Rightarrow> 's \<Rightarrow> 's"
    and view :: "'s \<Rightarrow> mem"
    and seg :: "'g \<Rightarrow> segment"
    and ready :: "'g \<Rightarrow> 's \<Rightarrow> bool"
  assumes view_install: "ready g s \<Longrightarrow> view (install g s) = overlay (seg g) (view s)"
    and ready_install: "ready g s \<Longrightarrow> ready h s \<Longrightarrow> ready h (install g s)"
begin

lemma ready_fold:
  "(\<And>g. g \<in> set gs \<Longrightarrow> ready g s) \<Longrightarrow> ready h s \<Longrightarrow> ready h (fold install gs s)"
  by (induction gs arbitrary: s) (simp_all add: ready_install)

lemma view_fold:
  "(\<And>g. g \<in> set gs \<Longrightarrow> ready g s) \<Longrightarrow>
   view (fold install gs s) = fold overlay (map seg gs) (view s)"
proof (induction gs arbitrary: s)
  case Nil
  then show ?case by simp
next
  case (Cons g gs)
  then have "view (fold install gs (install g s)) = fold overlay (map seg gs) (view (install g s))"
    by (simp add: ready_install)
  with Cons.prems show ?case by (simp add: view_install)
qed

end

end
