(* ===== verification/Memory.thy ===== *)
theory Memory
  imports Prelude "HOL-Library.List_Lexorder"
begin

text \<open>
  The freestanding memory routines of the kernel (\<^verbatim>\<open>kernel/src/runtime/memory.c\<close>) and of the
  user library (\<^verbatim>\<open>user/lib/src/memory.c\<close>), over a flat 32-bit byte memory. Pointers are
  addresses, \<^verbatim>\<open>size_t\<close> is 32 bits wide, and pointer arithmetic wraps, so what the routines do
  with overlapping operands is visible. Each routine returns its first argument and the memory.
\<close>

section \<open>The kernel's routines\<close>

definition memcpy :: "u32 \<Rightarrow> u32 \<Rightarrow> u32 \<Rightarrow> mem \<Rightarrow> u32 \<times> mem" where
  "memcpy destination source len m =
     (destination,
      for_u32 (\<lambda>index m. m(destination + index := m (source + index))) 0 len m)"

definition memset :: "u32 \<Rightarrow> u32 \<Rightarrow> u32 \<Rightarrow> mem \<Rightarrow> u32 \<times> mem" where
  "memset destination val len m =
     (destination, for_u32 (\<lambda>index m. m(destination + index := ucast val)) 0 len m)"

definition memmove :: "u32 \<Rightarrow> u32 \<Rightarrow> u32 \<Rightarrow> mem \<Rightarrow> u32 \<times> mem" where
  "memmove destination source len m =
     (destination,
      (if destination < source
       then for_u32 (\<lambda>index m. m(destination + index := m (source + index))) 0 len m
       else down_u32 (\<lambda>index m. m(destination + (index - 1) := m (source + (index - 1)))) len m))"

text \<open>The comparison loop returns from its body at the first difference.\<close>

function memcmp_from :: "u32 \<Rightarrow> u32 \<Rightarrow> u32 \<Rightarrow> u32 \<Rightarrow> mem \<Rightarrow> int" where
  "memcmp_from index left right len m =
     (if index < len
      then (if m (left + index) \<noteq> m (right + index)
            then (if m (left + index) < m (right + index) then - 1 else 1)
            else memcmp_from (index + 1) left right len m)
      else 0)"
  by pat_completeness auto
termination
  by (relation "measure (\<lambda>(index, left, right, len, m). unat (len - index))")
    (auto intro: loop_measure_u32)

declare memcmp_from.simps [simp del]

definition memcmp :: "u32 \<Rightarrow> u32 \<Rightarrow> u32 \<Rightarrow> mem \<Rightarrow> int" where
  "memcmp left right len m = memcmp_from 0 left right len m"

section \<open>The user library's routines\<close>

text \<open>The same four routines, compiled into \<^verbatim>\<open>libminimum_user.a\<close> from its own source file.\<close>

definition user_memcpy :: "u32 \<Rightarrow> u32 \<Rightarrow> u32 \<Rightarrow> mem \<Rightarrow> u32 \<times> mem" where
  "user_memcpy destination source len m =
     (destination,
      for_u32 (\<lambda>index m. m(destination + index := m (source + index))) 0 len m)"

definition user_memset :: "u32 \<Rightarrow> u32 \<Rightarrow> u32 \<Rightarrow> mem \<Rightarrow> u32 \<times> mem" where
  "user_memset destination val len m =
     (destination, for_u32 (\<lambda>index m. m(destination + index := ucast val)) 0 len m)"

definition user_memmove :: "u32 \<Rightarrow> u32 \<Rightarrow> u32 \<Rightarrow> mem \<Rightarrow> u32 \<times> mem" where
  "user_memmove destination source len m =
     (destination,
      (if destination < source
       then for_u32 (\<lambda>index m. m(destination + index := m (source + index))) 0 len m
       else down_u32 (\<lambda>index m. m(destination + (index - 1) := m (source + (index - 1)))) len m))"

function user_memcmp_from :: "u32 \<Rightarrow> u32 \<Rightarrow> u32 \<Rightarrow> u32 \<Rightarrow> mem \<Rightarrow> int" where
  "user_memcmp_from index left right len m =
     (if index < len
      then (if m (left + index) \<noteq> m (right + index)
            then (if m (left + index) < m (right + index) then - 1 else 1)
            else user_memcmp_from (index + 1) left right len m)
      else 0)"
  by pat_completeness auto
termination
  by (relation "measure (\<lambda>(index, left, right, len, m). unat (len - index))")
    (auto intro: loop_measure_u32)

declare user_memcmp_from.simps [simp del]

definition user_memcmp :: "u32 \<Rightarrow> u32 \<Rightarrow> u32 \<Rightarrow> mem \<Rightarrow> int" where
  "user_memcmp left right len m = user_memcmp_from 0 left right len m"

section \<open>What they promise\<close>

text \<open>The bytes of a range, in address order.\<close>

definition bytes_at :: "mem \<Rightarrow> u32 \<Rightarrow> u32 \<Rightarrow> u8 list" where
  "bytes_at m p n = map (\<lambda>i. m (p + of_nat i)) [0..<unat n]"

definition disjoint :: "u32 \<Rightarrow> u32 \<Rightarrow> u32 \<Rightarrow> bool" where
  "disjoint p q n \<longleftrightarrow> (\<forall>j k. j < n \<longrightarrow> k < n \<longrightarrow> p + j \<noteq> q + k)"

text \<open>What a block copy means: the destination range takes the bytes the source range had.\<close>

definition moved :: "u32 \<Rightarrow> u32 \<Rightarrow> u32 \<Rightarrow> mem \<Rightarrow> mem" where
  "moved to from n m = (\<lambda>a. if in_range to n a then m (from + (a - to)) else m a)"

lemma moved_bytes: "bytes_at (moved to from n m) to n = bytes_at m from n"
  unfolding bytes_at_def
proof (rule map_cong [OF refl])
  fix i assume "i \<in> set [0..<unat n]"
  then have "of_nat i < n"
    by (simp add: word_less_nat_alt unat_of_nat)
  then show "moved to from n m (to + of_nat i) = m (from + of_nat i)"
    by (simp add: moved_def in_range_def)
qed

lemma offset_order:
  assumes "no_wrap p n" and "(k :: u32) < n"
  shows "unat (p + k) = unat p + unat k"
  using assms by (intro unat_add_u32) (simp add: no_wrap_def word_less_nat_alt)

lemma move_loops:
  assumes "no_wrap to n" and "no_wrap from n"
  shows "to < from \<Longrightarrow> for_u32 (\<lambda>i m. m(to + i := m (from + i))) 0 n m = moved to from n m"
    and "\<not> to < from \<Longrightarrow>
      down_u32 (\<lambda>i m. m(to + (i - 1) := m (from + (i - 1)))) n m = moved to from n m"
proof -
  have off: "unat (to + k) = unat to + unat k" "unat (from + k) = unat from + unat k" if "k < n" for k
    using that assms by (auto intro: offset_order)
  show "for_u32 (\<lambda>i m. m(to + i := m (from + i))) 0 n m = moved to from n m" if "to < from"
    unfolding moved_def
  proof (rule copy_up)
    fix j k :: u32
    assume jk: "j < k" "k < n"
    then have "j < n" by (rule less_trans)
    with jk have "unat (to + j) < unat (from + k)"
      using off that by (simp add: word_less_nat_alt)
    then show "to + j \<noteq> from + k" by auto
  qed
  show "down_u32 (\<lambda>i m. m(to + (i - 1) := m (from + (i - 1)))) n m = moved to from n m"
    if "\<not> to < from"
    unfolding moved_def
  proof (rule copy_down)
    fix j k :: u32
    assume jk: "j < k" "k < n"
    then have "j < n" by (rule less_trans)
    with jk have "unat (from + j) < unat (to + k)"
      using off that by (simp add: word_less_nat_alt)
    then show "to + k \<noteq> from + j" by auto
  qed
qed

text \<open>Comparison by computation induction: the bytes from \<open>index\<close> on decide the result.\<close>

definition lex_order :: "u8 list \<Rightarrow> u8 list \<Rightarrow> int" where
  "lex_order xs ys = (if xs < ys then - 1 else if xs = ys then 0 else 1)"

definition bytes_from :: "mem \<Rightarrow> u32 \<Rightarrow> u32 \<Rightarrow> u32 \<Rightarrow> u8 list" where
  "bytes_from m p i n = map (\<lambda>k. m (p + of_nat k)) [unat i..<unat n]"

lemma bytes_from_step:
  "i < n \<Longrightarrow> bytes_from m p i n = m (p + i) # bytes_from m p (i + 1) n"
  by (simp add: bytes_from_def unat_Suc_u32 word_less_nat_alt upt_conv_Cons)

lemma bytes_from_done: "\<not> i < n \<Longrightarrow> bytes_from m p i n = []"
  by (simp add: bytes_from_def word_less_nat_alt)

lemma bytes_from_0: "bytes_from m p 0 n = bytes_at m p n"
  by (simp add: bytes_from_def bytes_at_def)

lemma memcmp_from_lex:
  "memcmp_from i p q n m = lex_order (bytes_from m p i n) (bytes_from m q i n)"
proof (induction i p q n m rule: memcmp_from.induct)
  case (1 i p q n m)
  then show ?case
    by (cases "i < n")
      (auto simp: memcmp_from.simps [of i] bytes_from_step bytes_from_done lex_order_def)
qed

lemma user_memcmp_from_lex:
  "user_memcmp_from i p q n m = lex_order (bytes_from m p i n) (bytes_from m q i n)"
proof (induction i p q n m rule: user_memcmp_from.induct)
  case (1 i p q n m)
  then show ?case
    by (cases "i < n")
      (auto simp: user_memcmp_from.simps [of i] bytes_from_step bytes_from_done lex_order_def)
qed

section \<open>The contract of a set of routines\<close>

text \<open>
  What code that uses the routines may rely on. The kernel and the user library are linked to
  different copies; both meet the contract.
\<close>

locale memory_routines =
  fixes cpy set_to move :: "u32 \<Rightarrow> u32 \<Rightarrow> u32 \<Rightarrow> mem \<Rightarrow> u32 \<times> mem"
    and cmp :: "u32 \<Rightarrow> u32 \<Rightarrow> u32 \<Rightarrow> mem \<Rightarrow> int"
  assumes cpy: "disjoint d p n \<Longrightarrow> cpy d p n m = (d, moved d p n m)"
    and move: "no_wrap d n \<Longrightarrow> no_wrap p n \<Longrightarrow> move d p n m = (d, moved d p n m)"
    and set_to: "set_to d v n m = (d, \<lambda>a. if in_range d n a then ucast v else m a)"
    and cmp: "cmp p q n m = lex_order (bytes_at m p n) (bytes_at m q n)"
begin

lemma move_result:
  assumes "no_wrap d n" and "no_wrap p n"
  shows "fst (move d p n m) = d" "bytes_at (snd (move d p n m)) d n = bytes_at m p n"
    and "\<not> in_range d n a \<Longrightarrow> snd (move d p n m) a = m a"
  by (simp_all add: move [OF assms] moved_bytes) (simp add: moved_def)

lemma moved_source:
  assumes "disjoint d p n"
  shows "bytes_at (moved d p n m) p n = bytes_at m p n"
  unfolding bytes_at_def
proof (rule map_cong [OF refl])
  fix i assume "i \<in> set [0..<unat n]"
  then have "of_nat i < n" by (simp add: word_less_nat_alt unat_of_nat)
  then have "\<not> in_range d n (p + of_nat i)"
    using assms by (auto simp: disjoint_def in_range_def) (metis add_diff_cancel_left' diff_add_cancel add.commute)
  then show "moved d p n m (p + of_nat i) = m (p + of_nat i)" by (simp add: moved_def)
qed

lemma copy_compares_equal:
  assumes "disjoint d p n"
  shows "cmp d p n (snd (cpy d p n m)) = 0"
  by (simp add: cmp cpy [OF assms] moved_bytes moved_source [OF assms] lex_order_def)

lemma move_agrees_with_copy:
  assumes "disjoint d p n" and "no_wrap d n" and "no_wrap p n"
  shows "move d p n m = cpy d p n m"
  by (simp add: cpy [OF assms(1)] move [OF assms(2,3)])

lemma set_bytes_at: "bytes_at (snd (set_to d v n m)) d n = replicate (unat n) (ucast v)"
proof -
  have "map (\<lambda>i. if in_range d n (d + of_nat i) then ucast v else m (d + of_nat i)) [0..<unat n]
      = map (\<lambda>_. ucast v) [0..<unat n]"
    by (rule map_cong [OF refl]) (simp add: in_range_def of_nat_less_u32)
  then show ?thesis by (simp add: bytes_at_def set_to map_replicate_const)
qed

end

lemma copy_disjoint:
  "disjoint d p n \<Longrightarrow> for_u32 (\<lambda>i m. m(d + i := m (p + i))) 0 n m = moved d p n m"
  unfolding moved_def by (rule copy_up) (metis disjoint_def less_trans)

interpretation kernel_mem: memory_routines memcpy memset memmove memcmp
  by unfold_locales
    (auto simp: memcpy_def memset_def memmove_def memcmp_def copy_disjoint move_loops fill_up
      memcmp_from_lex bytes_from_0)

interpretation user_mem: memory_routines user_memcpy user_memset user_memmove user_memcmp
  by unfold_locales
    (auto simp: user_memcpy_def user_memset_def user_memmove_def user_memcmp_def copy_disjoint
      move_loops fill_up user_memcmp_from_lex bytes_from_0)

section \<open>The properties\<close>

text \<open>
  C35: \<open>memmove\<close>, of the kernel and of the user library, returns its destination, moves the bytes
  the source range held before the call whatever way the two ranges overlap, and touches nothing
  else, for ranges that do not run over the end of the address space.
\<close>

theorem memmove_moves:
  assumes "no_wrap d n" and "no_wrap p n"
  shows "fst (memmove d p n m) = d \<and> bytes_at (snd (memmove d p n m)) d n = bytes_at m p n
    \<and> (\<forall>a. in_range d n a \<or> snd (memmove d p n m) a = m a)
    \<and> user_memmove d p n m = memmove d p n m"
  using kernel_mem.move_result [OF assms] kernel_mem.move [OF assms] user_mem.move [OF assms] by auto

theorem memmove_moves_witness:
  "bytes_at (snd (memmove 0x101 0x100 3 (\<lambda>a. ucast a))) 0x101 3 = [0, 1, 2]"
proof -
  have "no_wrap 0x101 3" "no_wrap 0x100 3" by (simp_all add: no_wrap_def)
  from memmove_moves [OF this, of "\<lambda>a. ucast a"] show ?thesis
    by (simp add: bytes_at_def upt_rec)
qed

text \<open>
  C36: \<open>memcpy\<close> of disjoint ranges makes them compare equal: the comparison routine finds no
  difference between the copy and its source, and \<open>memmove\<close> would have done the same.
\<close>

theorem memcpy_copies:
  assumes "disjoint d p n" and "no_wrap d n" and "no_wrap p n"
  shows "memcmp d p n (snd (memcpy d p n m)) = 0 \<and> user_memcmp d p n (snd (user_memcpy d p n m)) = 0
    \<and> memcpy d p n m = memmove d p n m \<and> user_memcpy d p n m = user_memmove d p n m"
  using kernel_mem.copy_compares_equal [OF assms(1)] user_mem.copy_compares_equal [OF assms(1)]
    kernel_mem.move_agrees_with_copy [OF assms] user_mem.move_agrees_with_copy [OF assms] by simp

theorem memcpy_copies_witness:
  "memcmp 0x200 0x100 2 (snd (memcpy 0x200 0x100 2 (\<lambda>a. ucast a))) = 0"
proof -
  have w: "no_wrap 0x200 2" "no_wrap 0x100 2" by (simp_all add: no_wrap_def)
  have "disjoint 0x200 0x100 2"
    unfolding disjoint_def
  proof (intro allI impI)
    fix j k :: u32 assume "j < 2" "k < 2"
    then have "unat (0x200 + j) = 0x200 + unat j" "unat (0x100 + k) = 0x100 + unat k"
      "unat k < 2"
      by (auto intro!: trans [OF unat_add_u32] simp: word_less_nat_alt)
    then have "unat (0x200 + j) \<noteq> unat (0x100 + k)" by linarith
    then show "0x200 + j \<noteq> 0x100 + k" by metis
  qed
  from memcpy_copies [OF this w] show ?thesis by blast
qed

text \<open>
  C37: \<open>memcmp\<close> orders two ranges as their bytes are ordered lexicographically as unsigned numbers:
  -1, 0 or 1 as the first is less, equal or greater.
\<close>

theorem memcmp_orders:
  "memcmp p q n m = lex_order (bytes_at m p n) (bytes_at m q n)
   \<and> user_memcmp p q n m = lex_order (bytes_at m p n) (bytes_at m q n)"
  by (simp add: kernel_mem.cmp user_mem.cmp)

text \<open>\<open>memset\<close> stores the low byte of its value in the whole range and nowhere else.\<close>

theorem memset_fills:
  "fst (memset d v n m) = d
   \<and> bytes_at (snd (memset d v n m)) d n = replicate (unat n) (ucast v)
   \<and> (\<forall>a. in_range d n a \<or> snd (memset d v n m) a = m a)
   \<and> user_memset d v n m = memset d v n m"
  using kernel_mem.set_bytes_at [of d v n m] by (simp add: kernel_mem.set_to user_mem.set_to)

end
