(* ===== verification/BootInfo.thy ===== *)
theory BootInfo
  imports Prelude
begin

text \<open>
  The boot ABI of \<^verbatim>\<open>kernel/include/minemu/boot.h\<close>: the three structures the Boot ROM, the
  packed image and the kernel share, and how the little-endian C code reads them from memory.
\<close>

section \<open>The structures\<close>

record minemu_boot_info =
  bi_magic :: u32
  bi_version :: u16
  bi_size :: u16
  bi_system_rom_base :: u32
  bi_image_size :: u32
  bi_module_table_offset :: u32
  bi_module_count :: u32
  bi_direct_map_vaddr :: u32
  bi_direct_map_paddr :: u32
  bi_direct_map_size :: u32
  bi_flags :: u32
  bi_reserved :: "u32 list"

record minemu_module_record =
  mr_name_offset :: u32
  mr_name_length :: u32
  mr_segment_table_offset :: u32
  mr_segment_count :: u32
  mr_entry_vaddr :: u32
  mr_flags :: u32
  mr_reserved :: "u32 list"

record minemu_module_segment =
  ms_data_offset :: u32
  ms_virtual_address :: u32
  ms_file_size :: u32
  ms_memory_size :: u32
  ms_flags :: u32
  ms_reserved :: "u32 list"

abbreviation (input) "MINEMU_BOOT_INFO_MAGIC \<equiv> (0x4d424f4f :: u32)"
abbreviation (input) "MINEMU_ABI_VERSION \<equiv> (1 :: u16)"
abbreviation (input) "MINEMU_BOOT_INFO_VADDR \<equiv> (0xc0007000 :: u32)"
abbreviation (input) "MINEMU_SEGMENT_READABLE \<equiv> (1 :: u32)"
abbreviation (input) "MINEMU_SEGMENT_WRITABLE \<equiv> (2 :: u32)"
abbreviation (input) "MINEMU_SEGMENT_EXECUTABLE \<equiv> (4 :: u32)"

section \<open>Reading them from memory\<close>

definition load_u16 :: "mem \<Rightarrow> u32 \<Rightarrow> u16" where
  "load_u16 m a = (ucast (m a) :: u16) OR push_bit 8 (ucast (m (a + 1)) :: u16)"

definition load_u32 :: "mem \<Rightarrow> u32 \<Rightarrow> u32" where
  "load_u32 m a = join4 (m a) (m (a + 1)) (m (a + 2)) (m (a + 3))"

definition load_words :: "mem \<Rightarrow> u32 \<Rightarrow> nat \<Rightarrow> u32 list" where
  "load_words m a n = map (\<lambda>i. load_u32 m (a + 4 * of_nat i)) [0..<n]"

text \<open>Each structure is laid out without padding, its fields in order.\<close>

definition boot_info_at :: "mem \<Rightarrow> u32 \<Rightarrow> minemu_boot_info" where
  "boot_info_at m p = \<lparr>
     bi_magic = load_u32 m p,
     bi_version = load_u16 m (p + 4),
     bi_size = load_u16 m (p + 6),
     bi_system_rom_base = load_u32 m (p + 8),
     bi_image_size = load_u32 m (p + 12),
     bi_module_table_offset = load_u32 m (p + 16),
     bi_module_count = load_u32 m (p + 20),
     bi_direct_map_vaddr = load_u32 m (p + 24),
     bi_direct_map_paddr = load_u32 m (p + 28),
     bi_direct_map_size = load_u32 m (p + 32),
     bi_flags = load_u32 m (p + 36),
     bi_reserved = load_words m (p + 40) 6 \<rparr>"

definition module_record_at :: "mem \<Rightarrow> u32 \<Rightarrow> minemu_module_record" where
  "module_record_at m p = \<lparr>
     mr_name_offset = load_u32 m p,
     mr_name_length = load_u32 m (p + 4),
     mr_segment_table_offset = load_u32 m (p + 8),
     mr_segment_count = load_u32 m (p + 12),
     mr_entry_vaddr = load_u32 m (p + 16),
     mr_flags = load_u32 m (p + 20),
     mr_reserved = load_words m (p + 24) 2 \<rparr>"

definition module_segment_at :: "mem \<Rightarrow> u32 \<Rightarrow> minemu_module_segment" where
  "module_segment_at m p = \<lparr>
     ms_data_offset = load_u32 m p,
     ms_virtual_address = load_u32 m (p + 4),
     ms_file_size = load_u32 m (p + 8),
     ms_memory_size = load_u32 m (p + 12),
     ms_flags = load_u32 m (p + 16),
     ms_reserved = load_words m (p + 20) 3 \<rparr>"

section \<open>Words in a byte memory\<close>

definition store_u16 :: "u32 \<Rightarrow> u16 \<Rightarrow> mem \<Rightarrow> mem" where
  "store_u16 a v m = m(a := ucast v, a + 1 := ucast (drop_bit 8 v))"

definition store_u32 :: "u32 \<Rightarrow> u32 \<Rightarrow> mem \<Rightarrow> mem" where
  "store_u32 a v m =
     m(a := byte_of v 0, a + 1 := byte_of v (Suc 0), a + 2 := byte_of v 2, a + 3 := byte_of v 3)"

definition apart :: "u32 \<Rightarrow> u32 \<Rightarrow> u32 \<Rightarrow> u32 \<Rightarrow> bool" where
  "apart a n b k \<longleftrightarrow> n \<le> b - a \<and> k \<le> a - b"

lemma apart_neq:
  assumes "apart a n b k" and "i < n" and "j < k"
  shows "a + i \<noteq> b + j"
proof
  assume eq: "a + i = b + j"
  show False
  proof (cases "j \<le> i")
    case True
    have "b - a = i - j" using eq by (simp add: algebra_simps)
    moreover have "i - j \<le> i" using True by (simp add: word_le_nat_alt unat_sub_u32)
    ultimately show False using assms by (auto simp: apart_def)
  next
    case False
    have "a - b = j - i" using eq by (simp add: algebra_simps)
    moreover have "j - i \<le> j" using False by (simp add: word_le_nat_alt unat_sub_u32)
    ultimately show False using assms by (auto simp: apart_def)
  qed
qed

lemma load_store_u32 [simp]: "load_u32 (store_u32 a v m) a = v"
  by (simp add: load_u32_def store_u32_def)

lemma load_store_u16 [simp]: "load_u16 (store_u16 a v m) a = v"
  by (rule bit_word_eqI) (auto simp: load_u16_def store_u16_def bit_simps)

lemma load_u32_cong:
  assumes "\<And>i. i < 4 \<Longrightarrow> m (a + i) = m' (a + i)"
  shows "load_u32 m a = load_u32 m' a"
  using assms [of 0] assms [of 1] assms [of 2] assms [of 3] by (simp add: load_u32_def)

lemma store_u32_outside: "\<not> in_range a 4 b \<Longrightarrow> store_u32 a v m b = m b"
  by (auto simp: store_u32_def in_range_def)

lemma store_u16_outside: "\<not> in_range a 2 b \<Longrightarrow> store_u16 a v m b = m b"
  by (auto simp: store_u16_def in_range_def)

named_theorems load_store \<open>loads after stores at other addresses\<close>

lemma load_u32_upd:
  assumes "apart a 4 b n" and "\<And>c. \<not> in_range b n c \<Longrightarrow> m' c = m c"
  shows "load_u32 m' a = load_u32 m a"
proof (rule load_u32_cong)
  fix i :: u32 assume i: "i < 4"
  have "\<not> in_range b n (a + i)"
  proof
    assume "in_range b n (a + i)"
    then have "a + i - b < n" by (simp add: in_range_def)
    from apart_neq [OF assms(1) i this] show False by simp
  qed
  with assms(2) show "m' (a + i) = m (a + i)" .
qed

lemma load_u16_cong:
  assumes "\<And>i. i < 2 \<Longrightarrow> m (a + i) = m' (a + i)"
  shows "load_u16 m a = load_u16 m' a"
  using assms [of 0] assms [of 1] by (simp add: load_u16_def)

lemma load_u16_upd:
  assumes "apart a 2 b n" and "\<And>c. \<not> in_range b n c \<Longrightarrow> m' c = m c"
  shows "load_u16 m' a = load_u16 m a"
proof (rule load_u16_cong)
  fix i :: u32 assume i: "i < 2"
  have "\<not> in_range b n (a + i)"
  proof
    assume "in_range b n (a + i)"
    then have "a + i - b < n" by (simp add: in_range_def)
    from apart_neq [OF assms(1) i this] show False by simp
  qed
  with assms(2) show "m' (a + i) = m (a + i)" .
qed

lemma load_u32_store_u32 [load_store]:
  "apart a 4 b 4 \<Longrightarrow> load_u32 (store_u32 b v m) a = load_u32 m a"
  by (rule load_u32_upd) (auto simp: store_u32_outside)

lemma load_u32_store_u16 [load_store]:
  "apart a 4 b 2 \<Longrightarrow> load_u32 (store_u16 b v m) a = load_u32 m a"
  by (rule load_u32_upd) (auto simp: store_u16_outside)

lemma load_u16_store_u32 [load_store]:
  "apart a 2 b 4 \<Longrightarrow> load_u16 (store_u32 b v m) a = load_u16 m a"
  by (rule load_u16_upd) (auto simp: store_u32_outside)

lemma load_u16_store_u16 [load_store]:
  "apart a 2 b 2 \<Longrightarrow> load_u16 (store_u16 b v m) a = load_u16 m a"
  by (rule load_u16_upd) (auto simp: store_u16_outside)

text \<open>A word all of whose bytes are zero.\<close>

lemma load_u32_zero:
  "m a = 0 \<Longrightarrow> m (a + 1) = 0 \<Longrightarrow> m (a + 2) = 0 \<Longrightarrow> m (a + 3) = 0 \<Longrightarrow> load_u32 m a = 0"
  by (simp add: load_u32_def join4_def)

end
