(* ===== verification/Bootloader.thy ===== *)
theory Bootloader
  imports BootInfo
begin

text \<open>
  The Boot ROM (\<^verbatim>\<open>bootloader/src/boot.c\<close>). It runs with the MMU off, so the state is the flat
  physical memory. \<open>boot_main\<close> does not return: its value is the jump it ends with, the
  entry address and the argument passed in \<^verbatim>\<open>r0\<close>, with the memory at that moment. The system
  ROM is part of the memory; the theorems ask that no segment is loaded over it. The memory here is
  the one the C code addresses; the page that holds the loader's stack is in \<open>BootReset\<close>, where
  \<open>boot_main\<close> is shown to be exact for every other address.
\<close>

section \<open>Constants\<close>

abbreviation (input) "SYSTEM_ROM_BASE \<equiv> (0x08000000 :: u32)"
abbreviation (input) "BOOT_INFO_PADDR \<equiv> (0x40007000 :: u32)"
abbreviation (input) "BOOT_INFO_VADDR \<equiv> (0xc0007000 :: u32)"
abbreviation (input) "IMAGE_SIZE_OFFSET \<equiv> (0x08 :: u32)"
abbreviation (input) "KERNEL_TABLE_OFFSET \<equiv> (0x0c :: u32)"
abbreviation (input) "KERNEL_COUNT_OFFSET \<equiv> (0x10 :: u32)"
abbreviation (input) "MODULE_TABLE_OFFSET \<equiv> (0x14 :: u32)"
abbreviation (input) "MODULE_COUNT_OFFSET \<equiv> (0x18 :: u32)"
abbreviation (input) "BOOTSTRAP_ENTRY_OFFSET \<equiv> (0x1c :: u32)"
abbreviation (input) "SEGMENT_DATA_OFFSET \<equiv> (0x00 :: u32)"
abbreviation (input) "SEGMENT_PADDR_OFFSET \<equiv> (0x04 :: u32)"
abbreviation (input) "SEGMENT_FILE_SIZE_OFFSET \<equiv> (0x0c :: u32)"
abbreviation (input) "SEGMENT_MEMORY_SIZE_OFFSET \<equiv> (0x10 :: u32)"
abbreviation (input) "KERNEL_SEGMENT_SIZE \<equiv> (32 :: u32)"
abbreviation (input) "BOOT_INFO_MAGIC \<equiv> (0x4d424f4f :: u32)"
abbreviation (input) "ABI_VERSION \<equiv> (1 :: u32)"
abbreviation (input) "BOOT_INFO_SIZE \<equiv> (64 :: u32)"
abbreviation (input) "DIRECT_MAP_VADDR \<equiv> (0xc0000000 :: u32)"
abbreviation (input) "DIRECT_MAP_PADDR \<equiv> (0x40000000 :: u32)"
abbreviation (input) "DIRECT_MAP_SIZE \<equiv> (0x04000000 :: u32)"

section \<open>Byte-wise access\<close>

definition read_u32 :: "u32 \<Rightarrow> mem \<Rightarrow> u32" where
  "read_u32 address m =
     (ucast (m address) :: u32) OR push_bit 8 (ucast (m (address + 1)) :: u32)
     OR push_bit 16 (ucast (m (address + 2)) :: u32)
     OR push_bit 24 (ucast (m (address + 3)) :: u32)"

definition write_u16 :: "u32 \<Rightarrow> u16 \<Rightarrow> mem \<Rightarrow> mem" where
  "write_u16 address val m =
     m(address := ucast val, address + 1 := ucast (drop_bit 8 val))"

definition write_u32 :: "u32 \<Rightarrow> u32 \<Rightarrow> mem \<Rightarrow> mem" where
  "write_u32 address val m =
     m(address := ucast val, address + 1 := ucast (drop_bit 8 val),
       address + 2 := ucast (drop_bit 16 val), address + 3 := ucast (drop_bit 24 val))"

definition copy_bytes :: "u32 \<Rightarrow> u32 \<Rightarrow> u32 \<Rightarrow> mem \<Rightarrow> mem" where
  "copy_bytes destination source count m =
     for_u32 (\<lambda>index m. m(destination + index := m (source + index))) 0 count m"

definition zero_bytes :: "u32 \<Rightarrow> u32 \<Rightarrow> mem \<Rightarrow> mem" where
  "zero_bytes destination count m =
     for_u32 (\<lambda>index m. m(destination + index := 0)) 0 count m"

section \<open>The loader\<close>

definition write_boot_info :: "u32 \<Rightarrow> u32 \<Rightarrow> u32 \<Rightarrow> mem \<Rightarrow> mem" where
  "write_boot_info image_size module_table module_count m0 =
     (let m = zero_bytes BOOT_INFO_PADDR BOOT_INFO_SIZE m0;
          m = write_u32 (BOOT_INFO_PADDR + 0x00) BOOT_INFO_MAGIC m;
          m = write_u16 (BOOT_INFO_PADDR + 0x04) (ucast ABI_VERSION) m;
          m = write_u16 (BOOT_INFO_PADDR + 0x06) (ucast BOOT_INFO_SIZE) m;
          m = write_u32 (BOOT_INFO_PADDR + 0x08) SYSTEM_ROM_BASE m;
          m = write_u32 (BOOT_INFO_PADDR + 0x0c) image_size m;
          m = write_u32 (BOOT_INFO_PADDR + 0x10) module_table m;
          m = write_u32 (BOOT_INFO_PADDR + 0x14) module_count m;
          m = write_u32 (BOOT_INFO_PADDR + 0x18) DIRECT_MAP_VADDR m;
          m = write_u32 (BOOT_INFO_PADDR + 0x1c) DIRECT_MAP_PADDR m
      in write_u32 (BOOT_INFO_PADDR + 0x20) DIRECT_MAP_SIZE m)"

text \<open>The body of the loop of \<open>boot_main\<close>, for the segment record at address \<open>rec\<close>.\<close>

definition load_kernel_segment :: "u32 \<Rightarrow> mem \<Rightarrow> mem" where
  "load_kernel_segment rec m =
     (let source = SYSTEM_ROM_BASE + read_u32 (rec + SEGMENT_DATA_OFFSET) m;
          destination = read_u32 (rec + SEGMENT_PADDR_OFFSET) m;
          file_size = read_u32 (rec + SEGMENT_FILE_SIZE_OFFSET) m;
          memory_size = read_u32 (rec + SEGMENT_MEMORY_SIZE_OFFSET) m
      in zero_bytes (destination + file_size) (memory_size - file_size)
           (copy_bytes destination source file_size m))"

record bootstrap_jump =
  entry :: u32
  argument :: u32

definition boot_main :: "mem \<Rightarrow> bootstrap_jump \<times> mem" where
  "boot_main m =
     (let image_size = read_u32 (SYSTEM_ROM_BASE + IMAGE_SIZE_OFFSET) m;
          kernel_table = read_u32 (SYSTEM_ROM_BASE + KERNEL_TABLE_OFFSET) m;
          kernel_count = read_u32 (SYSTEM_ROM_BASE + KERNEL_COUNT_OFFSET) m;
          m = for_u32 (\<lambda>index. load_kernel_segment
                 (SYSTEM_ROM_BASE + kernel_table + index * KERNEL_SEGMENT_SIZE)) 0 kernel_count m;
          m = write_boot_info image_size
                (read_u32 (SYSTEM_ROM_BASE + MODULE_TABLE_OFFSET) m)
                (read_u32 (SYSTEM_ROM_BASE + MODULE_COUNT_OFFSET) m) m
      in (\<lparr> entry = read_u32 (SYSTEM_ROM_BASE + BOOTSTRAP_ENTRY_OFFSET) m,
            argument = BOOT_INFO_VADDR \<rparr>, m))"

section \<open>Bytes and words\<close>

lemma read_u32_load: "read_u32 a m = load_u32 m a"
  by (simp add: read_u32_def load_u32_def join4_def)

lemma write_u32_store: "write_u32 a v = store_u32 a v"
  by (rule ext) (simp add: write_u32_def store_u32_def byte_of_def)

lemma write_u16_store: "write_u16 a v = store_u16 a v"
  by (rule ext) (simp add: write_u16_def store_u16_def)

lemma zero_bytes_eq: "zero_bytes p n m = (\<lambda>a. if in_range p n a then 0 else m a)"
  by (simp add: zero_bytes_def fill_up)

text \<open>The boot record: decoded by the kernel's structure, it holds exactly what was meant.\<close>

lemma boot_info_written:
  "boot_info_at (write_boot_info image_size module_table module_count m) BOOT_INFO_PADDR =
     \<lparr> bi_magic = MINEMU_BOOT_INFO_MAGIC, bi_version = MINEMU_ABI_VERSION, bi_size = 64,
       bi_system_rom_base = 0x08000000, bi_image_size = image_size,
       bi_module_table_offset = module_table, bi_module_count = module_count,
       bi_direct_map_vaddr = 0xc0000000, bi_direct_map_paddr = 0x40000000,
       bi_direct_map_size = 0x04000000, bi_flags = 0, bi_reserved = [0, 0, 0, 0, 0, 0] \<rparr>"
proof -
  let ?z = "zero_bytes BOOT_INFO_PADDR BOOT_INFO_SIZE m"
  have rng: "in_range BOOT_INFO_PADDR BOOT_INFO_SIZE (a + j)"
    if "in_range BOOT_INFO_PADDR 61 a" "unat j < 4" for a j
    using that by (intro in_range_add [where n = 61]) (auto simp: in_range_def word_less_nat_alt)
  have zero: "load_u32 ?z a = 0" if "in_range BOOT_INFO_PADDR 61 a" for a
    using rng [OF that, of 0] rng [OF that, of 1] rng [OF that, of 2] rng [OF that, of 3]
    by (intro load_u32_zero) (simp_all add: zero_bytes_eq)
  show ?thesis
    by (simp add: boot_info_at_def write_boot_info_def Let_def write_u32_store write_u16_store
        load_words_def upt_rec load_store apart_def zero in_range_def)
qed
lemma write_boot_info_outside:
  "\<not> in_range BOOT_INFO_PADDR BOOT_INFO_SIZE a \<Longrightarrow> write_boot_info i t c m a = m a"
proof -
  assume out: "\<not> in_range BOOT_INFO_PADDR BOOT_INFO_SIZE a"
  have part: "\<not> in_range b k a" if "unat (b - BOOT_INFO_PADDR) + unat k \<le> unat BOOT_INFO_SIZE" for b k
    using in_range_part [OF _ that] out by blast
  have "store_u32 b v m' a = m' a" if "unat (b - BOOT_INFO_PADDR) + 4 \<le> 64" for b v m'
    using that by (intro store_u32_outside part) simp
  moreover have "store_u16 b v m' a = m' a" if "unat (b - BOOT_INFO_PADDR) + 2 \<le> 64" for b v m'
    using that by (intro store_u16_outside part) simp
  ultimately show ?thesis
    using out by (simp add: write_boot_info_def Let_def write_u32_store write_u16_store zero_bytes_eq)
qed

section \<open>The packed image\<close>

text \<open>
  What the image packer guarantees, as the comment in \<open>boot_main\<close> says: the record table and
  the segment data lie in the system ROM, no segment has more initialised bytes than memory,
  and every segment is loaded into RAM.
\<close>

definition in_rom :: "u32 \<Rightarrow> nat \<Rightarrow> bool" where
  "in_rom a n \<longleftrightarrow> 0x08000000 \<le> unat a \<and> unat a + n \<le> 0x09000000"

definition kernel_segment :: "mem \<Rightarrow> u32 \<Rightarrow> segment" where
  "kernel_segment rom rec = \<lparr>
     seg_dest = read_u32 (rec + SEGMENT_PADDR_OFFSET) rom,
     seg_file = read_u32 (rec + SEGMENT_FILE_SIZE_OFFSET) rom,
     seg_mem = read_u32 (rec + SEGMENT_MEMORY_SIZE_OFFSET) rom,
     seg_data = (\<lambda>i. rom (SYSTEM_ROM_BASE + read_u32 (rec + SEGMENT_DATA_OFFSET) rom + i)) \<rparr>"

definition segment_ok :: "mem \<Rightarrow> u32 \<Rightarrow> bool" where
  "segment_ok rom rec \<longleftrightarrow>
     (let g = kernel_segment rom rec in
      in_rom rec 32 \<and> seg_file g \<le> seg_mem g
      \<and> in_rom (SYSTEM_ROM_BASE + read_u32 (rec + SEGMENT_DATA_OFFSET) rom) (unat (seg_file g))
      \<and> 0x40000000 \<le> unat (seg_dest g) \<and> unat (seg_dest g) + unat (seg_mem g) \<le> 0x44000000)"

definition kernel_records :: "mem \<Rightarrow> u32 list" where
  "kernel_records m =
     map (\<lambda>i. SYSTEM_ROM_BASE + read_u32 (SYSTEM_ROM_BASE + KERNEL_TABLE_OFFSET) m
                + of_nat i * KERNEL_SEGMENT_SIZE)
       [0..<unat (read_u32 (SYSTEM_ROM_BASE + KERNEL_COUNT_OFFSET) m)]"

definition packed_image :: "mem \<Rightarrow> bool" where
  "packed_image m \<longleftrightarrow> list_all (segment_ok m) (kernel_records m)"

definition same_rom :: "mem \<Rightarrow> mem \<Rightarrow> bool" where
  "same_rom rom m \<longleftrightarrow> (\<forall>a. in_rom a 1 \<longrightarrow> m a = rom a)"

lemma same_rom_refl [simp]: "same_rom m m"
  by (simp add: same_rom_def)

lemma in_rom_add:
  assumes "in_rom a n" and "unat i < n"
  shows "in_rom (a + i) 1"
proof -
  have "unat (a + i) = unat a + unat i"
    using assms by (intro unat_add_u32) (simp add: in_rom_def)
  with assms show ?thesis by (simp add: in_rom_def)
qed

lemma read_u32_rom:
  assumes "same_rom rom m" and "in_rom a n" and "unat k + 4 \<le> n"
  shows "read_u32 (a + k) m = read_u32 (a + k) rom"
  unfolding read_u32_load
proof (rule load_u32_cong)
  fix i :: u32 assume i: "i < 4"
  have "unat (k + i) = unat k + unat i"
    using i assms(2,3) by (intro unat_add_u32) (auto simp: in_rom_def word_less_nat_alt)
  with i assms(3) have "unat (k + i) < n" by (simp add: word_less_nat_alt)
  from in_rom_add [OF assms(2) this] assms(1) show "m (a + k + i) = rom (a + k + i)"
    by (simp add: same_rom_def add.assoc)
qed

text \<open>One iteration installs its segment: the copy, then the zeroed rest.\<close>

lemma load_kernel_segment_overlay:
  assumes ok: "segment_ok rom rec" and rom: "same_rom rom m"
  shows "load_kernel_segment rec m = overlay (kernel_segment rom rec) m"
proof -
  define g where "g = kernel_segment rom rec"
  define src where "src = SYSTEM_ROM_BASE + read_u32 (rec + SEGMENT_DATA_OFFSET) rom"
  have recs: "in_rom rec 32" and fm: "seg_file g \<le> seg_mem g"
    and data: "in_rom src (unat (seg_file g))"
    and lo: "0x40000000 \<le> unat (seg_dest g)"
    and hi: "unat (seg_dest g) + unat (seg_mem g) \<le> 0x44000000"
    using ok by (auto simp: segment_ok_def g_def src_def Let_def)
  have rd: "read_u32 (rec + k) m = read_u32 (rec + k) rom" if "unat k + 4 \<le> 32" for k
    using read_u32_rom [OF rom recs that] .
  have fmn: "unat (seg_file g) \<le> unat (seg_mem g)" using fm by (simp add: word_le_nat_alt)
  have step: "load_kernel_segment rec m =
      zero_bytes (seg_dest g + seg_file g) (seg_mem g - seg_file g)
        (copy_bytes (seg_dest g) src (seg_file g) m)"
    using rd [of 0] rd [of 4] rd [of 12] rd [of 16]
    by (simp add: load_kernel_segment_def g_def src_def kernel_segment_def Let_def)
  have off: "in_rom (src + k) 1" if "k < seg_file g" for k
    using in_rom_add [OF data] that by (simp add: word_less_nat_alt)
  have "seg_dest g + j \<noteq> src + k" if "j < k" "k < seg_file g" for j k
  proof
    assume eq: "seg_dest g + j = src + k"
    have jn: "unat j < unat (seg_file g)" using that by (simp add: word_less_nat_alt)
    then have "unat (seg_dest g + j) = unat (seg_dest g) + unat j"
      using hi fmn by (intro unat_add_u32) simp
    with lo off [OF that(2)] eq show False by (simp add: in_rom_def)
  qed
  from copy_up [OF this]
  have copy: "copy_bytes (seg_dest g) src (seg_file g) m =
      (\<lambda>a. if in_range (seg_dest g) (seg_file g) a then m (src + (a - seg_dest g)) else m a)"
    by (simp add: copy_bytes_def)
  show ?thesis unfolding g_def [symmetric]
  proof
    fix a
    define x where "x = a - seg_dest g"
    have z: "a - (seg_dest g + seg_file g) < seg_mem g - seg_file g
        \<longleftrightarrow> seg_file g \<le> x \<and> x < seg_mem g"
      using sub_less_sub [OF fm, of x] by (simp add: x_def algebra_simps)
    have d: "m (src + x) = seg_data g x" if "x < seg_file g"
      using off [OF that] rom by (simp add: same_rom_def g_def kernel_segment_def src_def)
    have "x < seg_file g \<Longrightarrow> x < seg_mem g" using fm by simp
    then show "load_kernel_segment rec m a = overlay g m a"
      using d by (auto simp: step zero_bytes_eq copy overlay_def z in_range_def x_def [symmetric]
          not_less)
  qed
qed

lemma load_kernel_segment_rom:
  assumes ok: "segment_ok rom rec" and rom: "same_rom rom m"
  shows "same_rom rom (load_kernel_segment rec m)"
  unfolding load_kernel_segment_overlay [OF assms]
  unfolding same_rom_def
proof (intro allI impI)
  fix a assume a: "in_rom a 1"
  let ?g = "kernel_segment rom rec"
  have "no_wrap (seg_dest ?g) (seg_mem ?g)"
    using ok by (auto simp: segment_ok_def no_wrap_def Let_def)
  with ok a have "\<not> in_range (seg_dest ?g) (seg_mem ?g) a"
    by (auto simp: in_range_no_wrap segment_ok_def in_rom_def Let_def)
  with rom a show "overlay ?g m a = rom a"
    by (simp add: overlay_outside same_rom_def)
qed

text \<open>So the loop of \<open>boot_main\<close> is a segment loader, and installs the whole table.\<close>

interpretation boot: segment_loader load_kernel_segment "\<lambda>m. m" "kernel_segment rom"
  "\<lambda>rec m. segment_ok rom rec \<and> same_rom rom m" for rom
  by unfold_locales (auto intro: load_kernel_segment_overlay load_kernel_segment_rom)

text \<open>The memory once every segment of the table is installed.\<close>

definition loaded_image :: "mem \<Rightarrow> mem" where
  "loaded_image m = fold overlay (map (kernel_segment m) (kernel_records m)) m"

lemma boot_loop:
  assumes "packed_image m"
  defines "k \<equiv> read_u32 (SYSTEM_ROM_BASE + KERNEL_TABLE_OFFSET) m"
    and "n \<equiv> read_u32 (SYSTEM_ROM_BASE + KERNEL_COUNT_OFFSET) m"
  shows "for_u32 (\<lambda>index. load_kernel_segment (SYSTEM_ROM_BASE + k + index * KERNEL_SEGMENT_SIZE)) 0 n m
           = loaded_image m"
    and "same_rom m (loaded_image m)"
proof -
  let ?f = "fold load_kernel_segment (kernel_records m) m"
  have ok: "segment_ok m g \<and> same_rom m m" if "g \<in> set (kernel_records m)" for g
    using assms(1) that by (simp add: packed_image_def list_all_iff)
  have loop: "for_u32 (\<lambda>index. load_kernel_segment
      (SYSTEM_ROM_BASE + k + index * KERNEL_SEGMENT_SIZE)) 0 n m = ?f"
    by (simp add: for_u32_fold kernel_records_def fold_map comp_def k_def n_def)
  have img: "?f = loaded_image m"
    unfolding loaded_image_def by (rule boot.view_fold) (rule ok)
  show "for_u32 (\<lambda>index. load_kernel_segment (SYSTEM_ROM_BASE + k + index * KERNEL_SEGMENT_SIZE)) 0 n m
           = loaded_image m"
    using loop img by simp
  have "same_rom m (fold load_kernel_segment rs m')" if "list_all (segment_ok m) rs" "same_rom m m'"
    for rs m'
    using that by (induction rs arbitrary: m') (auto simp: load_kernel_segment_rom)
  from this [of "kernel_records m" m] assms(1) img show "same_rom m (loaded_image m)"
    by (simp add: packed_image_def)
qed

lemma boot_main_result:
  assumes "packed_image m"
  shows "boot_main m =
    (\<lparr> entry = read_u32 0x0800001c m, argument = 0xc0007000 \<rparr>,
     write_boot_info (read_u32 0x08000008 m) (read_u32 0x08000014 m) (read_u32 0x08000018 m)
       (loaded_image m))"
proof -
  let ?l = "loaded_image m"
  have hdr: "in_rom SYSTEM_ROM_BASE 32" by (simp add: in_rom_def)
  have rd: "read_u32 a ?l = read_u32 a m" if "a = SYSTEM_ROM_BASE + k" "unat k + 4 \<le> 32" for a k
    using read_u32_rom [OF boot_loop(2) [OF assms] hdr that(2)] that(1) by simp
  have rom': "same_rom m (write_boot_info i t c ?l)" for i t c
    unfolding same_rom_def
  proof (intro allI impI)
    fix a assume a: "in_rom a 1"
    have "no_wrap BOOT_INFO_PADDR BOOT_INFO_SIZE" by (simp add: no_wrap_def)
    from in_range_no_wrap [OF this, of a] a have "\<not> in_range BOOT_INFO_PADDR BOOT_INFO_SIZE a"
      by (simp add: in_rom_def)
    then show "write_boot_info i t c ?l a = m a"
      using boot_loop(2) [OF assms] a by (simp add: write_boot_info_outside same_rom_def)
  qed
  have ent: "read_u32 0x0800001c (write_boot_info i t c ?l) = read_u32 0x0800001c m" for i t c
    using read_u32_rom [OF rom' hdr, of "0x1c"] by simp
  show ?thesis
    using rd [of "0x08000014" "0x14"] rd [of "0x08000018" "0x18"]
    by (simp add: boot_main_def Let_def boot_loop(1) [OF assms, simplified] ent)
qed

section \<open>The properties\<close>

text \<open>A ROM with one kernel segment, of four bytes and four zeroes.\<close>

definition sample_bytes :: "u8 list" where
  "sample_bytes = concat (map (\<lambda>w. [byte_of w 0, byte_of w 1, byte_of w 2, byte_of w 3])
     [0x4d424f4f, 1, 68, 32, 1, 0, 0, 0x40008000,
      64, 0x40008000, 0, 4, 8, 0, 0, 0, 0x11223344])"

definition sample_rom :: mem where
  "sample_rom a = (if a - 0x08000000 < 68 then sample_bytes ! unat (a - 0x08000000) else 0xee)"

lemma sample_records: "kernel_records sample_rom = [0x08000020]"
  by code_simp

lemma sample_fields:
  "read_u32 0x08000020 sample_rom = 64" "read_u32 0x08000024 sample_rom = 0x40008000"
  "read_u32 0x0800002c sample_rom = 4" "read_u32 0x08000030 sample_rom = 8"
  "read_u32 0x0800001c sample_rom = 0x40008000"
  by code_simp+

lemma sample_packed: "packed_image sample_rom"
  by (simp add: packed_image_def sample_records segment_ok_def kernel_segment_def sample_fields
      in_rom_def Let_def)

text \<open>
  C9: the Boot ROM hands over at the entry address of the image with the virtual address of the
  boot record in \<^verbatim>\<open>r0\<close>; the record, decoded as the kernel's structure, names the image, its module
  table and the direct map, with its flags and reserved words zero.
\<close>

theorem boot_main_hands_over:
  assumes "packed_image m"
  shows "fst (boot_main m) = \<lparr> entry = read_u32 0x0800001c m, argument = 0xc0007000 \<rparr>
    \<and> boot_info_at (snd (boot_main m)) 0x40007000 =
      \<lparr> bi_magic = 0x4d424f4f, bi_version = 1, bi_size = 64,
        bi_system_rom_base = 0x08000000, bi_image_size = read_u32 0x08000008 m,
        bi_module_table_offset = read_u32 0x08000014 m, bi_module_count = read_u32 0x08000018 m,
        bi_direct_map_vaddr = 0xc0000000, bi_direct_map_paddr = 0x40000000,
        bi_direct_map_size = 0x04000000, bi_flags = 0, bi_reserved = [0, 0, 0, 0, 0, 0] \<rparr>"
  by (simp add: boot_main_result [OF assms] boot_info_written)

theorem boot_main_hands_over_witness:
  "fst (boot_main sample_rom) = \<lparr> entry = 0x40008000, argument = 0xc0007000 \<rparr>"
  using boot_main_hands_over [OF sample_packed] by (simp add: sample_fields)

text \<open>
  C8: when the kernel starts, every address of a kernel segment that no later segment covers holds
  the byte of the packed image below the file size and zero above it, whatever the memory held
  before (the boot record excepted).
\<close>

theorem boot_main_segments:
  assumes "packed_image m" and "kernel_records m = rs1 @ r # rs2"
    and "in_range (read_u32 (r + 0x04) m) (read_u32 (r + 0x10) m) a"
    and "\<And>q. q \<in> set rs2 \<Longrightarrow> \<not> in_range (read_u32 (q + 0x04) m) (read_u32 (q + 0x10) m) a"
    and "\<not> in_range 0x40007000 64 a"
  shows "snd (boot_main m) a =
    (if a - read_u32 (r + 0x04) m < read_u32 (r + 0x0c) m
     then m (0x08000000 + read_u32 r m + (a - read_u32 (r + 0x04) m)) else 0)"
proof -
  have "snd (boot_main m) a = loaded_image m a"
    using boot_main_result [OF assms(1)] write_boot_info_outside assms(5) by simp
  also have "\<dots> = (if a - seg_dest (kernel_segment m r) < seg_file (kernel_segment m r)
      then seg_data (kernel_segment m r) (a - seg_dest (kernel_segment m r)) else 0)"
    unfolding loaded_image_def assms(2) map_append list.map
    by (rule fold_overlay_last) (use assms(3,4) in \<open>auto simp: kernel_segment_def\<close>)
  finally show ?thesis by (simp add: kernel_segment_def)
qed

theorem boot_main_segments_witness:
  "snd (boot_main sample_rom) 0x40008000 = 0x44 \<and> snd (boot_main sample_rom) 0x40008007 = 0"
proof -
  have b: "sample_rom (0x08000040 + 0) = 0x44" by code_simp
  have r: "kernel_records sample_rom = [] @ 0x08000020 # []" by (simp add: sample_records)
  have "snd (boot_main sample_rom) 0x40008000 = 0x44"
    using boot_main_segments [OF sample_packed r, of "0x40008000"] b
    by (simp add: sample_fields in_range_def)
  moreover have "snd (boot_main sample_rom) 0x40008007 = 0"
    using boot_main_segments [OF sample_packed r, of "0x40008007"]
    by (simp add: sample_fields in_range_def)
  ultimately show ?thesis by blast
qed

text \<open>
  Outside the segments and the record \<open>boot_main\<close> stores nothing. The page it uses as its stack is
  not part of this function's memory; \<open>BootReset\<close> adds it.
\<close>

lemma boot_main_outside:
  assumes "packed_image m"
    and "\<And>r. r \<in> set (kernel_records m) \<Longrightarrow>
      \<not> in_range (read_u32 (r + 0x04) m) (read_u32 (r + 0x10) m) a"
    and "\<not> in_range 0x40007000 64 a"
  shows "snd (boot_main m) a = m a"
proof -
  have "snd (boot_main m) a = loaded_image m a"
    using boot_main_result [OF assms(1)] write_boot_info_outside assms(3) by simp
  also have "\<dots> = m a"
    unfolding loaded_image_def
    by (rule fold_overlay_outside) (use assms(2) in \<open>auto simp: kernel_segment_def\<close>)
  finally show ?thesis .
qed

end
