(* ===== verification/Machine.thy ===== *)
theory Machine
  imports Prelude
begin

text \<open>
  How stateful C code is modelled: a command takes the state and returns an outcome and the
  state. The outcomes are a value, the endless loop of \<^verbatim>\<open>minemu_fail_stop\<close> (from which nothing
  continues), a fault (an access outside the object a pointer refers to, or a memory abort),
  and running out of the fuel of a polling loop. The machine state holds the CPU status word
  and the log of volatile accesses and barrier instructions, which is what the platform
  observes; what the devices answer is a parameter.
\<close>

section \<open>Commands\<close>

datatype 'a outcome = Done 'a | FailStop | Fault | OutOfFuel

type_synonym ('s, 'a) cmd = "'s \<Rightarrow> 'a outcome \<times> 's"

named_theorems cmd_simps \<open>symbolic execution of commands\<close>

definition ret :: "'a \<Rightarrow> ('s, 'a) cmd" where
  "ret x s = (Done x, s)"

definition bind :: "('s, 'a) cmd \<Rightarrow> ('a \<Rightarrow> ('s, 'b) cmd) \<Rightarrow> ('s, 'b) cmd" where
  "bind c f s = (case c s of
      (Done x, s') \<Rightarrow> f x s'
    | (FailStop, s') \<Rightarrow> (FailStop, s')
    | (Fault, s') \<Rightarrow> (Fault, s')
    | (OutOfFuel, s') \<Rightarrow> (OutOfFuel, s'))"

definition gets :: "('s \<Rightarrow> 'a) \<Rightarrow> ('s, 'a) cmd" where
  "gets f s = (Done (f s), s)"

definition modify :: "('s \<Rightarrow> 's) \<Rightarrow> ('s, unit) cmd" where
  "modify f s = (Done (), f s)"

definition fault :: "('s, 'a) cmd" where
  "fault s = (Fault, s)"

text \<open>\<^verbatim>\<open>if (c) { body }\<close>, and a sequence of statements.\<close>

definition only_if :: "bool \<Rightarrow> ('s, unit) cmd \<Rightarrow> ('s, unit) cmd" where
  "only_if b c = (if b then c else ret ())"

fun block :: "('s, unit) cmd list \<Rightarrow> ('s, unit) cmd" where
  "block [] = ret ()"
| "block (c # cs) = bind c (\<lambda>_. block cs)"

lemma bind_ret [cmd_simps]: "bind (ret x) f s = f x s"
  by (simp add: bind_def ret_def)

lemma bind_ret_fun: "bind (ret x) f = f x"
  by (rule ext) (rule bind_ret)

lemma bind_gets [cmd_simps]: "bind (gets g) f s = f (g s) s"
  by (simp add: bind_def gets_def)

lemma bind_modify [cmd_simps]: "bind (modify g) f s = f () (g s)"
  by (simp add: bind_def modify_def)

lemma bind_fault [cmd_simps]: "bind fault f s = (Fault, s)"
  by (simp add: bind_def fault_def)

lemma bind_bind [cmd_simps]: "bind (bind c f) g = bind c (\<lambda>x. bind (f x) g)"
  by (rule ext) (auto simp: bind_def split: prod.splits outcome.splits)

lemma bind_only_if [cmd_simps]:
  "bind (only_if b c) f s = (if b then bind c f s else f () s)"
  by (simp add: only_if_def bind_def ret_def)

lemma bind_if [cmd_simps]:
  "bind (if b then c else d) f s = (if b then bind c f s else bind d f s)"
  by simp

lemma bind_Done: "c s = (Done x, t) \<Longrightarrow> bind c f s = f x t"
  by (simp add: bind_def)

lemma block_step: "c s = (Done (), t) \<Longrightarrow> block (c # cs) s = block cs t"
  by (simp add: bind_def)

lemma bind_eq_Done:
  "bind c f s = (Done y, t) \<longleftrightarrow> (\<exists>x u. c s = (Done x, u) \<and> f x u = (Done y, t))"
  by (auto simp: bind_def split: prod.splits outcome.splits)

lemmas [cmd_simps] = ret_def gets_def modify_def fault_def

text \<open>
  The counted loop with a body that can leave the function: a body returns \<open>Some r\<close> for
  \<^verbatim>\<open>return r\<close> and \<open>None\<close> to go on. The loop returns \<open>None\<close> when it ran to its bound.
\<close>

function for_cmd :: "(u32 \<Rightarrow> ('s, 'r option) cmd) \<Rightarrow> u32 \<Rightarrow> u32 \<Rightarrow> ('s, 'r option) cmd" where
  "for_cmd body i n s =
     (if i < n
      then (case body i s of
              (Done None, s') \<Rightarrow> for_cmd body (i + 1) n s'
            | (r, s') \<Rightarrow> (r, s'))
      else (Done None, s))"
  by pat_completeness auto
termination
  by (relation "measure (\<lambda>(body, i, n, s). unat (n - i))") (auto intro: loop_measure_u32)

declare for_cmd.simps [simp del]

lemma for_cmd_done [cmd_simps]: "\<not> i < n \<Longrightarrow> for_cmd body i n s = (Done None, s)"
  by (simp add: for_cmd.simps)

lemma for_cmd_step:
  "i < n \<Longrightarrow> body i s = (Done None, t) \<Longrightarrow> for_cmd body i n s = for_cmd body (i + 1) n t"
  by (simp add: for_cmd.simps [of body i])

lemma for_cmd_exit:
  "i < n \<Longrightarrow> body i s = (r, t) \<Longrightarrow> r \<noteq> Done None \<Longrightarrow> for_cmd body i n s = (r, t)"
  by (simp add: for_cmd.simps [of body i] split: outcome.splits option.splits)

text \<open>A loop whose body always goes on: the invariant rule, and with it termination.\<close>

lemma for_cmd_total:
  assumes "I i s" and "i \<le> n"
    and step: "\<And>k t. i \<le> k \<Longrightarrow> k < n \<Longrightarrow> I k t \<Longrightarrow> \<exists>u. body k t = (Done None, u) \<and> I (k + 1) u"
  shows "\<exists>t. for_cmd body i n s = (Done None, t) \<and> I n t"
  using assms
proof (induction body i n s rule: for_cmd.induct)
  case (1 body i n s)
  show ?case
  proof (cases "i < n")
    case True
    have le: "i \<le> i + 1"
      using True by (simp add: word_le_nat_alt unat_Suc_u32)
    from True "1.prems" obtain u where u: "body i s = (Done None, u)" "I (i + 1) u" by auto
    have "\<exists>t. for_cmd body (i + 1) n u = (Done None, t) \<and> I n t"
    proof (rule "1.IH" [OF True, of "Done None" u None])
      show "(Done None, u) = body i s" using u by simp
      show "I (i + 1) u" by (rule u)
      show "i + 1 \<le> n" using True by (rule inc_le_u32)
      show "\<And>k t. i + 1 \<le> k \<Longrightarrow> k < n \<Longrightarrow> I k t \<Longrightarrow> \<exists>u. body k t = (Done None, u) \<and> I (k + 1) u"
        using "1.prems"(3) le by (meson order_trans)
    qed simp_all
    with True u show ?thesis by (simp add: for_cmd_step)
  next
    case False
    with "1.prems" have "i = n" by simp
    with "1.prems" show ?thesis by (simp add: for_cmd_done)
  qed
qed

text \<open>
  The rule for a loop that may leave early: \<open>I\<close> holds while it goes on, \<open>Q\<close> of the outcome
  and the state when it leaves.
\<close>

lemma for_cmd_rule:
  assumes "I i s" and "i \<le> n"
    and step: "\<And>k t. i \<le> k \<Longrightarrow> k < n \<Longrightarrow> I k t \<Longrightarrow>
      (case body k t of (Done None, u) \<Rightarrow> I (k + 1) u | (r, u) \<Rightarrow> Q r u)"
    and last: "\<And>t. I n t \<Longrightarrow> Q (Done None) t"
  shows "case for_cmd body i n s of (r, u) \<Rightarrow> Q r u"
  using assms
proof (induction body i n s rule: for_cmd.induct)
  case (1 body i n s)
  show ?case
  proof (cases "i < n")
    case True
    have le: "i \<le> i + 1"
      using True by (simp add: word_le_nat_alt unat_Suc_u32)
    obtain r u where ru: "body i s = (r, u)" by (cases "body i s")
    show ?thesis
    proof (cases "r = Done None")
      case go: True
      have "case for_cmd body (i + 1) n u of (r, u) \<Rightarrow> Q r u"
      proof (rule "1.IH" [OF True, of "Done None" u None])
        show "(Done None, u) = body i s" using ru go by simp
        show "I (i + 1) u" using "1.prems"(3) [of i s] "1.prems"(1) True ru go by simp
        show "i + 1 \<le> n" using True by (rule inc_le_u32)
        show "\<And>k t. i + 1 \<le> k \<Longrightarrow> k < n \<Longrightarrow> I k t \<Longrightarrow>
            (case body k t of (Done None, u) \<Rightarrow> I (k + 1) u | (r, u) \<Rightarrow> Q r u)"
          using "1.prems"(3) le by (meson order_trans)
        show "\<And>t. I n t \<Longrightarrow> Q (Done None) t" by (rule "1.prems"(4))
      qed simp_all
      with True ru go show ?thesis by (simp add: for_cmd_step)
    next
      case leave: False
      have "Q r u"
        using "1.prems"(3) [of i s] "1.prems"(1) True ru leave
        by (simp split: outcome.splits option.splits)
      with True ru leave show ?thesis by (simp add: for_cmd_exit)
    qed
  next
    case False
    with "1.prems" have "i = n" by simp
    with "1.prems" show ?thesis by (simp add: for_cmd_done)
  qed
qed

text \<open>
  Accesses to a static array, given by the record field that holds it (\<open>get\<close>, \<open>upd\<close>): inside
  the array they read or write the element, outside they fault.
\<close>

definition load_at :: "('s \<Rightarrow> 'a list) \<Rightarrow> u32 \<Rightarrow> ('s, 'a) cmd" where
  "load_at get i s = (if unat i < length (get s) then (Done (get s ! unat i), s) else (Fault, s))"

definition store_at :: "('s \<Rightarrow> 'a list) \<Rightarrow> (('a list \<Rightarrow> 'a list) \<Rightarrow> 's \<Rightarrow> 's) \<Rightarrow> u32 \<Rightarrow> 'a \<Rightarrow> ('s, unit) cmd" where
  "store_at get upd i v s =
     (if unat i < length (get s) then (Done (), upd (\<lambda>xs. xs[unat i := v]) s) else (Fault, s))"

lemma bind_load_at [cmd_simps]:
  "unat i < length (get s) \<Longrightarrow> bind (load_at get i) f s = f (get s ! unat i) s"
  by (simp add: bind_def load_at_def)

lemma bind_store_at [cmd_simps]:
  "unat i < length (get s) \<Longrightarrow> bind (store_at get upd i v) f s = f () (upd (\<lambda>xs. xs[unat i := v]) s)"
  by (simp add: bind_def store_at_def)

text \<open>
  \<^verbatim>\<open>while (cond) { }\<close>: a loop that only polls its condition. Each poll takes one unit of fuel;
  a loop that would poll for ever runs out of it.
\<close>

fun poll_while :: "nat \<Rightarrow> ('s, bool) cmd \<Rightarrow> ('s, unit) cmd" where
  "poll_while 0 cond s = (OutOfFuel, s)"
| "poll_while (Suc fuel) cond s = bind cond (\<lambda>b. if b then poll_while fuel cond else ret ()) s"

section \<open>The machine\<close>

text \<open>
  What the platform observes: accesses to device registers with the value read or written,
  writes of system-control registers, stores to the page directory the MMU walks (by index), and
  changes of the IRQ mask.
\<close>

datatype io_event =
    RegRead u32 u32
  | RegWrite u32 u32
  | DirectoryWrite u32 u32
  | SetTtbr0 u32
  | SetMmuEnabled u32
  | TlbInvalidateAll
  | SetVbar u32
  | IrqDisable
  | IrqEnable

record 'd machine =
  dev :: 'd
  cpsr :: u32
  io :: "io_event list"

text \<open>
  The devices are not part of this repository: what a register answers and how an access
  changes the device state are arguments of every definition that touches a register. The
  device state may hold anything, such as a clock that moves between accesses.
\<close>

record 'd platform =
  reg_read :: "u32 \<Rightarrow> 'd \<Rightarrow> u32 \<times> 'd"
  reg_write :: "u32 \<Rightarrow> u32 \<Rightarrow> 'd \<Rightarrow> 'd"

definition MINEMU_MMIO_READ32 :: "'d platform \<Rightarrow> u32 \<Rightarrow> (('d, 'z) machine_scheme, u32) cmd" where
  "MINEMU_MMIO_READ32 P address s =
     (case reg_read P address (dev s) of
        (v, d) \<Rightarrow> (Done v, s\<lparr>dev := d, io := io s @ [RegRead address v]\<rparr>))"

definition MINEMU_MMIO_WRITE32 ::
    "'d platform \<Rightarrow> u32 \<Rightarrow> u32 \<Rightarrow> (('d, 'z) machine_scheme, unit) cmd" where
  "MINEMU_MMIO_WRITE32 P address val s =
     (Done (), s\<lparr>dev := reg_write P address val (dev s), io := io s @ [RegWrite address val]\<rparr>)"

text \<open>The trace-port events of a log, which the test manifests compare.\<close>

fun trace_values :: "io_event list \<Rightarrow> u32 list" where
  "trace_values [] = []"
| "trace_values (RegWrite a v # es) =
     (if a = 0x1000f000 then v # trace_values es else trace_values es)"
| "trace_values (_ # es) = trace_values es"

lemma trace_values_append [simp]: "trace_values (xs @ ys) = trace_values xs @ trace_values ys"
  by (induction xs rule: trace_values.induct) auto

end
