(* ===== verification/Platform.thy ===== *)
theory Platform
  imports Machine
begin

text \<open>
  The register map of \<^verbatim>\<open>kernel/include/minemu/platform.h\<close>. A register block is the list of
  its 32-bit fields in declaration order, as the packed structures lay them out;
  \<open>MINEMU_BLOCK ''status''\<close> is the address the C expression \<^verbatim>\<open>&MINEMU_BLOCK->status\<close> has.
\<close>

section \<open>Register blocks\<close>

fun offsetof :: "string list \<Rightarrow> string \<Rightarrow> u32" where
  "offsetof [] f = 0"
| "offsetof (g # gs) f = (if f = g then 0 else 4 + offsetof gs f)"

definition regs_size :: "string list \<Rightarrow> nat" where
  "regs_size fs = 4 * length fs"

definition minemu_interrupt_regs :: "string list" where
  "minemu_interrupt_regs =
     [''pending'', ''enable'', ''claim'', ''eoi'', ''priority_systick'', ''priority_uart0'',
      ''priority_uart1'', ''priority_block'']"

definition minemu_systick_regs :: "string list" where
  "minemu_systick_regs = [''period'', ''control'', ''status'', ''ack'']"

definition minemu_block_regs :: "string list" where
  "minemu_block_regs =
     [''command'', ''lba'', ''sector_count'', ''dma_paddr'', ''status'', ''error'', ''ack'',
      ''control'', ''unit'']"

definition minemu_rng_regs :: "string list" where
  "minemu_rng_regs = [''seed'', ''data'', ''state'']"

definition minemu_uart_regs :: "string list" where
  "minemu_uart_regs = [''rx_data'', ''tx_data'', ''status'', ''control'']"

definition minemu_trace_regs :: "string list" where
  "minemu_trace_regs = [''event'']"

definition MINEMU_INTERRUPT :: "string \<Rightarrow> u32" where
  "MINEMU_INTERRUPT f = 0x10000000 + offsetof minemu_interrupt_regs f"

definition MINEMU_SYSTICK :: "string \<Rightarrow> u32" where
  "MINEMU_SYSTICK f = 0x10001000 + offsetof minemu_systick_regs f"

definition MINEMU_BLOCK :: "string \<Rightarrow> u32" where
  "MINEMU_BLOCK f = 0x10002000 + offsetof minemu_block_regs f"

definition MINEMU_RNG :: "string \<Rightarrow> u32" where
  "MINEMU_RNG f = 0x10003000 + offsetof minemu_rng_regs f"

definition MINEMU_UART0 :: "string \<Rightarrow> u32" where
  "MINEMU_UART0 f = 0x10004000 + offsetof minemu_uart_regs f"

definition MINEMU_UART1 :: "string \<Rightarrow> u32" where
  "MINEMU_UART1 f = 0x10005000 + offsetof minemu_uart_regs f"

definition MINEMU_TRACE :: "string \<Rightarrow> u32" where
  "MINEMU_TRACE f = 0x1000f000 + offsetof minemu_trace_regs f"

section \<open>Register bits and codes\<close>

abbreviation (input) "MINEMU_UART_STATUS_RX_READY \<equiv> (1 :: u32)"
abbreviation (input) "MINEMU_UART_STATUS_TX_READY \<equiv> (2 :: u32)"
abbreviation (input) "MINEMU_SYSTICK_CONTROL_ENABLE \<equiv> (1 :: u32)"
abbreviation (input) "MINEMU_SYSTICK_CONTROL_PERIODIC \<equiv> (2 :: u32)"
abbreviation (input) "MINEMU_SYSTICK_CONTROL_IRQ_ENABLE \<equiv> (4 :: u32)"
abbreviation (input) "MINEMU_SYSTICK_ACK \<equiv> (1 :: u32)"
abbreviation (input) "MINEMU_BLOCK_COMMAND_READ \<equiv> (1 :: u32)"
abbreviation (input) "MINEMU_BLOCK_COMMAND_WRITE \<equiv> (2 :: u32)"
abbreviation (input) "MINEMU_BLOCK_STATUS_BUSY \<equiv> (1 :: u32)"
abbreviation (input) "MINEMU_BLOCK_STATUS_COMPLETE \<equiv> (2 :: u32)"
abbreviation (input) "MINEMU_BLOCK_STATUS_ERROR \<equiv> (4 :: u32)"
abbreviation (input) "MINEMU_BLOCK_CONTROL_IRQ_ENABLE \<equiv> (1 :: u32)"
abbreviation (input) "MINEMU_BLOCK_ACK \<equiv> (1 :: u32)"
abbreviation (input) "MINEMU_BLOCK_ERROR_NONE \<equiv> (0 :: u32)"
abbreviation (input) "MINEMU_BLOCK_ERROR_NO_MEDIA \<equiv> (1 :: u32)"
abbreviation (input) "MINEMU_BLOCK_UNIT_SWAP \<equiv> (1 :: u32)"
abbreviation (input) "MINEMU_IRQ_SYSTICK \<equiv> (0 :: u32)"
abbreviation (input) "MINEMU_IRQ_UART0 \<equiv> (1 :: u32)"
abbreviation (input) "MINEMU_IRQ_UART1 \<equiv> (2 :: u32)"
abbreviation (input) "MINEMU_IRQ_BLOCK \<equiv> (3 :: u32)"
abbreviation (input) "MINEMU_RAM_BASE \<equiv> (0x40000000 :: u32)"
abbreviation (input) "MINEMU_RAM_SIZE \<equiv> (0x04000000 :: u32)"
abbreviation (input) "MINEMU_KERNEL_DIRECT_BASE \<equiv> (0xc0000000 :: u32)"
abbreviation (input) "MINEMU_KERNEL_DIRECT_SIZE \<equiv> MINEMU_RAM_SIZE"
abbreviation (input) "MINEMU_SYSTEM_ROM_BASE \<equiv> (0x08000000 :: u32)"
abbreviation (input) "MINEMU_SYSTEM_ROM_SIZE \<equiv> (0x01000000 :: u32)"

text \<open>The addresses of the registers the code uses, for symbolic execution.\<close>

named_theorems reg_addrs \<open>register addresses\<close>

lemma register_addresses [reg_addrs]:
  "MINEMU_INTERRUPT ''pending'' = 0x10000000"
  "MINEMU_INTERRUPT ''enable'' = 0x10000004"
  "MINEMU_INTERRUPT ''claim'' = 0x10000008"
  "MINEMU_INTERRUPT ''eoi'' = 0x1000000c"
  "MINEMU_SYSTICK ''period'' = 0x10001000"
  "MINEMU_SYSTICK ''control'' = 0x10001004"
  "MINEMU_SYSTICK ''status'' = 0x10001008"
  "MINEMU_SYSTICK ''ack'' = 0x1000100c"
  "MINEMU_BLOCK ''command'' = 0x10002000"
  "MINEMU_BLOCK ''lba'' = 0x10002004"
  "MINEMU_BLOCK ''sector_count'' = 0x10002008"
  "MINEMU_BLOCK ''dma_paddr'' = 0x1000200c"
  "MINEMU_BLOCK ''status'' = 0x10002010"
  "MINEMU_BLOCK ''error'' = 0x10002014"
  "MINEMU_BLOCK ''ack'' = 0x10002018"
  "MINEMU_BLOCK ''control'' = 0x1000201c"
  "MINEMU_BLOCK ''unit'' = 0x10002020"
  "MINEMU_RNG ''seed'' = 0x10003000"
  "MINEMU_RNG ''data'' = 0x10003004"
  "MINEMU_RNG ''state'' = 0x10003008"
  "MINEMU_UART0 ''rx_data'' = 0x10004000"
  "MINEMU_UART0 ''tx_data'' = 0x10004004"
  "MINEMU_UART0 ''status'' = 0x10004008"
  "MINEMU_UART0 ''control'' = 0x1000400c"
  "MINEMU_UART1 ''rx_data'' = 0x10005000"
  "MINEMU_UART1 ''tx_data'' = 0x10005004"
  "MINEMU_UART1 ''status'' = 0x10005008"
  "MINEMU_UART1 ''control'' = 0x1000500c"
  "MINEMU_TRACE ''event'' = 0x1000f000"
  by (simp_all add: MINEMU_INTERRUPT_def MINEMU_SYSTICK_def MINEMU_BLOCK_def MINEMU_RNG_def
      MINEMU_UART0_def MINEMU_UART1_def MINEMU_TRACE_def minemu_interrupt_regs_def
      minemu_systick_regs_def minemu_block_regs_def minemu_rng_regs_def minemu_uart_regs_def
      minemu_trace_regs_def)

end
