(* ===== verification/Runtime.thy ===== *)
theory Runtime
  imports Platform
begin

text \<open>
  The kernel runtime that touches the machine: the trace port (\<^verbatim>\<open>runtime/trace.c\<close>), the
  fail-stop loop and the weak exception hooks (\<^verbatim>\<open>runtime/exception.c\<close>), the inline helpers of
  \<^verbatim>\<open>irq.h\<close> and \<^verbatim>\<open>mmu.h\<close>, the guest assertions of \<^verbatim>\<open>conformance.h\<close>, and the trap frame of
  \<^verbatim>\<open>trap.h\<close>.
\<close>

section \<open>Trace port and fail-stop\<close>

definition minemu_trace_event :: "'d platform \<Rightarrow> u32 \<Rightarrow> (('d, 'z) machine_scheme, unit) cmd" where
  "minemu_trace_event P val = MINEMU_MMIO_WRITE32 P (MINEMU_TRACE ''event'') val"

text \<open>The endless \<^verbatim>\<open>nop\<close> loop: control never leaves it, so nothing after it runs.\<close>

definition minemu_fail_stop :: "('s, 'a) cmd" where
  "minemu_fail_stop s = (FailStop, s)"

definition minemu_panic :: "string \<Rightarrow> ('s, 'a) cmd" where
  "minemu_panic message = minemu_fail_stop"

lemma bind_fail_stop [cmd_simps]: "bind minemu_fail_stop f s = (FailStop, s)"
  by (simp add: bind_def minemu_fail_stop_def)

lemma bind_write [cmd_simps]:
  "bind (MINEMU_MMIO_WRITE32 P a v) f s =
     f () (s\<lparr>dev := reg_write P a v (dev s), io := io s @ [RegWrite a v]\<rparr>)"
  by (simp add: bind_def MINEMU_MMIO_WRITE32_def)

lemma bind_read [cmd_simps]:
  "bind (MINEMU_MMIO_READ32 P a) f s =
     f (fst (reg_read P a (dev s)))
       (s\<lparr>dev := snd (reg_read P a (dev s)), io := io s @ [RegRead a (fst (reg_read P a (dev s)))]\<rparr>)"
  by (simp add: bind_def MINEMU_MMIO_READ32_def split: prod.splits)

section \<open>Trap frames and the weak hooks\<close>

record minemu_trap_frame =
  tf_r :: "u32 list"
  tf_return_lr :: u32
  tf_spsr :: u32
  tf_exception_id :: u32
  tf_fault_pc :: u32
  tf_dfsr :: u32
  tf_dfar :: u32
  tf_user_sp :: u32
  tf_user_lr :: u32
  tf_reserved :: u32

abbreviation (input) "MINEMU_EXCEPTION_UNDEFINED \<equiv> (- 4 :: u32)"
abbreviation (input) "MINEMU_EXCEPTION_SVC \<equiv> (- 3 :: u32)"
abbreviation (input) "MINEMU_EXCEPTION_PREFETCH_ABORT \<equiv> (- 2 :: u32)"
abbreviation (input) "MINEMU_EXCEPTION_DATA_ABORT \<equiv> (- 1 :: u32)"

definition weak_svc_trampoline :: "('s, 'a) cmd" where
  "weak_svc_trampoline = minemu_fail_stop"

definition weak_irq_trampoline :: "('s, 'a) cmd" where
  "weak_irq_trampoline = minemu_fail_stop"

definition weak_svc_dispatch :: "minemu_trap_frame \<Rightarrow> ('s, minemu_trap_frame) cmd" where
  "weak_svc_dispatch frame = minemu_fail_stop"

definition weak_irq_dispatch :: "minemu_trap_frame \<Rightarrow> ('s, minemu_trap_frame) cmd" where
  "weak_irq_dispatch frame = minemu_fail_stop"

definition weak_undefined_dispatch :: "minemu_trap_frame \<Rightarrow> ('s, unit) cmd" where
  "weak_undefined_dispatch frame = minemu_fail_stop"

definition weak_abort_dispatch :: "minemu_trap_frame \<Rightarrow> ('s, unit) cmd" where
  "weak_abort_dispatch frame = minemu_fail_stop"

section \<open>Interrupt mask and system control\<close>

definition minemu_irq_enable :: "(('d, 'z) machine_scheme, unit) cmd" where
  "minemu_irq_enable = modify (\<lambda>s. s\<lparr>cpsr := cpsr s AND NOT 0x80, io := io s @ [IrqEnable]\<rparr>)"

definition minemu_irq_disable :: "(('d, 'z) machine_scheme, unit) cmd" where
  "minemu_irq_disable = modify (\<lambda>s. s\<lparr>cpsr := cpsr s OR 0x80, io := io s @ [IrqDisable]\<rparr>)"

definition minemu_mmu_set_ttbr0 :: "u32 \<Rightarrow> (('d, 'z) machine_scheme, unit) cmd" where
  "minemu_mmu_set_ttbr0 address = modify (\<lambda>s. s\<lparr>io := io s @ [SetTtbr0 address]\<rparr>)"

definition minemu_mmu_set_enabled :: "u32 \<Rightarrow> (('d, 'z) machine_scheme, unit) cmd" where
  "minemu_mmu_set_enabled enabled = modify (\<lambda>s. s\<lparr>io := io s @ [SetMmuEnabled (enabled AND 1)]\<rparr>)"

definition minemu_mmu_tlbiall :: "(('d, 'z) machine_scheme, unit) cmd" where
  "minemu_mmu_tlbiall = modify (\<lambda>s. s\<lparr>io := io s @ [TlbInvalidateAll]\<rparr>)"

definition minemu_mmu_set_vbar :: "u32 \<Rightarrow> (('d, 'z) machine_scheme, unit) cmd" where
  "minemu_mmu_set_vbar address = modify (\<lambda>s. s\<lparr>io := io s @ [SetVbar address]\<rparr>)"

section \<open>Guest assertions\<close>

definition minemu_conformance_fail :: "'d platform \<Rightarrow> u32 \<Rightarrow> (('d, 'z) machine_scheme, 'a) cmd" where
  "minemu_conformance_fail P code =
     bind (minemu_trace_event P (0xf0000000 OR (code AND 0x0fffffff))) (\<lambda>_.
     minemu_fail_stop)"

definition MINEMU_REQUIRE :: "'d platform \<Rightarrow> bool \<Rightarrow> u32 \<Rightarrow> (('d, 'z) machine_scheme, unit) cmd" where
  "MINEMU_REQUIRE P condition code =
     (if \<not> condition then minemu_conformance_fail P code else ret ())"

definition minemu_test_paddr :: "u32 \<Rightarrow> u32" where
  "minemu_test_paddr address = address - 0x80000000"

lemma bind_trace [cmd_simps]:
  "bind (minemu_trace_event P v) f s =
     f () (s\<lparr>dev := reg_write P 0x1000f000 v (dev s), io := io s @ [RegWrite 0x1000f000 v]\<rparr>)"
  by (simp add: minemu_trace_event_def bind_write reg_addrs)

lemma bind_irq_enable [cmd_simps]:
  "bind minemu_irq_enable f s = f () (s\<lparr>cpsr := cpsr s AND NOT 0x80, io := io s @ [IrqEnable]\<rparr>)"
  by (simp add: minemu_irq_enable_def bind_modify)

lemma bind_irq_disable [cmd_simps]:
  "bind minemu_irq_disable f s = f () (s\<lparr>cpsr := cpsr s OR 0x80, io := io s @ [IrqDisable]\<rparr>)"
  by (simp add: minemu_irq_disable_def bind_modify)

lemma bind_tlbiall [cmd_simps]:
  "bind minemu_mmu_tlbiall f s = f () (s\<lparr>io := io s @ [TlbInvalidateAll]\<rparr>)"
  by (simp add: minemu_mmu_tlbiall_def bind_modify)

lemma bind_require [cmd_simps]:
  "bind (MINEMU_REQUIRE P c code) f s =
     (if c then f () s else
      (FailStop, s\<lparr>dev := reg_write P 0x1000f000 (0xf0000000 OR (code AND 0x0fffffff)) (dev s),
                   io := io s @ [RegWrite 0x1000f000 (0xf0000000 OR (code AND 0x0fffffff))]\<rparr>))"
  by (simp add: MINEMU_REQUIRE_def minemu_conformance_fail_def cmd_simps bind_ret minemu_fail_stop_def)

lemma test_paddr_direct_map:
  "0xc0000000 \<le> a \<Longrightarrow> a < 0xc4000000 \<Longrightarrow> minemu_test_paddr a = a - 0xc0000000 + 0x40000000"
  by (simp add: minemu_test_paddr_def)

end
