(* ===== verification/KernelCore.thy ===== *)
theory KernelCore
  imports BootInfo Runtime
begin

text \<open>
  The baseline kernel (\<^verbatim>\<open>kernel/src/core/main.c\<close>): it checks the boot record, its initialised
  data and its cleared data, and reports what it found on the trace port.
\<close>

record 'd core_state = "'d machine" +
  initialized_data :: u32
  zeroed_bss :: "u32 list"

definition minemu_kernel_main ::
    "'d platform \<Rightarrow> u32 \<Rightarrow> minemu_boot_info \<Rightarrow> (('d, 'z) core_state_scheme, unit) cmd" where
  "minemu_kernel_main P pointer boot_info =
     bind (gets initialized_data) (\<lambda>data.
     bind (only_if
       (pointer \<noteq> MINEMU_BOOT_INFO_VADDR
        \<or> bi_magic boot_info \<noteq> MINEMU_BOOT_INFO_MAGIC
        \<or> bi_version boot_info \<noteq> MINEMU_ABI_VERSION
        \<or> bi_size boot_info \<noteq> 64
        \<or> bi_system_rom_base boot_info \<noteq> 0x08000000
        \<or> bi_image_size boot_info = 0 \<or> bi_module_count boot_info \<noteq> 1
        \<or> bi_module_table_offset boot_info = 0
        \<or> bi_direct_map_vaddr boot_info \<noteq> 0xc0000000
        \<or> bi_direct_map_paddr boot_info \<noteq> 0x40000000
        \<or> bi_direct_map_size boot_info \<noteq> 0x04000000
        \<or> data \<noteq> 0x13579bdf)
       (bind (minemu_trace_event P 0xb007bad0) (\<lambda>_. minemu_fail_stop))) (\<lambda>_.
     bind (for_cmd (\<lambda>i.
         bind (load_at zeroed_bss i) (\<lambda>word.
         if word \<noteq> 0
         then bind (minemu_trace_event P 0xb007bad1) (\<lambda>_. minemu_fail_stop)
         else ret (None :: unit option))) 0 32) (\<lambda>_.
     bind (minemu_trace_event P 0x20000001) (\<lambda>_.
     minemu_fail_stop))))"

text \<open>The verdict the kernel should report.\<close>

definition handoff_ok :: "u32 \<Rightarrow> minemu_boot_info \<Rightarrow> u32 \<Rightarrow> bool" where
  "handoff_ok pointer bi data \<longleftrightarrow>
     pointer = 0xc0007000 \<and> bi_magic bi = 0x4d424f4f \<and> bi_version bi = 1 \<and> bi_size bi = 64
     \<and> bi_system_rom_base bi = 0x08000000 \<and> bi_image_size bi \<noteq> 0 \<and> bi_module_count bi = 1
     \<and> bi_module_table_offset bi \<noteq> 0 \<and> bi_direct_map_vaddr bi = 0xc0000000
     \<and> bi_direct_map_paddr bi = 0x40000000 \<and> bi_direct_map_size bi = 0x04000000
     \<and> data = 0x13579bdf"

definition verdict :: "u32 \<Rightarrow> minemu_boot_info \<Rightarrow> u32 \<Rightarrow> u32 list \<Rightarrow> u32" where
  "verdict pointer bi data bss =
     (if \<not> handoff_ok pointer bi data then 0xb007bad0
      else if list_all (\<lambda>w. w = 0) bss then 0x20000001 else 0xb007bad1)"

definition traced :: "'d platform \<Rightarrow> u32 \<Rightarrow> ('d, 'z) machine_scheme \<Rightarrow> ('d, 'z) machine_scheme" where
  "traced P v s =
     s\<lparr>dev := reg_write P 0x1000f000 v (dev s), io := io s @ [RegWrite 0x1000f000 v]\<rparr>"

lemma bss_loop:
  assumes "length (zeroed_bss s) = 32"
  shows "for_cmd (\<lambda>i.
         bind (load_at zeroed_bss i) (\<lambda>word.
         if word \<noteq> 0
         then bind (minemu_trace_event P 0xb007bad1) (\<lambda>_. minemu_fail_stop)
         else ret (None :: unit option))) 0 32 s =
      (if list_all (\<lambda>w. w = 0) (zeroed_bss s) then (Done None, s)
       else (FailStop, traced P 0xb007bad1 s))"
proof -
  let ?body = "\<lambda>i. bind (load_at zeroed_bss i) (\<lambda>word.
         if word \<noteq> 0
         then bind (minemu_trace_event P 0xb007bad1) (\<lambda>_. minemu_fail_stop)
         else ret (None :: unit option))"
  let ?I = "\<lambda>(k :: u32) t. t = s \<and> (\<forall>j < unat k. zeroed_bss s ! j = 0)"
  let ?Q = "\<lambda>r t. if list_all (\<lambda>w. w = 0) (zeroed_bss s) then r = Done None \<and> t = s
      else r = FailStop \<and> t = traced P 0xb007bad1 s"
  have "case for_cmd ?body 0 32 s of (r, t) \<Rightarrow> ?Q r t"
  proof (rule for_cmd_rule [where I = ?I])
    fix k :: u32 and t
    assume k: "k < 32" and I: "?I k t"
    then have len: "unat k < length (zeroed_bss s)" using assms by (simp add: word_less_nat_alt)
    show "case ?body k t of (Done None, u) \<Rightarrow> ?I (k + 1) u | (r, u) \<Rightarrow> ?Q r u"
      using I len k
      by (auto simp: cmd_simps traced_def minemu_fail_stop_def unat_Suc_u32 less_Suc_eq list_all_length)
  next
    fix t assume "?I 32 t"
    with assms show "?Q (Done None) t" by (simp add: list_all_length)
  qed simp_all
  then show ?thesis by (auto split: prod.splits if_splits)
qed

lemma kernel_main_result:
  assumes "length (zeroed_bss s) = 32"
  shows "minemu_kernel_main P pointer bi s =
    (FailStop, traced P (verdict pointer bi (initialized_data s) (zeroed_bss s)) s)"
  by (auto simp: minemu_kernel_main_def cmd_simps verdict_def handoff_ok_def traced_def
      minemu_fail_stop_def bind_def [of "for_cmd b i n" for b i n] bss_loop [OF assms])

text \<open>
  The baseline kernel reports exactly one trace value and stops: \<^verbatim>\<open>0x20000001\<close> when the whole
  handoff, its initialised word and its 32 cleared words are right, \<^verbatim>\<open>0xb007bad0\<close> or
  \<^verbatim>\<open>0xb007bad1\<close> otherwise.
\<close>

theorem kernel_main_verdict:
  assumes "length (zeroed_bss s) = 32"
  shows "\<exists>t. minemu_kernel_main P pointer bi s = (FailStop, t)
    \<and> trace_values (io t) = trace_values (io s) @
        [if \<not> handoff_ok pointer bi (initialized_data s) then 0xb007bad0
         else if \<forall>w \<in> set (zeroed_bss s). w = 0 then 0x20000001 else 0xb007bad1]"
  using kernel_main_result [OF assms, of P pointer bi]
  by (simp add: traced_def verdict_def list_all_iff)

definition sample_core :: "unit core_state" where
  "sample_core = \<lparr> dev = (), cpsr = 0, io = [], initialized_data = 0x13579bdf,
     zeroed_bss = replicate 32 0 \<rparr>"

definition sample_info :: minemu_boot_info where
  "sample_info = \<lparr> bi_magic = 0x4d424f4f, bi_version = 1, bi_size = 64,
     bi_system_rom_base = 0x08000000, bi_image_size = 0x1000,
     bi_module_table_offset = 0x40, bi_module_count = 1, bi_direct_map_vaddr = 0xc0000000,
     bi_direct_map_paddr = 0x40000000, bi_direct_map_size = 0x04000000, bi_flags = 0,
     bi_reserved = [0, 0, 0, 0, 0, 0] \<rparr>"

theorem kernel_main_verdict_witness:
  "\<exists>t. minemu_kernel_main \<lparr> reg_read = (\<lambda>a d. (0, d)), reg_write = (\<lambda>a v d. d) \<rparr>
      0xc0007000 sample_info sample_core = (FailStop, t) \<and> trace_values (io t) = [0x20000001]"
proof -
  have "length (zeroed_bss sample_core) = 32" by (simp add: sample_core_def)
  from kernel_main_verdict [OF this, where P = "\<lparr> reg_read = (\<lambda>a d. (0, d)), reg_write = (\<lambda>a v d. d) \<rparr>"
      and pointer = "0xc0007000" and bi = sample_info]
  show ?thesis by (simp add: sample_core_def sample_info_def handoff_ok_def)
qed

end
