(* ===== verification/Block.thy ===== *)
theory Block
  imports Runtime
begin

text \<open>
  The synchronous block driver (\<^verbatim>\<open>kernel/src/runtime/block.c\<close>). The polling loop takes fuel,
  the number of status reads the caller is ready to wait for.
\<close>

section \<open>The driver\<close>

definition poll_complete :: "'d platform \<Rightarrow> (('d, 'z) machine_scheme, bool) cmd" where
  "poll_complete P =
     bind (MINEMU_MMIO_READ32 P (MINEMU_BLOCK ''status'')) (\<lambda>status.
     ret (status AND MINEMU_BLOCK_STATUS_COMPLETE = 0))"

definition minemu_block_transfer ::
    "'d platform \<Rightarrow> nat \<Rightarrow> u32 \<Rightarrow> u32 \<Rightarrow> u32 \<Rightarrow> u32 \<Rightarrow> u32 \<Rightarrow> (('d, 'z) machine_scheme, u32) cmd" where
  "minemu_block_transfer P fuel command unit lba sector_count dma_paddr =
     bind (gets cpsr) (\<lambda>saved.
     bind minemu_irq_disable (\<lambda>_.
     bind (MINEMU_MMIO_WRITE32 P (MINEMU_BLOCK ''unit'') unit) (\<lambda>_.
     bind (MINEMU_MMIO_WRITE32 P (MINEMU_BLOCK ''lba'') lba) (\<lambda>_.
     bind (MINEMU_MMIO_WRITE32 P (MINEMU_BLOCK ''sector_count'') sector_count) (\<lambda>_.
     bind (MINEMU_MMIO_WRITE32 P (MINEMU_BLOCK ''dma_paddr'') dma_paddr) (\<lambda>_.
     bind (MINEMU_MMIO_WRITE32 P (MINEMU_BLOCK ''command'') command) (\<lambda>_.
     bind (poll_while fuel (poll_complete P)) (\<lambda>_.
     bind (MINEMU_MMIO_READ32 P (MINEMU_BLOCK ''status'')) (\<lambda>status.
     bind (if status AND MINEMU_BLOCK_STATUS_ERROR \<noteq> 0
           then MINEMU_MMIO_READ32 P (MINEMU_BLOCK ''error'')
           else ret MINEMU_BLOCK_ERROR_NONE) (\<lambda>error.
     bind (MINEMU_MMIO_WRITE32 P (MINEMU_BLOCK ''ack'') MINEMU_BLOCK_ACK) (\<lambda>_.
     bind (only_if (saved AND 0x80 = 0) minemu_irq_enable) (\<lambda>_.
     ret error))))))))))))"

definition minemu_block_read ::
    "'d platform \<Rightarrow> nat \<Rightarrow> u32 \<Rightarrow> u32 \<Rightarrow> u32 \<Rightarrow> u32 \<Rightarrow> (('d, 'z) machine_scheme, u32) cmd" where
  "minemu_block_read P fuel unit lba sector_count dma_paddr =
     minemu_block_transfer P fuel MINEMU_BLOCK_COMMAND_READ unit lba sector_count dma_paddr"

definition minemu_block_write ::
    "'d platform \<Rightarrow> nat \<Rightarrow> u32 \<Rightarrow> u32 \<Rightarrow> u32 \<Rightarrow> u32 \<Rightarrow> (('d, 'z) machine_scheme, u32) cmd" where
  "minemu_block_write P fuel unit lba sector_count dma_paddr =
     minemu_block_transfer P fuel MINEMU_BLOCK_COMMAND_WRITE unit lba sector_count dma_paddr"

section \<open>The protocol on the bus, whatever the device answers\<close>

text \<open>The device after \<open>k\<close> polls, and what the next poll answers.\<close>

fun polled :: "'d platform \<Rightarrow> nat \<Rightarrow> 'd \<Rightarrow> 'd" where
  "polled P 0 d = d"
| "polled P (Suc k) d = polled P k (snd (reg_read P 0x10002010 d))"

definition status_at :: "'d platform \<Rightarrow> nat \<Rightarrow> 'd \<Rightarrow> u32" where
  "status_at P k d = fst (reg_read P 0x10002010 (polled P k d))"

text \<open>Completion shows at poll \<open>k\<close> and not before.\<close>

definition completes_at :: "'d platform \<Rightarrow> nat \<Rightarrow> 'd \<Rightarrow> bool" where
  "completes_at P k d \<longleftrightarrow>
     (\<forall>j < k. status_at P j d AND 2 = 0) \<and> status_at P k d AND 2 \<noteq> 0"

fun status_log :: "'d platform \<Rightarrow> nat \<Rightarrow> 'd \<Rightarrow> io_event list" where
  "status_log P 0 d = []"
| "status_log P (Suc n) d =
     RegRead 0x10002010 (status_at P 0 d) # status_log P n (snd (reg_read P 0x10002010 d))"

lemma status_at_Suc: "status_at P (Suc j) d = status_at P j (snd (reg_read P 0x10002010 d))"
  by (simp add: status_at_def)

lemma completes_at_Suc:
  "completes_at P (Suc k) d \<longleftrightarrow>
     status_at P 0 d AND 2 = 0 \<and> completes_at P k (snd (reg_read P 0x10002010 d))"
  by (simp add: completes_at_def All_less_Suc2 status_at_Suc)

lemma poll_unfold:
  "poll_while (Suc fuel) (poll_complete P) s =
     (let d = dev s; t = s\<lparr>dev := polled P 1 d, io := io s @ status_log P 1 d\<rparr>
      in if status_at P 0 d AND 2 = 0 then poll_while fuel (poll_complete P) t else (Done (), t))"
  by (simp add: poll_complete_def cmd_simps reg_addrs status_at_def Let_def ret_def)

text \<open>Polling ends exactly when completion shows within the fuel.\<close>

lemma poll_completes:
  "completes_at P k (dev s) \<Longrightarrow> k < fuel \<Longrightarrow>
   poll_while fuel (poll_complete P) s =
     (Done (), s\<lparr>dev := polled P (Suc k) (dev s), io := io s @ status_log P (Suc k) (dev s)\<rparr>)"
proof (induction k arbitrary: fuel s)
  case 0
  then obtain f where "fuel = Suc f" by (cases fuel) auto
  with 0 show ?case by (simp add: poll_unfold completes_at_def Let_def del: poll_while.simps)
next
  case (Suc k)
  then obtain f where f: "fuel = Suc f" "k < f" by (cases fuel) auto
  let ?t = "s\<lparr>dev := polled P 1 (dev s), io := io s @ status_log P 1 (dev s)\<rparr>"
  from Suc.prems have "completes_at P k (dev ?t)" and "status_at P 0 (dev s) AND 2 = 0"
    by (simp_all add: completes_at_Suc)
  with Suc.IH [OF this(1) f(2)] f show ?case
    by (simp add: poll_unfold Let_def
        del: poll_while.simps)
qed

lemma poll_runs_out:
  "(\<forall>j < fuel. status_at P j (dev s) AND 2 = 0) \<Longrightarrow>
   \<exists>t. poll_while fuel (poll_complete P) s = (OutOfFuel, t) \<and> cpsr t = cpsr s"
proof (induction fuel arbitrary: s)
  case 0
  then show ?case by simp
next
  case (Suc fuel)
  let ?t = "s\<lparr>dev := polled P 1 (dev s), io := io s @ status_log P 1 (dev s)\<rparr>"
  from Suc.prems have "status_at P 0 (dev s) AND 2 = 0" by simp
  moreover have "\<forall>j < fuel. status_at P j (dev ?t) AND 2 = 0"
    using Suc.prems by (auto simp: status_at_Suc [symmetric])
  ultimately show ?case
    using Suc.IH [of ?t] by (auto simp: poll_unfold Let_def simp del: poll_while.simps)
qed

definition programmed :: "'d platform \<Rightarrow> u32 \<Rightarrow> u32 \<Rightarrow> u32 \<Rightarrow> u32 \<Rightarrow> u32 \<Rightarrow> 'd \<Rightarrow> 'd" where
  "programmed P command unit lba n dma d =
     reg_write P 0x10002000 command (reg_write P 0x1000200c dma
       (reg_write P 0x10002008 n (reg_write P 0x10002004 lba (reg_write P 0x10002020 unit d))))"

definition program_log :: "u32 \<Rightarrow> u32 \<Rightarrow> u32 \<Rightarrow> u32 \<Rightarrow> u32 \<Rightarrow> io_event list" where
  "program_log command unit lba n dma =
     [IrqDisable, RegWrite 0x10002020 unit, RegWrite 0x10002004 lba, RegWrite 0x10002008 n,
      RegWrite 0x1000200c dma, RegWrite 0x10002000 command]"

text \<open>What the driver does once completion showed: collect the error code, acknowledge.\<close>

definition collected :: "'d platform \<Rightarrow> 'd \<Rightarrow> u32 \<times> 'd \<times> io_event list" where
  "collected P d =
     (let (status, d) = reg_read P 0x10002010 d in
      if status AND 4 \<noteq> 0
      then (let (e, d) = reg_read P 0x10002014 d in
            (e, reg_write P 0x10002018 1 d,
             [RegRead 0x10002010 status, RegRead 0x10002014 e, RegWrite 0x10002018 1]))
      else (0, reg_write P 0x10002018 1 d, [RegRead 0x10002010 status, RegWrite 0x10002018 1]))"

definition unmask_log :: "u32 \<Rightarrow> io_event list" where
  "unmask_log saved = (if saved AND 0x80 = 0 then [IrqEnable] else [])"

text \<open>The driver up to its polling loop, and from there on.\<close>

definition transfer_tail :: "'d platform \<Rightarrow> u32 \<Rightarrow> (('d, 'z) machine_scheme, u32) cmd" where
  "transfer_tail P saved =
     bind (MINEMU_MMIO_READ32 P (MINEMU_BLOCK ''status'')) (\<lambda>status.
     bind (if status AND MINEMU_BLOCK_STATUS_ERROR \<noteq> 0
           then MINEMU_MMIO_READ32 P (MINEMU_BLOCK ''error'')
           else ret MINEMU_BLOCK_ERROR_NONE) (\<lambda>error.
     bind (MINEMU_MMIO_WRITE32 P (MINEMU_BLOCK ''ack'') MINEMU_BLOCK_ACK) (\<lambda>_.
     bind (only_if (saved AND 0x80 = 0) minemu_irq_enable) (\<lambda>_.
     ret error))))"

definition started :: "'d platform \<Rightarrow> u32 \<Rightarrow> u32 \<Rightarrow> u32 \<Rightarrow> u32 \<Rightarrow> u32
    \<Rightarrow> ('d, 'z) machine_scheme \<Rightarrow> ('d, 'z) machine_scheme" where
  "started P command unit lba n dma s =
     s\<lparr>cpsr := cpsr s OR 0x80, dev := programmed P command unit lba n dma (dev s),
       io := io s @ program_log command unit lba n dma\<rparr>"

lemma transfer_split:
  "minemu_block_transfer P fuel command unit lba n dma s =
     bind (poll_while fuel (poll_complete P)) (\<lambda>_. transfer_tail P (cpsr s))
       (started P command unit lba n dma s)"
  by (simp add: minemu_block_transfer_def transfer_tail_def cmd_simps reg_addrs started_def
      programmed_def program_log_def)

lemma transfer_run:
  fixes s :: "('d, 'z) machine_scheme"
  assumes "completes_at P k (programmed P command unit lba n dma (dev s))" and "k < fuel"
  shows "minemu_block_transfer P fuel command unit lba n dma s =
    (let d = programmed P command unit lba n dma (dev s);
         (e, d', log) = collected P (polled P (Suc k) d)
     in (Done e, s\<lparr>dev := d',
           io := io s @ program_log command unit lba n dma @ status_log P (Suc k) d
                 @ log @ unmask_log (cpsr s)\<rparr>))"
proof -
  let ?d = "programmed P command unit lba n dma (dev s)"
  define t where "t = started P command unit lba n dma s"
  have poll: "poll_while fuel (poll_complete P) t =
      (Done (), t\<lparr>dev := polled P (Suc k) ?d, io := io t @ status_log P (Suc k) ?d\<rparr>)"
    using poll_completes [of P k t fuel] assms
    by (simp add: t_def started_def del: polled.simps status_log.simps)
  show ?thesis
    unfolding transfer_split t_def [symmetric]
      bind_Done [where c = "poll_while fuel (poll_complete P)" and s = t, OF poll]
    by (simp add: transfer_tail_def cmd_simps reg_addrs collected_def unmask_log_def t_def
        started_def split_def Let_def del: polled.simps status_log.simps)
qed

lemma transfer_waits:
  fixes s :: "('d, 'z) machine_scheme"
  assumes "\<forall>j < fuel. status_at P j (programmed P command unit lba n dma (dev s)) AND 2 = 0"
  shows "\<exists>s'. minemu_block_transfer P fuel command unit lba n dma s = (OutOfFuel, s')
              \<and> cpsr s' = cpsr s OR 0x80"
  using poll_runs_out [of fuel P "started P command unit lba n dma s"] assms
  by (auto simp: transfer_split bind_def started_def)

section \<open>The driver implements the device's service\<close>

text \<open>
  The documented register protocol of the controller, as a contract on the platform: \<open>view\<close> is
  the state of the controller and its media, \<open>exec\<close> the service itself (what a command does to
  the media and its error code) and \<open>latency\<close> a bound on the polls before completion.
\<close>

datatype block_phase = Idle | Busy nat u32 | Complete u32

record 'm block_view =
  bv_unit :: u32
  bv_lba :: u32
  bv_count :: u32
  bv_dma :: u32
  bv_phase :: block_phase
  bv_media :: 'm

type_synonym 'm block_service = "u32 \<Rightarrow> u32 \<Rightarrow> u32 \<Rightarrow> u32 \<Rightarrow> u32 \<Rightarrow> 'm \<Rightarrow> u32 \<times> 'm"

definition start_command :: "'m block_service \<Rightarrow> nat \<Rightarrow> u32 \<Rightarrow> 'm block_view \<Rightarrow> 'm block_view" where
  "start_command exec w command v =
     (let (e, m) = exec command (bv_unit v) (bv_lba v) (bv_count v) (bv_dma v) (bv_media v)
      in v\<lparr>bv_phase := Busy w e, bv_media := m\<rparr>)"

definition status_answer :: "block_phase \<Rightarrow> u32 \<Rightarrow> block_phase \<Rightarrow> bool" where
  "status_answer ph status ph' \<longleftrightarrow> (case ph of
      Idle \<Rightarrow> True
    | Busy w e \<Rightarrow> (if w = 0
        then status AND 2 \<noteq> 0 \<and> (status AND 4 \<noteq> 0 \<longleftrightarrow> e \<noteq> 0) \<and> ph' = Complete e
        else status AND 2 = 0 \<and> (\<exists>w' < w. ph' = Busy w' e))
    | Complete e \<Rightarrow> status AND 2 \<noteq> 0 \<and> (status AND 4 \<noteq> 0 \<longleftrightarrow> e \<noteq> 0) \<and> ph' = Complete e)"

definition block_contract ::
    "'d platform \<Rightarrow> ('d \<Rightarrow> 'm block_view) \<Rightarrow> 'm block_service \<Rightarrow> nat \<Rightarrow> bool" where
  "block_contract P view exec latency \<longleftrightarrow>
     (\<forall>d. bv_phase (view d) = Idle \<longrightarrow>
        (\<forall>v. view (reg_write P 0x10002020 v d) = (view d)\<lparr>bv_unit := v\<rparr>
           \<and> view (reg_write P 0x10002004 v d) = (view d)\<lparr>bv_lba := v\<rparr>
           \<and> view (reg_write P 0x10002008 v d) = (view d)\<lparr>bv_count := v\<rparr>
           \<and> view (reg_write P 0x1000200c v d) = (view d)\<lparr>bv_dma := v\<rparr>
           \<and> (\<exists>w \<le> latency. view (reg_write P 0x10002000 v d) = start_command exec w v (view d))))
     \<and> (\<forall>d. let (v, d') = reg_read P 0x10002010 d in
          status_answer (bv_phase (view d)) v (bv_phase (view d'))
          \<and> view d' = (view d)\<lparr>bv_phase := bv_phase (view d')\<rparr>)
     \<and> (\<forall>d e. bv_phase (view d) = Complete e \<longrightarrow>
          fst (reg_read P 0x10002014 d) = e \<and> view (snd (reg_read P 0x10002014 d)) = view d
          \<and> view (reg_write P 0x10002018 1 d) = (view d)\<lparr>bv_phase := Idle\<rparr>)"

lemma contract_program:
  assumes "block_contract P view exec latency" and "bv_phase (view d) = Idle"
  shows "\<exists>w \<le> latency. view (programmed P command unit lba n dma d) =
    start_command exec w command
      ((view d)\<lparr>bv_unit := unit, bv_lba := lba, bv_count := n, bv_dma := dma\<rparr>)"
proof -
  have w: "view (reg_write P 0x10002020 v d') = (view d')\<lparr>bv_unit := v\<rparr>"
    "view (reg_write P 0x10002004 v d') = (view d')\<lparr>bv_lba := v\<rparr>"
    "view (reg_write P 0x10002008 v d') = (view d')\<lparr>bv_count := v\<rparr>"
    "view (reg_write P 0x1000200c v d') = (view d')\<lparr>bv_dma := v\<rparr>"
    "\<exists>w \<le> latency. view (reg_write P 0x10002000 v d') = start_command exec w v (view d')"
    if "bv_phase (view d') = Idle" for v d'
    using assms(1) that by (auto simp: block_contract_def)
  define d4 where "d4 = reg_write P 0x1000200c dma
    (reg_write P 0x10002008 n (reg_write P 0x10002004 lba (reg_write P 0x10002020 unit d)))"
  have v: "view d4 = (view d)\<lparr>bv_unit := unit, bv_lba := lba, bv_count := n, bv_dma := dma\<rparr>"
    using assms(2) by (simp add: d4_def w(1-4))
  with assms(2) have "bv_phase (view d4) = Idle" by simp
  from w(5) [OF this, of command] show ?thesis
    by (simp add: programmed_def d4_def [symmetric] v)
qed

lemma contract_status:
  assumes "block_contract P view exec latency"
  shows "status_answer (bv_phase (view d)) (status_at P 0 d)
           (bv_phase (view (snd (reg_read P 0x10002010 d))))"
    and "view (snd (reg_read P 0x10002010 d)) =
           (view d)\<lparr>bv_phase := bv_phase (view (snd (reg_read P 0x10002010 d)))\<rparr>"
  using assms by (auto simp: block_contract_def status_at_def split_def Let_def)

lemma contract_completes:
  assumes "block_contract P view exec latency" and "bv_phase (view d) = Busy w e"
  shows "\<exists>k \<le> w. completes_at P k d \<and> view (polled P (Suc k) d) = (view d)\<lparr>bv_phase := Complete e\<rparr>"
  using assms(2)
proof (induction w arbitrary: d rule: less_induct)
  case (less w)
  let ?d = "snd (reg_read P 0x10002010 d)"
  note st = contract_status [OF assms(1), of d]
  show ?case
  proof (cases "w = 0")
    case True
    with st less.prems have "completes_at P 0 d" "bv_phase (view ?d) = Complete e"
      by (auto simp: status_answer_def completes_at_def)
    with st(2) True show ?thesis by auto
  next
    case False
    with st(1) less.prems obtain w' where w': "status_at P 0 d AND 2 = 0" "w' < w"
      "bv_phase (view ?d) = Busy w' e" by (auto simp: status_answer_def)
    from less.IH [OF w'(2,3)] obtain k where "k \<le> w'" "completes_at P k ?d"
      "view (polled P (Suc k) ?d) = (view ?d)\<lparr>bv_phase := Complete e\<rparr>" by blast
    with w' st(2) show ?thesis
      by (intro exI [of _ "Suc k"]) (auto simp: completes_at_Suc)
  qed
qed

lemma transfer_serves:
  fixes s :: "('d, 'z) machine_scheme"
  assumes contract: "block_contract P view exec latency"
    and idle: "bv_phase (view (dev s)) = Idle" and fuel: "latency < fuel"
  shows "\<exists>s'. minemu_block_transfer P fuel command unit lba n dma s =
      (Done (fst (exec command unit lba n dma (bv_media (view (dev s))))), s')
    \<and> view (dev s') = \<lparr>bv_unit = unit, bv_lba = lba, bv_count = n, bv_dma = dma, bv_phase = Idle,
        bv_media = snd (exec command unit lba n dma (bv_media (view (dev s))))\<rparr>
    \<and> cpsr s' = cpsr s"
proof -
  let ?r = "exec command unit lba n dma (bv_media (view (dev s)))"
  define d where "d = programmed P command unit lba n dma (dev s)"
  from contract_program [OF contract idle] obtain w where "w \<le> latency" and
    vd: "view d = start_command exec w command
      ((view (dev s))\<lparr>bv_unit := unit, bv_lba := lba, bv_count := n, bv_dma := dma\<rparr>)"
    unfolding d_def by blast
  then have busy: "bv_phase (view d) = Busy w (fst ?r)"
    by (simp add: start_command_def split_def Let_def)
  from contract_completes [OF contract this] obtain k where k: "k \<le> w" "completes_at P k d"
    and vk: "view (polled P (Suc k) d) = (view d)\<lparr>bv_phase := Complete (fst ?r)\<rparr>" by blast
  define dk where "dk = polled P (Suc k) d"
  have ph: "bv_phase (view dk) = Complete (fst ?r)" using vk by (simp add: dk_def)
  note st = contract_status [OF contract, of dk]
  let ?d1 = "snd (reg_read P 0x10002010 dk)"
  have ph1: "bv_phase (view ?d1) = Complete (fst ?r)" and v1: "view ?d1 = view dk"
    using st ph by (auto simp: status_answer_def)
  have err: "status_at P 0 dk AND 4 \<noteq> 0 \<longleftrightarrow> fst ?r \<noteq> 0"
    using st(1) ph by (auto simp: status_answer_def)
  have fin: "bv_phase (view d') = Complete e \<Longrightarrow> fst (reg_read P 0x10002014 d') = e
      \<and> view (snd (reg_read P 0x10002014 d')) = view d'
      \<and> view (reg_write P 0x10002018 1 d') = (view d')\<lparr>bv_phase := Idle\<rparr>" for d' e
    using contract by (simp add: block_contract_def)
  obtain d' log where col: "collected P dk = (fst ?r, d', log)"
    and vd': "view d' = (view dk)\<lparr>bv_phase := Idle\<rparr>"
    using err fin [OF ph1] fin [of "snd (reg_read P 0x10002014 ?d1)"] ph1 v1
    by (cases "fst ?r = 0") (simp_all add: collected_def split_def Let_def status_at_def)
  have "minemu_block_transfer P fuel command unit lba n dma s = (Done (fst ?r), s\<lparr>dev := d',
      io := io s @ program_log command unit lba n dma @ status_log P (Suc k) d
        @ log @ unmask_log (cpsr s)\<rparr>)"
    using transfer_run [of P k command unit lba n dma s fuel] k \<open>w \<le> latency\<close> fuel col
    by (simp add: d_def [symmetric] dk_def [symmetric] Let_def del: polled.simps status_log.simps)
  moreover have "view d' = \<lparr>bv_unit = unit, bv_lba = lba, bv_count = n, bv_dma = dma, bv_phase = Idle,
        bv_media = snd ?r\<rparr>"
    using vd' vk vd by (simp add: dk_def start_command_def split_def Let_def)
  ultimately show ?thesis by simp
qed

section \<open>The properties\<close>

text \<open>A controller that completes after two polls and fails for every unit but 0.\<close>

definition sample_exec :: "u32 block_service" where
  "sample_exec command unit lba n dma m = (if unit = 0 then (0, lba) else (3, m))"

definition sample_status :: "u32 \<Rightarrow> u32" where
  "sample_status e = (if e = 0 then 2 else 6)"

definition sample_disk :: "u32 block_view platform" where
  "sample_disk = \<lparr>
     reg_read = (\<lambda>a d. if a = 0x10002010
       then (case bv_phase d of
           Idle \<Rightarrow> (0, d)
         | Busy w e \<Rightarrow> if w = 0 then (sample_status e, d\<lparr>bv_phase := Complete e\<rparr>)
                        else (1, d\<lparr>bv_phase := Busy (w - 1) e\<rparr>)
         | Complete e \<Rightarrow> (sample_status e, d))
       else if a = 0x10002014 then (case bv_phase d of Complete e \<Rightarrow> (e, d) | _ \<Rightarrow> (0, d))
       else (0, d)),
     reg_write = (\<lambda>a v d. if a = 0x10002020 then d\<lparr>bv_unit := v\<rparr>
       else if a = 0x10002004 then d\<lparr>bv_lba := v\<rparr>
       else if a = 0x10002008 then d\<lparr>bv_count := v\<rparr>
       else if a = 0x1000200c then d\<lparr>bv_dma := v\<rparr>
       else if a = 0x10002000 then start_command sample_exec 2 v d
       else if a = 0x10002018 then d\<lparr>bv_phase := Idle\<rparr>
       else d) \<rparr>"

definition sample_idle :: "u32 block_view machine" where
  "sample_idle = \<lparr> dev = \<lparr> bv_unit = 7, bv_lba = 0, bv_count = 0, bv_dma = 0, bv_phase = Idle,
     bv_media = 0 \<rparr>, cpsr = 0x1f, io = [] \<rparr>"

lemma sample_contract: "block_contract sample_disk (\<lambda>d. d) sample_exec 2"
  unfolding block_contract_def
  by (auto simp: sample_disk_def sample_status_def status_answer_def split: block_phase.splits)

text \<open>
  C11: whatever the device answers, a transfer masks IRQ, programs unit, LBA, count and DMA address
  and then the command, in this order; it polls the status register until the completion bit
  shows, reads the status once more, reads the error register only if the error bit is set,
  acknowledges, and unmasks IRQ if and only if it was unmasked. The result is the error register
  or \<open>NONE\<close>, and the CPU status word is as before.
\<close>

theorem block_transfer_protocol:
  fixes s :: "('d, 'z) machine_scheme"
  assumes "completes_at P k (programmed P command unit lba n dma (dev s))" and "k < fuel"
  shows "minemu_block_transfer P fuel command unit lba n dma s =
    (let d = programmed P command unit lba n dma (dev s);
         (e, d', log) = collected P (polled P (Suc k) d)
     in (Done e, s\<lparr>dev := d',
           io := io s
             @ [IrqDisable, RegWrite 0x10002020 unit, RegWrite 0x10002004 lba, RegWrite 0x10002008 n,
                RegWrite 0x1000200c dma, RegWrite 0x10002000 command]
             @ status_log P (Suc k) d @ log @ (if cpsr s AND 0x80 = 0 then [IrqEnable] else [])\<rparr>))"
  using transfer_run [OF assms] by (simp only: program_log_def unmask_log_def)

theorem block_transfer_protocol_witness:
  "fst (minemu_block_transfer sample_disk 5 1 9 4 1 0x40000000 sample_idle) = Done 3"
proof -
  have d: "completes_at sample_disk 2 (programmed sample_disk 1 9 4 1 0x40000000 (dev sample_idle))"
    by code_simp
  have "(2 :: nat) < 5" by simp
  have c: "fst (collected sample_disk (polled sample_disk (Suc 2)
      (programmed sample_disk 1 9 4 1 0x40000000 (dev sample_idle)))) = 3" by code_simp
  show ?thesis
    using block_transfer_protocol [OF d \<open>2 < 5\<close>] c
    by (simp add: split_def Let_def del: polled.simps status_log.simps)
qed

text \<open>
  The driver has no time-out. If the completion bit does not show in any number of polls, it
  polls for that number, with IRQ masked, and does not return.
\<close>

theorem block_transfer_waits:
  fixes s :: "('d, 'z) machine_scheme"
  assumes "\<forall>j < fuel. status_at P j (programmed P command unit lba n dma (dev s)) AND 2 = 0"
  shows "\<exists>s'. minemu_block_transfer P fuel command unit lba n dma s = (OutOfFuel, s')
              \<and> cpsr s' = cpsr s OR 0x80"
  using transfer_waits [OF assms] .

theorem block_transfer_waits_witness:
  "\<exists>s'. minemu_block_transfer \<lparr> reg_read = (\<lambda>a d. (1, d)), reg_write = (\<lambda>a v d. d) \<rparr> 100 1 0 0 1 0
      \<lparr> dev = (), cpsr = 0x1f, io = [] \<rparr> = (OutOfFuel, s') \<and> cpsr s' = 0x9f"
  using block_transfer_waits [of 100 "\<lparr> reg_read = (\<lambda>a d. (1, d)), reg_write = (\<lambda>a v d. d) \<rparr>" 1 0 0 1 0
      "\<lparr> dev = (), cpsr = 0x1f, io = [] \<rparr>"]
  by (simp add: status_at_def)

text \<open>
  C12: on a controller that follows the register protocol, a read or write through the driver is
  one execution of the controller's service: it returns the service's error code, leaves the media
  as the service does and the controller idle again, and keeps the IRQ mask. A fuel above the
  controller's latency is enough.
\<close>

theorem block_transfer_serves:
  fixes s :: "('d, 'z) machine_scheme"
  assumes "block_contract P view exec latency"
    and "bv_phase (view (dev s)) = Idle" and "latency < fuel"
  shows "\<exists>r w. minemu_block_read P fuel unit lba n dma s =
      (Done (fst (exec 1 unit lba n dma (bv_media (view (dev s))))), r)
    \<and> view (dev r) = \<lparr>bv_unit = unit, bv_lba = lba, bv_count = n, bv_dma = dma, bv_phase = Idle,
        bv_media = snd (exec 1 unit lba n dma (bv_media (view (dev s))))\<rparr>
    \<and> cpsr r = cpsr s
    \<and> minemu_block_write P fuel unit lba n dma s =
      (Done (fst (exec 2 unit lba n dma (bv_media (view (dev s))))), w)
    \<and> view (dev w) = \<lparr>bv_unit = unit, bv_lba = lba, bv_count = n, bv_dma = dma, bv_phase = Idle,
        bv_media = snd (exec 2 unit lba n dma (bv_media (view (dev s))))\<rparr>
    \<and> cpsr w = cpsr s"
  using transfer_serves [OF assms, of 1 unit lba n dma] transfer_serves [OF assms, of 2 unit lba n dma]
  unfolding minemu_block_read_def minemu_block_write_def by blast

theorem block_transfer_serves_witness:
  "\<exists>r. minemu_block_read sample_disk 3 0 5 1 0x40000000 sample_idle = (Done 0, r)
    \<and> bv_media (dev r) = 5"
proof -
  have "bv_phase (dev sample_idle) = Idle" by (simp add: sample_idle_def)
  moreover have "(2 :: nat) < 3" by simp
  ultimately show ?thesis
    using block_transfer_serves [OF sample_contract, of sample_idle 3 0 5 1 "0x40000000"]
    by (auto simp: sample_exec_def)
qed

end
