(* ===== verification/Hello.thy ===== *)
theory Hello
  imports BootInfo Runtime
begin

text \<open>
  The kernel of the user-mode example (\<^verbatim>\<open>examples/user-mode-hello/kernel/main.c\<close>): it maps the
  system ROM, finds a module of the packed image by name, loads the module's segments into
  user pages, builds the user page table and serves the one system call of the user program.

  The static arrays of the file are fields of the state, so an access outside an array is a
  fault of the model. The packed image is a list of bytes the code reads through pointers from
  \<^verbatim>\<open>system_rom_base\<close>; a read outside it is a fault too. The link addresses of the arrays the
  page tables refer to are a parameter.
\<close>

section \<open>State\<close>

record 'd hello_state = "'d machine" +
  page_directory :: "u32 list"
  system_rom_tables :: "u32 list list"
  user_page_table :: "u32 list"
  user_image_pages :: "u8 list list"
  user_stack :: "u8 list"
  user_page_vaddrs :: "u32 list"
  user_page_flags :: "u32 list"
  user_page_count :: u32
  user_syscall_observed :: bool

record hello_symbols =
  sym_system_rom_tables :: u32
  sym_user_page_table :: u32
  sym_user_image_pages :: u32
  sym_user_stack :: u32

abbreviation (input) "BOOTSTRAP_PAGE_DIRECTORY_PADDR \<equiv> (0x40010000 :: u32)"
abbreviation (input) "USER_IMAGE_BASE \<equiv> (0x00400000 :: u32)"
abbreviation (input) "USER_STACK_BOTTOM \<equiv> (0x007ff000 :: u32)"
abbreviation (input) "USER_STACK_TOP \<equiv> (0x00800000 :: u32)"
abbreviation (input) "MAX_USER_IMAGE_PAGES \<equiv> (16 :: u32)"
abbreviation (input) "SYSTEM_ROM_TABLE_COUNT \<equiv> (4 :: u32)"
abbreviation (input) "CPSR_MODE_MASK \<equiv> (0x1f :: u32)"
abbreviation (input) "CPSR_MODE_USR \<equiv> (0x10 :: u32)"
abbreviation (input) "CPSR_THUMB \<equiv> (0x20 :: u32)"
abbreviation (input) "A32_SVC_ZERO \<equiv> (0xef000000 :: u32)"
abbreviation (input) "TRACE_USER_SYSCALL \<equiv> (0x48454c10 :: u32)"
abbreviation (input) "MINEMU_PAGE_SIZE \<equiv> (4096 :: u32)"
abbreviation (input) "MINEMU_PTE_VALID \<equiv> (1 :: u32)"
abbreviation (input) "MINEMU_PTE_WRITABLE \<equiv> (2 :: u32)"
abbreviation (input) "MINEMU_PTE_USER \<equiv> (4 :: u32)"
abbreviation (input) "MINEMU_PTE_EXECUTABLE \<equiv> (8 :: u32)"
abbreviation (input) "MINEMU_PTE_READABLE \<equiv> (16 :: u32)"
abbreviation (input) "MINEMU_PTE_PAGE_MASK \<equiv> (0xfffff000 :: u32)"
abbreviation (input) "MINEMU_PDE_VALID \<equiv> (1 :: u32)"

section \<open>Pointers to bytes\<close>

text \<open>
  A \<^verbatim>\<open>void *\<close> destination is the store through it, indexed from the pointer; a source is the
  load through it. Word arrays are cleared byte by byte, as the code does.
\<close>

type_synonym 's window = "u32 \<Rightarrow> u8 \<Rightarrow> ('s, unit) cmd"
type_synonym 's source = "u32 \<Rightarrow> ('s, u8) cmd"

definition set_word_byte :: "u32 \<Rightarrow> nat \<Rightarrow> u8 \<Rightarrow> u32" where
  "set_word_byte w k v =
     join4 (if k = 0 then v else byte_of w 0) (if k = 1 then v else byte_of w 1)
       (if k = 2 then v else byte_of w 2) (if k = 3 then v else byte_of w 3)"

definition store_byte :: "u32 list \<Rightarrow> nat \<Rightarrow> u8 \<Rightarrow> u32 list" where
  "store_byte xs k v = xs[k div 4 := set_word_byte (xs ! (k div 4)) (k mod 4) v]"

definition rom_table_window :: "u32 \<Rightarrow> ('d, 'z) hello_state_scheme window" where
  "rom_table_window table k v s =
     (if unat table < length (system_rom_tables s)
         \<and> unat k < 4 * length (system_rom_tables s ! unat table)
      then (Done (), s\<lparr>system_rom_tables := (system_rom_tables s)[unat table :=
              store_byte (system_rom_tables s ! unat table) (unat k) v]\<rparr>)
      else (Fault, s))"

definition user_table_window :: "('d, 'z) hello_state_scheme window" where
  "user_table_window k v s =
     (if unat k < 4 * length (user_page_table s)
      then (Done (), s\<lparr>user_page_table := store_byte (user_page_table s) (unat k) v\<rparr>)
      else (Fault, s))"

definition user_stack_window :: "('d, 'z) hello_state_scheme window" where
  "user_stack_window k v s =
     (if unat k < length (user_stack s)
      then (Done (), s\<lparr>user_stack := (user_stack s)[unat k := v]\<rparr>)
      else (Fault, s))"

definition user_page_window :: "u32 \<Rightarrow> u32 \<Rightarrow> ('d, 'z) hello_state_scheme window" where
  "user_page_window index offset k v s =
     (if unat index < length (user_image_pages s)
         \<and> unat offset + unat k < length (user_image_pages s ! unat index)
      then (Done (), s\<lparr>user_image_pages := (user_image_pages s)[unat index :=
              (user_image_pages s ! unat index)[unat offset + unat k := v]]\<rparr>)
      else (Fault, s))"

text \<open>Reads of the packed image, mapped at \<open>base\<close>.\<close>

definition image_mem :: "u8 list \<Rightarrow> u32 \<Rightarrow> mem" where
  "image_mem img base a =
     (if unat (a - base) < length img then img ! unat (a - base) else 0)"

definition image_byte :: "u8 list \<Rightarrow> u32 \<Rightarrow> u32 \<Rightarrow> 's source" where
  "image_byte img base p k s =
     (if unat (p + k - base) < length img
      then (Done (image_mem img base (p + k)), s) else (Fault, s))"

definition image_record :: "u8 list \<Rightarrow> u32 \<Rightarrow> (mem \<Rightarrow> u32 \<Rightarrow> 'r) \<Rightarrow> u32 \<Rightarrow> ('s, 'r) cmd" where
  "image_record img base decode p s =
     (if unat (p - base) + 32 \<le> length img
      then (Done (decode (image_mem img base) p), s) else (Fault, s))"

definition hello_zero_bytes :: "'s window \<Rightarrow> u32 \<Rightarrow> ('s, unit) cmd" where
  "hello_zero_bytes destination len =
     bind (for_cmd (\<lambda>index.
       bind (destination index 0) (\<lambda>_. ret (None :: unit option))) 0 len) (\<lambda>_.
     ret ())"

definition hello_copy_bytes :: "'s window \<Rightarrow> 's source \<Rightarrow> u32 \<Rightarrow> ('s, unit) cmd" where
  "hello_copy_bytes destination source len =
     bind (for_cmd (\<lambda>index.
       bind (source index) (\<lambda>b.
       bind (destination index b) (\<lambda>_. ret (None :: unit option)))) 0 len) (\<lambda>_.
     ret ())"

definition bytes_equal :: "'s source \<Rightarrow> 's source \<Rightarrow> u32 \<Rightarrow> ('s, bool) cmd" where
  "bytes_equal left right len =
     bind (for_cmd (\<lambda>index.
       bind (left index) (\<lambda>l.
       bind (right index) (\<lambda>r.
       if l \<noteq> r then ret (Some False) else ret None))) 0 len) (\<lambda>left_early.
     case left_early of Some r \<Rightarrow> ret r | None \<Rightarrow> ret True)"

section \<open>Checks and addresses\<close>

definition image_range_valid :: "u32 \<Rightarrow> u32 \<Rightarrow> u32 \<Rightarrow> bool" where
  "image_range_valid offset len image_size \<longleftrightarrow> offset \<le> image_size \<and> len \<le> image_size - offset"

definition image_records_valid :: "u32 \<Rightarrow> u32 \<Rightarrow> u32 \<Rightarrow> bool" where
  "image_records_valid offset count image_size \<longleftrightarrow>
     offset \<le> image_size \<and> count \<le> drop_bit 5 (image_size - offset)"

definition kernel_vaddr_to_paddr :: "u32 \<Rightarrow> u32" where
  "kernel_vaddr_to_paddr address = address - MINEMU_KERNEL_DIRECT_BASE + MINEMU_RAM_BASE"

text \<open>A volatile store into the active page directory.\<close>

definition active_page_directory :: "u32 \<Rightarrow> u32 \<Rightarrow> (('d, 'z) hello_state_scheme, unit) cmd" where
  "active_page_directory index val =
     bind (store_at page_directory page_directory_update index val) (\<lambda>_.
     modify (\<lambda>s. s\<lparr>io := io s @ [DirectoryWrite index val]\<rparr>))"

section \<open>Mapping the system ROM\<close>

definition map_system_rom ::
    "hello_symbols \<Rightarrow> minemu_boot_info \<Rightarrow> (('d, 'z) hello_state_scheme, bool) cmd" where
  "map_system_rom syms boot_info =
     (if bi_system_rom_base boot_info \<noteq> MINEMU_SYSTEM_ROM_BASE \<or> bi_image_size boot_info = 0
         \<or> bi_image_size boot_info > MINEMU_SYSTEM_ROM_SIZE
      then ret False
      else let page_count = (bi_image_size boot_info + MINEMU_PAGE_SIZE - 1) div MINEMU_PAGE_SIZE;
               table_count = (page_count + 1023) div 1024 in
      if table_count > SYSTEM_ROM_TABLE_COUNT then ret False
      else
        bind (for_cmd (\<lambda>table.
          bind (hello_zero_bytes (rom_table_window table) 4096) (\<lambda>_.
          let remaining = page_count - table * 1024;
              entries = (if remaining < 1024 then remaining else 1024) in
          bind (for_cmd (\<lambda>index.
            let page = table * 1024 + index in
            bind (store_at (\<lambda>s. system_rom_tables s ! unat table)
                    (\<lambda>f s. s\<lparr>system_rom_tables := (system_rom_tables s)[unat table :=
                                f (system_rom_tables s ! unat table)]\<rparr>) index
                    ((bi_system_rom_base boot_info + page * MINEMU_PAGE_SIZE)
                      OR MINEMU_PTE_VALID OR MINEMU_PTE_READABLE)) (\<lambda>_.
            ret (None :: unit option))) 0 entries) (\<lambda>_.
          let directory_index = drop_bit 22 (bi_system_rom_base boot_info) + table in
          bind (active_page_directory directory_index
                  (kernel_vaddr_to_paddr (sym_system_rom_tables syms + table * 4096)
                    OR MINEMU_PDE_VALID)) (\<lambda>_.
          ret (None :: unit option))))) 0 table_count) (\<lambda>_.
        bind minemu_mmu_tlbiall (\<lambda>_.
        ret True)))"

section \<open>Finding a module\<close>

definition find_module ::
    "u8 list \<Rightarrow> minemu_boot_info \<Rightarrow> 's source \<Rightarrow> u32 \<Rightarrow> ('s, u32 option) cmd" where
  "find_module img boot_info name name_length =
     (let base = bi_system_rom_base boot_info in
      if \<not> image_records_valid (bi_module_table_offset boot_info) (bi_module_count boot_info)
             (bi_image_size boot_info)
      then ret None
      else
        bind (for_cmd (\<lambda>index.
          let module = base + bi_module_table_offset boot_info + 32 * index in
          bind (image_record img base module_record_at module) (\<lambda>rec.
          if mr_name_length rec = name_length
             \<and> image_range_valid (mr_name_offset rec) (mr_name_length rec) (bi_image_size boot_info)
          then bind (bytes_equal (image_byte img base (base + mr_name_offset rec)) name name_length)
                 (\<lambda>same. if same then ret (Some module) else ret None)
          else ret None)) 0 (bi_module_count boot_info)) (\<lambda>found.
        ret found))"

section \<open>User pages\<close>

definition pte_flags_from_segment :: "u32 \<Rightarrow> u32" where
  "pte_flags_from_segment segment_flags =
     (let f = 0;
          f = (if segment_flags AND MINEMU_SEGMENT_READABLE \<noteq> 0 then f OR MINEMU_PTE_READABLE else f);
          f = (if segment_flags AND MINEMU_SEGMENT_WRITABLE \<noteq> 0 then f OR MINEMU_PTE_WRITABLE else f);
          f = (if segment_flags AND MINEMU_SEGMENT_EXECUTABLE \<noteq> 0
               then f OR MINEMU_PTE_EXECUTABLE else f)
      in f)"

definition user_page_index ::
    "u32 \<Rightarrow> u32 \<Rightarrow> bool \<Rightarrow> (('d, 'z) hello_state_scheme, int) cmd" where
  "user_page_index page_vaddr flags create =
     bind (gets user_page_count) (\<lambda>count.
     bind (for_cmd (\<lambda>index.
       bind (load_at user_page_vaddrs index) (\<lambda>v.
       if v = page_vaddr
       then (if create
             then bind (load_at user_page_flags index) (\<lambda>f.
                  if f \<noteq> flags then ret (Some (- 1)) else ret (Some (uint index)))
             else ret (Some (uint index)))
       else ret None)) 0 count) (\<lambda>returned.
     case returned of
       Some r \<Rightarrow> ret r
     | None \<Rightarrow>
         if \<not> create \<or> count = MAX_USER_IMAGE_PAGES then ret (- 1)
         else
           bind (modify (\<lambda>s. s\<lparr>user_page_count := count + 1\<rparr>)) (\<lambda>_.
           bind (store_at user_page_vaddrs user_page_vaddrs_update count page_vaddr) (\<lambda>_.
           bind (store_at user_page_flags user_page_flags_update count flags) (\<lambda>_.
           bind (hello_zero_bytes (user_page_window count 0) MINEMU_PAGE_SIZE) (\<lambda>_.
           ret (uint count)))))))"

text \<open>
  The loop of \<open>prepare_user_range\<close> takes fuel. The page table has 16 slots, so the loop makes
  at most 16 iterations that find or make a page and one that fails or stops: 17 are enough.
\<close>

fun prepare_pages ::
    "nat \<Rightarrow> u32 \<Rightarrow> u32 \<Rightarrow> u32 \<Rightarrow> (('d, 'z) hello_state_scheme, bool) cmd" where
  "prepare_pages 0 page end' flags s = (OutOfFuel, s)"
| "prepare_pages (Suc fuel) page end' flags s =
     (if page < end'
      then bind (user_page_index page flags True) (\<lambda>index.
           if index < 0 then ret False
           else prepare_pages fuel (page + MINEMU_PAGE_SIZE) end' flags) s
      else ret True s)"

definition prepare_user_range ::
    "u32 \<Rightarrow> u32 \<Rightarrow> u32 \<Rightarrow> (('d, 'z) hello_state_scheme, bool) cmd" where
  "prepare_user_range vaddr len flags =
     prepare_pages 17 (vaddr AND MINEMU_PTE_PAGE_MASK) (vaddr + len) flags"

definition chunk_size :: "u32 \<Rightarrow> u32 \<Rightarrow> u32" where
  "chunk_size vaddr len =
     (let chunk = MINEMU_PAGE_SIZE - (vaddr - (vaddr AND MINEMU_PTE_PAGE_MASK))
      in if chunk > len then len else chunk)"

lemma chunk_size_bounds:
  assumes "len \<noteq> 0"
  shows "0 < unat (chunk_size vaddr len)"
    and "unat (chunk_size vaddr len) \<le> unat len"
    and "unat (page_off vaddr) + unat (chunk_size vaddr len) \<le> 4096"
    and "chunk_size vaddr len \<noteq> len \<Longrightarrow> unat (page_off vaddr) + unat (chunk_size vaddr len) = 4096"
proof -
  have "vaddr - (vaddr AND 0xfffff000) = page_off vaddr"
    using page_split [of vaddr] by (simp add: page_of_def diff_eq_eq add.commute)
  moreover have "unat (4096 - page_off vaddr) = 4096 - unat (page_off vaddr)"
    using page_off_less [of vaddr] by (subst unat_sub_u32) (simp_all add: word_le_nat_alt)
  moreover have "0 < unat len" using assms by (simp add: unat_gt_0)
  ultimately show "0 < unat (chunk_size vaddr len)"
    and "unat (chunk_size vaddr len) \<le> unat len"
    and "unat (page_off vaddr) + unat (chunk_size vaddr len) \<le> 4096"
    and "chunk_size vaddr len \<noteq> len \<Longrightarrow> unat (page_off vaddr) + unat (chunk_size vaddr len) = 4096"
    using page_off_less [of vaddr] by (auto simp: chunk_size_def Let_def word_less_nat_alt not_less)
qed

lemma chunk_progress: "len \<noteq> 0 \<Longrightarrow> unat (len - chunk_size vaddr len) < unat len"
  using chunk_size_bounds(1,2) [of len vaddr]
  by (subst unat_sub_u32) (simp_all add: word_le_nat_alt)

function write_user_range ::
    "u8 list \<Rightarrow> u32 \<Rightarrow> u32 \<Rightarrow> u32 option \<Rightarrow> u32 \<Rightarrow> (('d, 'z) hello_state_scheme, bool) cmd" where
  "write_user_range img base vaddr source len =
     (if len \<noteq> 0
      then let page_vaddr = vaddr AND MINEMU_PTE_PAGE_MASK;
               offset = vaddr - page_vaddr;
               chunk = chunk_size vaddr len in
        bind (user_page_index page_vaddr 0 False) (\<lambda>index.
        if index < 0 then ret False
        else
          bind (case source of
                  None \<Rightarrow> hello_zero_bytes (user_page_window (word_of_int index) offset) chunk
                | Some p \<Rightarrow> hello_copy_bytes (user_page_window (word_of_int index) offset)
                              (image_byte img base p) chunk) (\<lambda>_.
          write_user_range img base (vaddr + chunk) (map_option (\<lambda>p. p + chunk) source)
            (len - chunk)))
      else ret True)"
  by pat_completeness auto

termination
  by (relation "measure (\<lambda>(img, base, vaddr, source, len). unat len)") (auto intro: chunk_progress)

declare write_user_range.simps [simp del]

section \<open>Loading a module\<close>

text \<open>
  The body of the segment loop: \<open>None\<close> for \<^verbatim>\<open>return false\<close>, otherwise whether the segment
  makes the entry point executable.
\<close>

definition load_segment ::
    "u8 list \<Rightarrow> minemu_boot_info \<Rightarrow> minemu_module_record \<Rightarrow> minemu_module_segment
      \<Rightarrow> (('d, 'z) hello_state_scheme, bool option) cmd" where
  "load_segment img boot_info module segment =
     (let base = bi_system_rom_base boot_info in
      if ms_memory_size segment = 0 \<or> ms_file_size segment > ms_memory_size segment
         \<or> ms_flags segment AND NOT (MINEMU_SEGMENT_READABLE OR MINEMU_SEGMENT_WRITABLE
                                      OR MINEMU_SEGMENT_EXECUTABLE) \<noteq> 0
         \<or> ms_flags segment AND MINEMU_SEGMENT_EXECUTABLE \<noteq> 0
            \<and> ms_flags segment AND MINEMU_SEGMENT_READABLE = 0
         \<or> ms_virtual_address segment < USER_IMAGE_BASE
         \<or> ms_virtual_address segment \<ge> USER_STACK_BOTTOM
         \<or> ms_memory_size segment > USER_STACK_BOTTOM - ms_virtual_address segment
         \<or> \<not> image_range_valid (ms_data_offset segment) (ms_file_size segment)
               (bi_image_size boot_info)
      then ret None
      else
        let pte_flags = pte_flags_from_segment (ms_flags segment) in
        bind (prepare_user_range (ms_virtual_address segment) (ms_memory_size segment) pte_flags)
          (\<lambda>prepared. if \<not> prepared then ret None else
        bind (write_user_range img base (ms_virtual_address segment) None (ms_memory_size segment))
          (\<lambda>cleared. if \<not> cleared then ret None else
        bind (write_user_range img base (ms_virtual_address segment)
                (Some (base + ms_data_offset segment)) (ms_file_size segment))
          (\<lambda>written. if \<not> written then ret None else
        ret (Some (ms_flags segment AND MINEMU_SEGMENT_EXECUTABLE \<noteq> 0
                   \<and> ms_file_size segment \<ge> 4
                   \<and> mr_entry_vaddr module \<ge> ms_virtual_address segment
                   \<and> mr_entry_vaddr module - ms_virtual_address segment
                       \<le> ms_file_size segment - 4))))))"

text \<open>The loop; it carries the local variable \<open>entry_is_executable\<close>.\<close>

function load_segments ::
    "u8 list \<Rightarrow> minemu_boot_info \<Rightarrow> minemu_module_record \<Rightarrow> u32 \<Rightarrow> u32 \<Rightarrow> bool
      \<Rightarrow> (('d, 'z) hello_state_scheme, bool option) cmd" where
  "load_segments img boot_info module segments index entry_is_executable =
     (if index < mr_segment_count module
      then
        bind (image_record img (bi_system_rom_base boot_info) module_segment_at
                (segments + 32 * index)) (\<lambda>segment.
        bind (load_segment img boot_info module segment) (\<lambda>result.
        case result of
          None \<Rightarrow> ret None
        | Some here \<Rightarrow> load_segments img boot_info module segments (index + 1)
                         (entry_is_executable \<or> here)))
      else ret (Some entry_is_executable))"
  by pat_completeness auto
termination
  by (relation "measure (\<lambda>(img, bi, module, segments, index, e). unat (mr_segment_count module - index))")
    (auto intro: loop_measure_u32)

declare load_segments.simps [simp del]

text \<open>The loop that enters the pages of the module in the user page table.\<close>

definition map_user_page :: "hello_symbols \<Rightarrow> u32 \<Rightarrow> (('d, 'z) hello_state_scheme, unit option) cmd" where
  "map_user_page syms index =
     bind (load_at user_page_vaddrs index) (\<lambda>vaddr.
     bind (load_at user_page_flags index) (\<lambda>flags.
     let table_index = drop_bit 12 vaddr AND 1023 in
     bind (store_at user_page_table user_page_table_update table_index
             (kernel_vaddr_to_paddr (sym_user_image_pages syms + index * 4096)
               OR MINEMU_PTE_VALID OR MINEMU_PTE_USER OR flags)) (\<lambda>_.
     ret None)))"

definition load_user_module ::
    "hello_symbols \<Rightarrow> u8 list \<Rightarrow> minemu_boot_info \<Rightarrow> minemu_module_record
      \<Rightarrow> (('d, 'z) hello_state_scheme, bool) cmd" where
  "load_user_module syms img boot_info module =
     (if mr_segment_count module = 0
         \<or> \<not> image_records_valid (mr_segment_table_offset module) (mr_segment_count module)
               (bi_image_size boot_info)
         \<or> mr_entry_vaddr module AND 3 \<noteq> 0
      then ret False
      else
        let segments = bi_system_rom_base boot_info + mr_segment_table_offset module in
        bind (hello_zero_bytes user_table_window 4096) (\<lambda>_.
        bind (hello_zero_bytes user_stack_window 4096) (\<lambda>_.
        bind (modify (\<lambda>s. s\<lparr>user_page_count := 0\<rparr>)) (\<lambda>_.
        bind (load_segments img boot_info module segments 0 False) (\<lambda>loaded.
        if loaded = None \<or> loaded = Some False then ret False
        else
          bind (gets user_page_count) (\<lambda>count.
          bind (for_cmd (map_user_page syms) 0 count) (\<lambda>_.
          bind (store_at user_page_table user_page_table_update
                  (drop_bit 12 USER_STACK_BOTTOM AND 1023)
                  (kernel_vaddr_to_paddr (sym_user_stack syms) OR MINEMU_PTE_VALID
                    OR MINEMU_PTE_USER OR MINEMU_PTE_READABLE OR MINEMU_PTE_WRITABLE)) (\<lambda>_.
          bind (active_page_directory (drop_bit 22 USER_IMAGE_BASE)
                  (kernel_vaddr_to_paddr (sym_user_page_table syms) OR MINEMU_PDE_VALID)) (\<lambda>_.
          bind minemu_mmu_tlbiall (\<lambda>_.
          ret True))))))))))"

section \<open>System calls, exceptions and the kernel's main\<close>

text \<open>
  The dispatcher reads the trapping instruction through the user mapping; \<open>fetch\<close> is that
  read, \<open>None\<close> where it aborts.
\<close>

definition hello_svc_dispatch ::
    "'d platform \<Rightarrow> (u32 \<Rightarrow> u32 option) \<Rightarrow> minemu_trap_frame
      \<Rightarrow> (('d, 'z) hello_state_scheme, minemu_trap_frame) cmd" where
  "hello_svc_dispatch P fetch frame =
     (let mode = tf_spsr frame AND CPSR_MODE_MASK in
      if tf_exception_id frame \<noteq> MINEMU_EXCEPTION_SVC \<or> mode \<noteq> CPSR_MODE_USR
         \<or> tf_spsr frame AND CPSR_THUMB \<noteq> 0
      then ret (frame\<lparr>tf_r := (tf_r frame)[0 := - 1]\<rparr>)
      else
        bind (case fetch (tf_fault_pc frame) of None \<Rightarrow> fault | Some w \<Rightarrow> ret w) (\<lambda>instruction.
        if instruction \<noteq> A32_SVC_ZERO \<or> tf_r frame ! 7 \<noteq> 1 \<or> tf_r frame ! 0 > 255
        then ret (frame\<lparr>tf_r := (tf_r frame)[0 := - 1]\<rparr>)
        else
          bind (gets user_syscall_observed) (\<lambda>observed.
          bind (only_if (\<not> observed)
                 (bind (minemu_trace_event P TRACE_USER_SYSCALL) (\<lambda>_.
                  modify (\<lambda>s. s\<lparr>user_syscall_observed := True\<rparr>)))) (\<lambda>_.
          bind (MINEMU_MMIO_WRITE32 P (MINEMU_UART0 ''tx_data'') (tf_r frame ! 0)) (\<lambda>_.
          ret (frame\<lparr>tf_r := (tf_r frame)[0 := 0]\<rparr>))))))"

definition hello_undefined_dispatch ::
    "'d platform \<Rightarrow> minemu_trap_frame \<Rightarrow> (('d, 'z) hello_state_scheme, unit) cmd" where
  "hello_undefined_dispatch P frame =
     bind (minemu_trace_event P 0x48454c03) (\<lambda>_. minemu_fail_stop)"

definition hello_abort_dispatch ::
    "'d platform \<Rightarrow> minemu_trap_frame \<Rightarrow> (('d, 'z) hello_state_scheme, unit) cmd" where
  "hello_abort_dispatch P frame =
     bind (minemu_trace_event P 0x48454c04) (\<lambda>_. minemu_fail_stop)"

text \<open>
  \<open>minemu_enter_user\<close> (\<^verbatim>\<open>user.S\<close>) does not return; its value is the user context it starts, with
  the registers it clears. It masks IRQ and FIQ until the exception return loads the user's
  status word.
\<close>

record user_context =
  uc_r0_r3 :: "u32 list"
  uc_pc :: u32
  uc_sp :: u32
  uc_lr :: u32
  uc_cpsr :: u32

definition minemu_enter_user :: "u32 \<Rightarrow> u32 \<Rightarrow> (('d, 'z) machine_scheme, user_context) cmd" where
  "minemu_enter_user entry_vaddr stack_top =
     bind (modify (\<lambda>s. s\<lparr>cpsr := cpsr s OR 0xc0, io := io s @ [IrqDisable]\<rparr>)) (\<lambda>_.
     ret \<lparr> uc_r0_r3 = [0, 0, 0, 0], uc_pc = entry_vaddr, uc_sp = stack_top, uc_lr = 0, uc_cpsr = 0x10 \<rparr>)"

definition hello_module_name :: "u8 list" where
  "hello_module_name = [0x75, 0x73, 0x65, 0x72, 0x2d, 0x68, 0x65, 0x6c, 0x6c, 0x6f, 0]"

definition hello_kernel_main ::
    "'d platform \<Rightarrow> hello_symbols \<Rightarrow> u8 list \<Rightarrow> u32 \<Rightarrow> minemu_boot_info
      \<Rightarrow> (('d, 'z) hello_state_scheme, user_context) cmd" where
  "hello_kernel_main P syms img pointer boot_info =
     bind (if pointer \<noteq> MINEMU_BOOT_INFO_VADDR
              \<or> bi_magic boot_info \<noteq> MINEMU_BOOT_INFO_MAGIC
              \<or> bi_version boot_info \<noteq> MINEMU_ABI_VERSION \<or> bi_size boot_info \<noteq> 64
              \<or> bi_direct_map_vaddr boot_info \<noteq> MINEMU_KERNEL_DIRECT_BASE
              \<or> bi_direct_map_paddr boot_info \<noteq> MINEMU_RAM_BASE
              \<or> bi_direct_map_size boot_info \<noteq> MINEMU_KERNEL_DIRECT_SIZE
           then ret False else map_system_rom syms boot_info) (\<lambda>mapped.
     bind (only_if (\<not> mapped)
            (bind (minemu_trace_event P 0x48454c01) (\<lambda>_. minemu_fail_stop))) (\<lambda>_.
     bind (find_module img boot_info (load_at (\<lambda>_. hello_module_name)) 10) (\<lambda>module.
     bind (case module of
             None \<Rightarrow> ret None
           | Some p \<Rightarrow>
               bind (image_record img (bi_system_rom_base boot_info) module_record_at p) (\<lambda>rec.
               bind (load_user_module syms img boot_info rec) (\<lambda>loaded.
               ret (if loaded then Some rec else None)))) (\<lambda>loaded.
     case loaded of
       None \<Rightarrow> bind (minemu_trace_event P 0x48454c02) (\<lambda>_. minemu_fail_stop)
     | Some rec \<Rightarrow> minemu_enter_user (mr_entry_vaddr rec) USER_STACK_TOP))))"

end
