(* ===== verification/HelloPages.thy ===== *)
theory HelloPages
  imports Hello
begin

text \<open>
  The user pages of the example kernel as a byte store: what clearing and copying through a
  pointer does to the array behind it, the page table of \<^verbatim>\<open>user_page_vaddrs\<close> as a partial map
  from page addresses to slots, and the effect of \<open>user_page_index\<close>, \<open>prepare_user_range\<close> and
  \<open>write_user_range\<close> on the bytes of the user address space.
\<close>

section \<open>Writing through a pointer\<close>

text \<open>
  What the byte loops need of a destination: the bytes behind the pointer are a list in the
  state, a store inside the list updates it and nothing else.
\<close>

locale byte_window =
  fixes put :: "u32 \<Rightarrow> u8 \<Rightarrow> ('s, unit) cmd"
    and bytes :: "'s \<Rightarrow> u8 list"
    and set_bytes :: "u8 list \<Rightarrow> 's \<Rightarrow> 's"
    and live :: "'s \<Rightarrow> bool"
  assumes put: "live s \<Longrightarrow> unat i < length (bytes s) \<Longrightarrow>
      put i v s = (Done (), set_bytes ((bytes s)[unat i := v]) s)"
    and bytes_set: "live s \<Longrightarrow> length xs = length (bytes s) \<Longrightarrow> bytes (set_bytes xs s) = xs"
    and set_set: "live s \<Longrightarrow> length xs = length (bytes s) \<Longrightarrow> length ys = length (bytes s) \<Longrightarrow>
      set_bytes ys (set_bytes xs s) = set_bytes ys s"
    and set_self: "live s \<Longrightarrow> set_bytes (bytes s) s = s"
    and live_set: "live s \<Longrightarrow> length xs = length (bytes s) \<Longrightarrow> live (set_bytes xs s)"
begin

lemma store_loop:
  assumes live: "live s" and len: "unat n \<le> length (bytes s)"
    and src: "\<And>i xs. i < n \<Longrightarrow> length xs = length (bytes s) \<Longrightarrow>
      src i (set_bytes xs s) = (Done (g i), set_bytes xs s)"
  shows "for_cmd (\<lambda>i. bind (src i) (\<lambda>b. bind (put i b) (\<lambda>_. ret (None :: unit option)))) 0 n s =
    (Done None, set_bytes (map (\<lambda>i. g (of_nat i)) [0..<unat n] @ drop (unat n) (bytes s)) s)"
proof -
  let ?xs = "\<lambda>k. map (\<lambda>i. g (of_nat i)) [0..<k] @ drop k (bytes s)"
  let ?I = "\<lambda>(k :: u32) t. t = set_bytes (?xs (unat k)) s"
  have "\<exists>t. for_cmd (\<lambda>i. bind (src i) (\<lambda>b. bind (put i b) (\<lambda>_. ret (None :: unit option)))) 0 n s
          = (Done None, t) \<and> ?I n t"
  proof (rule for_cmd_total [where I = ?I])
    show "?I 0 s" using live by (simp add: set_self)
  next
    fix k :: u32 and t
    assume k: "k < n" and I: "?I k t"
    have kl: "unat k < length (bytes s)" using k len by (simp add: word_less_nat_alt)
    then have lk: "length (?xs (unat k)) = length (bytes s)" by simp
    have upd: "(?xs (unat k))[unat k := g k] = ?xs (Suc (unat k))"
      using kl by (simp add: list_update_append Cons_nth_drop_Suc [symmetric])
    have lu: "length (?xs (Suc (unat k))) = length (bytes s)" using kl by simp
    have "put k (g k) (set_bytes (?xs (unat k)) s) = (Done (), set_bytes (?xs (Suc (unat k))) s)"
      using put [OF live_set [OF live lk], of k "g k"] kl
      unfolding bytes_set [OF live lk] upd set_set [OF live lk lu] by simp
    then show "\<exists>u. bind (src k) (\<lambda>b. bind (put k b) (\<lambda>_. ret (None :: unit option))) t = (Done None, u)
        \<and> ?I (k + 1) u"
      using I k src [OF k lk] by (simp add: bind_def ret_def unat_Suc_u32)
  qed simp_all
  then show ?thesis by auto
qed

lemma zero_window:
  assumes "live s" and "unat n \<le> length (bytes s)"
  shows "hello_zero_bytes put n s =
    (Done (), set_bytes (replicate (unat n) 0 @ drop (unat n) (bytes s)) s)"
  using store_loop [OF assms, of "\<lambda>i. ret 0" "\<lambda>_. 0"]
  by (simp add: bind_ret_fun hello_zero_bytes_def bind_Done ret_def map_replicate_const)

lemma copy_window:
  assumes "live s" and "unat n \<le> length (bytes s)"
    and "\<And>i xs. i < n \<Longrightarrow> length xs = length (bytes s) \<Longrightarrow>
      src i (set_bytes xs s) = (Done (g i), set_bytes xs s)"
  shows "hello_copy_bytes put src n s =
    (Done (), set_bytes (map (\<lambda>i. g (of_nat i)) [0..<unat n] @ drop (unat n) (bytes s)) s)"
  using store_loop [OF assms] by (simp add: hello_copy_bytes_def bind_Done ret_def)

end

section \<open>The arrays behind the pointers\<close>

text \<open>A word array as its bytes.\<close>

definition word_bytes :: "u32 \<Rightarrow> u8 list" where
  "word_bytes w = [byte_of w 0, byte_of w 1, byte_of w 2, byte_of w 3]"

definition words_bytes :: "u32 list \<Rightarrow> u8 list" where
  "words_bytes ws = concat (map word_bytes ws)"

fun bytes_words :: "u8 list \<Rightarrow> u32 list" where
  "bytes_words (b0 # b1 # b2 # b3 # bs) = join4 b0 b1 b2 b3 # bytes_words bs"
| "bytes_words _ = []"

lemma words_bytes_Cons [simp]: "words_bytes (w # ws) = word_bytes w @ words_bytes ws"
  by (simp add: words_bytes_def)

lemma words_bytes_Nil [simp]: "words_bytes [] = []"
  by (simp add: words_bytes_def)

lemma length_word_bytes [simp]: "length (word_bytes w) = 4"
  by (simp add: word_bytes_def)

lemma length_words_bytes [simp]: "length (words_bytes ws) = 4 * length ws"
  by (induction ws) auto

lemma bytes_words_bytes [simp]: "bytes_words (words_bytes ws) = ws"
  by (induction ws) (simp_all add: word_bytes_def)

lemma words_bytes_words: "length bs = 4 * n \<Longrightarrow> words_bytes (bytes_words bs) = bs"
proof (induction bs arbitrary: n rule: bytes_words.induct)
  case (1 b0 b1 b2 b3 bs)
  from 1(2) have "length bs = 4 * (n - 1)" by simp
  with 1(1) show ?case by (simp add: word_bytes_def)
qed (simp_all, (drule arg_cong [where f = "\<lambda>x. x mod 4"], simp)+)

lemma length_bytes_words: "length bs = 4 * n \<Longrightarrow> length (bytes_words bs) = n"
  using words_bytes_words [of bs n] length_words_bytes [of "bytes_words bs"] by simp

lemma word_bytes_set: "k < 4 \<Longrightarrow> word_bytes (set_word_byte w k v) = (word_bytes w)[k := v]"
proof -
  assume "k < 4"
  then consider "k = 0" | "k = 1" | "k = 2" | "k = 3" by linarith
  then show ?thesis by cases (simp_all add: word_bytes_def set_word_byte_def)
qed

lemma store_byte_bytes:
  "k < 4 * length ws \<Longrightarrow> words_bytes (store_byte ws k v) = (words_bytes ws)[k := v]"
proof (induction ws arbitrary: k)
  case Nil
  then show ?case by simp
next
  case (Cons w ws)
  show ?case
  proof (cases "k < 4")
    case True
    then show ?thesis by (simp add: store_byte_def word_bytes_set list_update_append)
  next
    case False
    then obtain j where k: "k = 4 + j" by (metis le_Suc_ex not_less)
    with Cons have "words_bytes (store_byte ws j v) = (words_bytes ws)[j := v]" by simp
    moreover have "(4 + j) div 4 = Suc (j div 4)" by simp
    ultimately show ?thesis using k by (simp add: store_byte_def list_update_append)
  qed
qed

lemma store_byte_words:
  "k < 4 * length ws \<Longrightarrow> store_byte ws k v = bytes_words ((words_bytes ws)[k := v])"
  by (metis bytes_words_bytes store_byte_bytes)

lemma bytes_words_zero: "bytes_words (replicate (4 * n) 0) = replicate n 0"
proof (induction n)
  case (Suc n)
  then show ?case by (simp add: numeral_eq_Suc join4_def)
qed simp

interpretation user_table: byte_window user_table_window
  "\<lambda>s. words_bytes (user_page_table s)" "\<lambda>bs s. s\<lparr>user_page_table := bytes_words bs\<rparr>" "\<lambda>_. True"
  by unfold_locales
    (auto simp: user_table_window_def store_byte_words words_bytes_words)

interpretation user_stack: byte_window user_stack_window
  user_stack "\<lambda>bs s. s\<lparr>user_stack := bs\<rparr>" "\<lambda>_. True"
  by unfold_locales (auto simp: user_stack_window_def)

interpretation rom_table: byte_window "rom_table_window t"
  "\<lambda>s. words_bytes (system_rom_tables s ! unat t)"
  "\<lambda>bs s. s\<lparr>system_rom_tables := (system_rom_tables s)[unat t := bytes_words bs]\<rparr>"
  "\<lambda>s. unat t < length (system_rom_tables s)" for t
  by unfold_locales
    (auto simp: rom_table_window_def store_byte_words words_bytes_words)

lemma take_drop_update: "n + k < length xs \<Longrightarrow> xs[n + k := v] = take n xs @ (drop n xs)[k := v]"
  by (metis add_diff_cancel_left' append_take_drop_id drop_update_swap le_add1 take_update_cancel)

interpretation user_page: byte_window "user_page_window i off"
  "\<lambda>s. drop (unat off) (user_image_pages s ! unat i)"
  "\<lambda>bs s. s\<lparr>user_image_pages := (user_image_pages s)[unat i :=
      take (unat off) (user_image_pages s ! unat i) @ bs]\<rparr>"
  "\<lambda>s. unat i < length (user_image_pages s) \<and> unat off \<le> length (user_image_pages s ! unat i)"
  for i off
  by unfold_locales (auto simp: user_page_window_def take_drop_update)

section \<open>The page table of the loader\<close>

text \<open>The declared sizes of the static arrays, and the bound of the page count.\<close>

definition statics_ok :: "('d, 'z) hello_state_scheme \<Rightarrow> bool" where
  "statics_ok s \<longleftrightarrow>
     length (page_directory s) = 1024
     \<and> length (system_rom_tables s) = 4 \<and> list_all (\<lambda>t. length t = 1024) (system_rom_tables s)
     \<and> length (user_page_table s) = 1024
     \<and> length (user_image_pages s) = 16 \<and> list_all (\<lambda>p. length p = 4096) (user_image_pages s)
     \<and> length (user_stack s) = 4096
     \<and> length (user_page_vaddrs s) = 16 \<and> length (user_page_flags s) = 16
     \<and> user_page_count s \<le> 16"

text \<open>The slot that holds a page, and the flags it was entered with.\<close>

definition slot_of :: "('d, 'z) hello_state_scheme \<Rightarrow> u32 \<Rightarrow> nat option" where
  "slot_of s p = find (\<lambda>i. user_page_vaddrs s ! i = p) [0..<unat (user_page_count s)]"

definition page_flags :: "('d, 'z) hello_state_scheme \<Rightarrow> u32 \<Rightarrow> u32 option" where
  "page_flags s p = map_option (\<lambda>i. user_page_flags s ! i) (slot_of s p)"

text \<open>The byte the user will see at an address, 0 where no page is entered.\<close>

definition user_byte :: "('d, 'z) hello_state_scheme \<Rightarrow> mem" where
  "user_byte s v = (case slot_of s (page_of v) of
      Some i \<Rightarrow> user_image_pages s ! i ! unat (page_off v)
    | None \<Rightarrow> 0)"

definition pages_ok :: "('d, 'z) hello_state_scheme \<Rightarrow> bool" where
  "pages_ok s \<longleftrightarrow> statics_ok s \<and> distinct (take (unat (user_page_count s)) (user_page_vaddrs s))"

text \<open>Only the page arrays and their count differ.\<close>

definition only_pages :: "('d, 'z) hello_state_scheme \<Rightarrow> ('d, 'z) hello_state_scheme \<Rightarrow> bool" where
  "only_pages s t \<longleftrightarrow>
     t = s\<lparr>user_image_pages := user_image_pages t, user_page_vaddrs := user_page_vaddrs t,
           user_page_flags := user_page_flags t, user_page_count := user_page_count t\<rparr>"

lemma only_pages_refl [simp]: "only_pages s s"
  by (simp add: only_pages_def)

lemma only_pages_trans: "only_pages s t \<Longrightarrow> only_pages t u \<Longrightarrow> only_pages s u"
  by (cases s; cases t; cases u) (simp add: only_pages_def)

lemma slot_of_Some:
  "slot_of s p = Some i \<longleftrightarrow>
     i < unat (user_page_count s) \<and> user_page_vaddrs s ! i = p \<and> (\<forall>j < i. user_page_vaddrs s ! j \<noteq> p)"
  by (auto simp: slot_of_def find_Some_iff)

lemma slot_of_None:
  "slot_of s p = None \<longleftrightarrow> (\<forall>i < unat (user_page_count s). user_page_vaddrs s ! i \<noteq> p)"
  by (auto simp: slot_of_def find_None_iff)

lemma count_le: "statics_ok s \<Longrightarrow> unat (user_page_count s) \<le> 16"
  by (simp add: statics_ok_def word_le_nat_alt)

lemma page_length: "statics_ok s \<Longrightarrow> i < 16 \<Longrightarrow> length (user_image_pages s ! i) = 4096"
  by (simp add: statics_ok_def list_all_length)

lemma dom_page_flags:
  assumes "statics_ok s"
  shows "dom (page_flags s) = set (take (unat (user_page_count s)) (user_page_vaddrs s))"
proof (rule set_eqI)
  fix p
  have "p \<in> dom (page_flags s) \<longleftrightarrow> (\<exists>i < unat (user_page_count s). user_page_vaddrs s ! i = p)"
    using slot_of_None [of s p] by (auto simp: page_flags_def dom_def)
  moreover have "unat (user_page_count s) \<le> length (user_page_vaddrs s)"
    using count_le [OF assms] assms by (simp add: statics_ok_def)
  ultimately show "p \<in> dom (page_flags s) \<longleftrightarrow>
      p \<in> set (take (unat (user_page_count s)) (user_page_vaddrs s))"
    by (simp add: in_set_conv_nth) (metis nth_take)
qed

text \<open>The search loop of \<open>user_page_index\<close> finds the slot, and changes nothing.\<close>

lemma page_search:
  assumes "statics_ok s"
  shows "for_cmd (\<lambda>index.
       bind (load_at user_page_vaddrs index) (\<lambda>v.
       if v = p
       then (if create
             then bind (load_at user_page_flags index) (\<lambda>f.
                  if f \<noteq> flags then ret (Some (- 1)) else ret (Some (uint index)))
             else ret (Some (uint index)))
       else ret None)) 0 (user_page_count s) s =
     (Done (map_option (\<lambda>i. if create \<and> user_page_flags s ! i \<noteq> flags then - 1 else int i)
              (slot_of s p)), s)" (is "for_cmd ?body _ _ _ = (Done ?r, s)")
proof -
  let ?I = "\<lambda>(k :: u32) t. t = s \<and> (\<forall>j < unat k. user_page_vaddrs s ! j \<noteq> p)"
  have "case for_cmd ?body 0 (user_page_count s) s of (r, t) \<Rightarrow> r = Done ?r \<and> t = s"
  proof (rule for_cmd_rule [where I = ?I])
    fix k :: u32 and t
    assume k: "k < user_page_count s" and I: "?I k t"
    have kn: "unat k < unat (user_page_count s)" using k by (simp add: word_less_nat_alt)
    then have len: "unat k < length (user_page_vaddrs s)" "unat k < length (user_page_flags s)"
      using count_le [OF assms] assms by (auto simp: statics_ok_def)
    have "user_page_vaddrs s ! unat k = p \<Longrightarrow> slot_of s p = Some (unat k)"
      using I kn by (simp add: slot_of_Some)
    then show "case ?body k t of (Done None, u) \<Rightarrow> ?I (k + 1) u | (r, u) \<Rightarrow> r = Done ?r \<and> u = s"
      using I len k by (auto simp: cmd_simps unat_Suc_u32 less_Suc_eq)
  next
    fix t assume "?I (user_page_count s) t"
    then show "Done None = Done ?r \<and> t = s" using slot_of_None [of s p] by simp
  qed simp_all
  then show ?thesis by (simp split: prod.splits)
qed

lemma page_lookup:
  assumes "statics_ok s"
  shows "user_page_index p f False s =
    (Done (case slot_of s p of Some i \<Rightarrow> int i | None \<Rightarrow> - 1), s)"
  using page_search [OF assms, of p False f]
  by (simp add: user_page_index_def cmd_simps bind_Done split: option.splits)

text \<open>A new page takes the next slot, cleared.\<close>

definition new_page :: "u32 \<Rightarrow> u32 \<Rightarrow> ('d, 'z) hello_state_scheme \<Rightarrow> ('d, 'z) hello_state_scheme" where
  "new_page p f s =
     (let n = unat (user_page_count s) in
      s\<lparr>user_page_count := user_page_count s + 1,
        user_page_vaddrs := (user_page_vaddrs s)[n := p],
        user_page_flags := (user_page_flags s)[n := f],
        user_image_pages := (user_image_pages s)[n := replicate 4096 0]\<rparr>)"

lemma page_create:
  assumes "statics_ok s"
  shows "user_page_index p f True s =
    (case slot_of s p of
       Some i \<Rightarrow> (Done (if user_page_flags s ! i = f then int i else - 1), s)
     | None \<Rightarrow> if user_page_count s = 16 then (Done (- 1), s)
               else (Done (uint (user_page_count s)), new_page p f s))"
proof (cases "slot_of s p")
  case (Some i)
  with page_search [OF assms, of p True f] show ?thesis
    by (simp add: user_page_index_def cmd_simps bind_Done)
next
  case None
  show ?thesis
  proof (cases "user_page_count s = 16")
    case True
    with None page_search [OF assms, of p True f] show ?thesis
      by (simp add: user_page_index_def cmd_simps bind_Done)
  next
    case False
    let ?n = "user_page_count s"
    have n: "unat ?n < 16"
      using False assms by (simp add: statics_ok_def word_le_nat_alt word_unat_eq_iff)
    let ?t = "user_page_flags_update (\<lambda>xs. xs[unat ?n := f])
        (user_page_vaddrs_update (\<lambda>xs. xs[unat ?n := p]) (s\<lparr>user_page_count := ?n + 1\<rparr>))"
    have "hello_zero_bytes (user_page_window ?n 0) 4096 ?t = (Done (), new_page p f s)"
      using user_page.zero_window [where i = ?n and off = 0 and s = ?t and n = "4096"] n assms page_length [OF assms n]
      by (simp add: new_page_def Let_def statics_ok_def)
    with None False page_search [OF assms, of p True f] n assms show ?thesis
      by (simp add: user_page_index_def cmd_simps bind_Done statics_ok_def)
  qed
qed

end
