(* ===== verification/HelloLoad.thy ===== *)
theory HelloLoad
  imports HelloPages
begin

text \<open>
  What the loader of the example kernel does to the user address space: the page table of the
  module as a map from pages to flags, its memory as a byte map, and each step of
  \<open>load_user_module\<close> as an operation on the two.
\<close>

section \<open>Entering pages\<close>

lemma user_page_count_Suc:
  "unat (user_page_count s) < 16 \<Longrightarrow> unat (user_page_count s + 1) = Suc (unat (user_page_count s))"
  using unat_Suc_u32 [of "user_page_count s" 16] by (simp add: word_less_nat_alt)

lemma new_page_sel:
  "user_page_vaddrs (new_page p f s) = (user_page_vaddrs s)[unat (user_page_count s) := p]"
  "user_page_flags (new_page p f s) = (user_page_flags s)[unat (user_page_count s) := f]"
  "user_image_pages (new_page p f s) =
     (user_image_pages s)[unat (user_page_count s) := replicate 4096 0]"
  "user_page_count (new_page p f s) = user_page_count s + 1"
  by (simp_all add: new_page_def Let_def)

lemma slot_of_new_page:
  assumes "statics_ok s" and "unat (user_page_count s) < 16"
  shows "slot_of (new_page p f s) q = (case slot_of s q of
      Some i \<Rightarrow> Some i
    | None \<Rightarrow> if q = p then Some (unat (user_page_count s)) else None)"
proof -
  let ?n = "unat (user_page_count s)"
  have len: "length (user_page_vaddrs s) = 16" using assms by (simp add: statics_ok_def)
  have sel: "unat (user_page_count (new_page p f s)) = Suc ?n"
    "user_page_vaddrs (new_page p f s) = (user_page_vaddrs s)[?n := p]"
    using user_page_count_Suc [OF assms(2)] by (simp_all add: new_page_sel)
  show ?thesis
  proof (cases "slot_of s q")
    case (Some i)
    then have "i < ?n" "user_page_vaddrs s ! i = q" "\<forall>j < i. user_page_vaddrs s ! j \<noteq> q"
      by (auto simp: slot_of_Some)
    then have "slot_of (new_page p f s) q = Some i"
      unfolding slot_of_Some sel by simp
    with Some show ?thesis by simp
  next
    case None
    then have old: "\<forall>i < ?n. user_page_vaddrs s ! i \<noteq> q" by (simp add: slot_of_None)
    show ?thesis
    proof (cases "q = p")
      case True
      then have "slot_of (new_page p f s) q = Some ?n"
        unfolding slot_of_Some sel using old assms(2) len by simp
      with True None show ?thesis by simp
    next
      case False
      then have "slot_of (new_page p f s) q = None"
        unfolding slot_of_None sel using old assms(2) len by (simp add: less_Suc_eq)
      with False None show ?thesis by simp
    qed
  qed
qed

lemma statics_new_page:
  assumes "statics_ok s" and "unat (user_page_count s) < 16"
  shows "statics_ok (new_page p f s)"
proof -
  have "user_page_count s + 1 \<le> 16"
    using user_page_count_Suc [OF assms(2)] assms(2) by (simp add: word_le_nat_alt)
  moreover have "list_all (\<lambda>p. length p = 4096)
      ((user_image_pages s)[unat (user_page_count s) := replicate 4096 0])"
    using assms by (simp add: statics_ok_def list_all_length nth_list_update)
  ultimately show ?thesis
    using assms(1) by (simp add: statics_ok_def new_page_def Let_def)
qed

lemma new_page_flags:
  assumes "statics_ok s" and "unat (user_page_count s) < 16" and "page_flags s p = None"
  shows "page_flags (new_page p f s) = (page_flags s)(p \<mapsto> f)"
proof
  fix q
  have len: "length (user_page_flags s) = 16" using assms(1) by (simp add: statics_ok_def)
  show "page_flags (new_page p f s) q = ((page_flags s)(p \<mapsto> f)) q"
  proof (cases "slot_of s q")
    case (Some i)
    moreover from this have "i < unat (user_page_count s)" by (simp add: slot_of_Some)
    ultimately show ?thesis
      using assms(3) by (auto simp: page_flags_def slot_of_new_page [OF assms(1,2)] new_page_sel)
  next
    case None
    then show ?thesis
      using assms(2) len
      by (simp add: page_flags_def slot_of_new_page [OF assms(1,2)] new_page_sel)
  qed
qed

lemma page_flags_None: "page_flags s p = None \<longleftrightarrow> slot_of s p = None"
  by (simp add: page_flags_def)

lemma new_page_byte:
  assumes "statics_ok s" and "unat (user_page_count s) < 16" and "page_flags s p = None"
  shows "user_byte (new_page p f s) = user_byte s"
proof
  fix v
  have len: "length (user_image_pages s) = 16" using assms(1) by (simp add: statics_ok_def)
  have off: "unat (page_off v) < 4096" by (rule page_off_less)
  show "user_byte (new_page p f s) v = user_byte s v"
  proof (cases "slot_of s (page_of v)")
    case (Some i)
    moreover from this have "i < unat (user_page_count s)" by (simp add: slot_of_Some)
    ultimately show ?thesis
      by (simp add: user_byte_def slot_of_new_page [OF assms(1,2)] new_page_sel)
  next
    case None
    then show ?thesis
      using assms(2) len off
      by (simp add: user_byte_def slot_of_new_page [OF assms(1,2)] new_page_sel)
  qed
qed

lemma card_page_flags:
  assumes "pages_ok s"
  shows "card (dom (page_flags s)) = unat (user_page_count s)"
proof -
  have "statics_ok s" using assms by (simp add: pages_ok_def)
  moreover from this have "unat (user_page_count s) \<le> length (user_page_vaddrs s)"
    using count_le by (simp add: statics_ok_def)
  ultimately show ?thesis
    using assms by (simp add: dom_page_flags pages_ok_def distinct_card)
qed

lemma pages_ok_new_page:
  assumes "pages_ok s" and "unat (user_page_count s) < 16" and "page_flags s p = None"
  shows "pages_ok (new_page p f s)"
proof -
  let ?n = "unat (user_page_count s)"
  have st: "statics_ok s" using assms by (simp add: pages_ok_def)
  then have len: "?n < length (user_page_vaddrs s)" using assms(2) by (simp add: statics_ok_def)
  have "p \<notin> set (take ?n (user_page_vaddrs s))"
    using assms(3) dom_page_flags [OF st] by (metis domIff)
  moreover have "take (Suc ?n) ((user_page_vaddrs s)[?n := p]) = take ?n (user_page_vaddrs s) @ [p]"
    using len by (simp add: take_Suc_conv_app_nth)
  ultimately have "distinct (take (unat (user_page_count (new_page p f s)))
      (user_page_vaddrs (new_page p f s)))"
    using assms(1) user_page_count_Suc [OF assms(2)]
    by (simp add: pages_ok_def new_page_sel)
  with statics_new_page [OF st assms(2)] show ?thesis by (simp add: pages_ok_def)
qed

lemma only_pages_new_page: "only_pages s (new_page p f s)"
  by (cases s) (simp add: only_pages_def new_page_def Let_def)

text \<open>What entering a page does to the page map.\<close>

lemma page_enter:
  assumes "pages_ok s"
  shows "case page_flags s p of
      Some g \<Rightarrow> if g = f then \<exists>i \<ge> 0. user_page_index p f True s = (Done i, s)
                else user_page_index p f True s = (Done (- 1), s)
    | None \<Rightarrow> if card (dom (page_flags s)) = 16 then user_page_index p f True s = (Done (- 1), s)
              else \<exists>i \<ge> 0. \<exists>t. user_page_index p f True s = (Done i, t) \<and> pages_ok t \<and> only_pages s t
                     \<and> page_flags t = (page_flags s)(p \<mapsto> f) \<and> user_byte t = user_byte s"
proof -
  have st: "statics_ok s" using assms by (simp add: pages_ok_def)
  have c16: "user_page_count s = 16 \<longleftrightarrow> card (dom (page_flags s)) = 16"
    unfolding card_page_flags [OF assms] by (simp add: word_unat_eq_iff)
  show ?thesis
  proof (cases "slot_of s p")
    case (Some i)
    then show ?thesis using page_create [OF st, of p f] by (simp add: page_flags_def)
  next
    case None
    show ?thesis
    proof (cases "user_page_count s = 16")
      case True
      with None c16 page_create [OF st, of p f] show ?thesis by (simp add: page_flags_def)
    next
      case False
      with count_le [OF st] have n: "unat (user_page_count s) < 16"
        by (simp add: word_unat_eq_iff)
      have pf: "page_flags s p = None" using None by (simp add: page_flags_def)
      show ?thesis
        using None False c16 page_create [OF st, of p f] pages_ok_new_page [OF assms n pf]
          only_pages_new_page [of s p f] new_page_flags [OF st n pf] new_page_byte [OF st n pf] pf
        by (auto intro!: exI [of _ "uint (user_page_count s)"])
    qed
  qed
qed

section \<open>Preparing a range\<close>

text \<open>
  The pages from an aligned address up to \<open>end'\<close>; when they fit in the page table: none of
  them is entered with other flags, and the table has room; and the table with them entered.
\<close>

definition pages_in :: "u32 \<Rightarrow> u32 \<Rightarrow> u32 set" where
  "pages_in page end' = {p. page_of p = p \<and> page \<le> p \<and> p < end'}"

definition fits :: "(u32 \<rightharpoonup> u32) \<Rightarrow> u32 \<Rightarrow> u32 set \<Rightarrow> bool" where
  "fits M f B \<longleftrightarrow> (\<forall>p \<in> B. M p = None \<or> M p = Some f) \<and> card (dom M \<union> B) \<le> 16"

definition enter_pages :: "(u32 \<rightharpoonup> u32) \<Rightarrow> u32 \<Rightarrow> u32 set \<Rightarrow> (u32 \<rightharpoonup> u32)" where
  "enter_pages M f B = (\<lambda>p. if p \<in> B then Some f else M p)"

lemma aligned_iff: "page_of p = p \<longleftrightarrow> unat p mod 4096 = 0"
proof -
  have "unat p = 4096 * (unat p div 4096) + unat p mod 4096" by simp
  then show ?thesis unfolding word_unat_eq_iff unat_page_of by (intro iffI) linarith+
qed

lemma next_page:
  assumes "page_of page = page" and "page < end'" and "end' \<le> 0xfffff000"
  shows "unat (page + 4096) = unat page + 4096" and "page_of (page + 4096) = page + 4096"
    and "pages_in page end' = insert page (pages_in (page + 4096) end')"
    and "page < page + 4096"
proof -
  have al: "unat page mod 4096 = 0" using assms(1) by (simp add: aligned_iff)
  have lt: "unat page < 4294963200" using assms(2,3) by (simp add: word_less_nat_alt word_le_nat_alt)
  show u: "unat (page + 4096) = unat page + 4096"
    using unat_add_u32 [of page 4096] lt by simp
  show "page_of (page + 4096) = page + 4096"
    using al unfolding aligned_iff u by simp
  show "page < page + 4096" by (simp add: word_less_nat_alt u)
  have "page \<le> p \<longleftrightarrow> p = page \<or> page + 4096 \<le> p" if "page_of p = p" for p
  proof -
    have "unat p mod 4096 = 0" using that by (simp add: aligned_iff)
    then obtain r where "unat p = 4096 * r" by (auto elim: dvdE simp: dvd_eq_mod_eq_0 [symmetric])
    moreover obtain q where "unat page = 4096 * q"
      using al by (auto elim: dvdE simp: dvd_eq_mod_eq_0 [symmetric])
    ultimately show ?thesis unfolding word_le_nat_alt word_unat_eq_iff u by auto
  qed
  then show "pages_in page end' = insert page (pages_in (page + 4096) end')"
    using assms(1,2) by (auto simp: pages_in_def)
qed

lemma pages_in_empty: "\<not> page < end' \<Longrightarrow> pages_in page end' = {}"
  by (auto simp: pages_in_def)

lemma card_flags_le: "pages_ok s \<Longrightarrow> card (dom (page_flags s)) \<le> 16"
  using card_page_flags [of s] count_le [of s] by (simp add: pages_ok_def)

lemma fits_conflict: "M p = Some g \<Longrightarrow> g \<noteq> f \<Longrightarrow> \<not> fits M f (insert p B)"
  by (auto simp: fits_def)

lemma fits_full: "M p = None \<Longrightarrow> card (dom M) = 16 \<Longrightarrow> \<not> fits M f (insert p B)"
proof
  assume M: "M p = None" "card (dom M) = 16" and fit: "fits M f (insert p B)"
  have "card (insert p (dom M)) \<le> card (dom M \<union> insert p B)"
    by (rule card_mono) auto
  moreover have "card (insert p (dom M)) = Suc (card (dom M))"
    using M by (intro card_insert_disjoint) auto
  ultimately show False using M fit by (simp add: fits_def)
qed

lemma fits_same: "M p = Some f \<Longrightarrow> fits M f (insert p B) = fits M f B"
  by (auto simp: fits_def insert_absorb domI)

lemma fits_new: "M p = None \<Longrightarrow> fits M f (insert p B) = fits (M(p \<mapsto> f)) f B"
  by (auto simp: fits_def)

lemma prepare_pages_spec:
  assumes "pages_ok s" and "page_of page = page" and "end' \<le> 0xfffff000"
    and "V \<subseteq> dom (page_flags s)" and "\<forall>v \<in> V. v < page" and "17 \<le> card V + fuel"
  shows "\<exists>t. prepare_pages fuel page end' f s
      = (Done (fits (page_flags s) f (pages_in page end')), t)
    \<and> pages_ok t \<and> only_pages s t \<and> user_byte t = user_byte s
    \<and> page_flags s \<subseteq>\<^sub>m page_flags t
    \<and> (fits (page_flags s) f (pages_in page end') \<longrightarrow>
        page_flags t = enter_pages (page_flags s) f (pages_in page end'))"
  using assms
proof (induction fuel arbitrary: s page V)
  case 0
  have "card V \<le> card (dom (page_flags s))" using 0 by (intro card_mono) auto
  with card_flags_le [OF "0.prems"(1)] 0 show ?case by simp
next
  case (Suc fuel)
  show ?case
  proof (cases "page < end'")
    case False
    then show ?thesis
      using Suc.prems card_flags_le [of s]
      by (simp add: ret_def pages_in_empty fits_def enter_pages_def)
  next
    case True
    note np = next_page [OF Suc.prems(2) True Suc.prems(3)]
    let ?B = "pages_in (page + 4096) end'"
    have V': "\<forall>v \<in> insert page V. v < page + 4096"
      using Suc.prems(5) np(4) by (auto intro: less_trans)
    have "page \<notin> V" using Suc.prems(5) by blast
    then have card: "17 \<le> card (insert page V) + fuel"
      using Suc.prems(6) by (simp add: card_insert_disjoint)
    note enter = page_enter [OF Suc.prems(1), of page f]
    show ?thesis
    proof (cases "page_flags s page")
      case (Some g)
      show ?thesis
      proof (cases "g = f")
        case False
        with True Some enter show ?thesis
          using fits_conflict [where M = "page_flags s" and p = page, OF Some False] Suc.prems(1)
          by (simp add: bind_Done ret_def np(3))
      next
        case same: True
        from Some enter same obtain i where i: "0 \<le> i" "user_page_index page f True s = (Done i, s)" by auto
        have "prepare_pages (Suc fuel) page end' f s = prepare_pages fuel (page + 4096) end' f s"
          using True i by (simp add: bind_Done)
        moreover have "enter_pages (page_flags s) f ?B = enter_pages (page_flags s) f (insert page ?B)"
          using Some same by (auto simp: enter_pages_def)
        ultimately show ?thesis
          using Suc.IH [OF Suc.prems(1) np(2) Suc.prems(3) _ V' card] Suc.prems(4) Some same
          by (simp add: np(3) fits_same domI)
      qed
    next
      case None
      show ?thesis
      proof (cases "card (dom (page_flags s)) = 16")
        case full: True
        with True None enter show ?thesis
          using fits_full [where M = "page_flags s" and p = page and f = f, OF None full] Suc.prems(1)
          by (simp add: bind_Done ret_def np(3))
      next
        case False
        with None enter obtain i u where u: "0 \<le> i" "user_page_index page f True s = (Done i, u)"
          "pages_ok u" "only_pages s u" "page_flags u = (page_flags s)(page \<mapsto> f)"
          "user_byte u = user_byte s" by auto
        have run: "prepare_pages (Suc fuel) page end' f s = prepare_pages fuel (page + 4096) end' f u"
          using True u by (simp add: bind_Done)
        have ent: "enter_pages (page_flags u) f ?B = enter_pages (page_flags s) f (insert page ?B)"
          using u(5) by (auto simp: enter_pages_def)
        have le: "page_flags s \<subseteq>\<^sub>m page_flags u" using None u(5) by (auto simp: map_le_def)
        have sub: "insert page V \<subseteq> dom (page_flags u)" using Suc.prems(4) u(5) by auto
        obtain t where t: "prepare_pages fuel (page + 4096) end' f u =
            (Done (fits (page_flags u) f ?B), t)" "pages_ok t" "only_pages u t"
          "user_byte t = user_byte u" "page_flags u \<subseteq>\<^sub>m page_flags t"
          "fits (page_flags u) f ?B \<longrightarrow> page_flags t = enter_pages (page_flags u) f ?B"
          using Suc.IH [OF u(3) np(2) Suc.prems(3) sub V' card] by blast
        have new: "fits (page_flags s) f (insert page ?B) = fits (page_flags u) f ?B"
          using fits_new [where M = "page_flags s" and p = page, OF None] u(5) by simp
        have "only_pages s t" using u(4) t(3) by (rule only_pages_trans)
        moreover have "page_flags s \<subseteq>\<^sub>m page_flags t" using le t(5) by (rule map_le_trans)
        ultimately show ?thesis
          using t(1,2,4,6) u(6) unfolding run np(3) new ent by simp
      qed
    qed
  qed
qed

section \<open>Writing a range\<close>

text \<open>What a source delivers: zeroes for a null pointer, else the bytes of the image.\<close>

definition source_byte :: "u8 list \<Rightarrow> u32 \<Rightarrow> u32 option \<Rightarrow> u32 \<Rightarrow> u8" where
  "source_byte img base src k = (case src of None \<Rightarrow> 0 | Some p \<Rightarrow> image_mem img base (p + k))"

definition source_ok :: "u8 list \<Rightarrow> u32 \<Rightarrow> u32 option \<Rightarrow> u32 \<Rightarrow> bool" where
  "source_ok img base src len =
     (case src of None \<Rightarrow> True | Some p \<Rightarrow> \<forall>k < len. unat (p + k - base) < length img)"

text \<open>A chunk stays in its page.\<close>

lemma chunk_range:
  assumes "unat (page_off a) + unat c \<le> 4096"
  shows "in_range a c v \<longleftrightarrow> page_of v = page_of a \<and> unat (page_off a) \<le> unat (page_off v)
      \<and> unat (page_off v) < unat (page_off a) + unat c"
    and "in_range a c v \<Longrightarrow> unat (v - a) = unat (page_off v) - unat (page_off a)"
proof -
  have div_le: "unat a div 4096 \<le> 1048575" using unat_u32_bound [of a] by linarith
  have av: "unat a = 4096 * (unat a div 4096) + unat (page_off a)"
    "unat v = 4096 * (unat v div 4096) + unat (page_off v)"
    by (simp_all add: unat_page_off)
  have "no_wrap a c" unfolding no_wrap_def using assms div_le av by linarith
  note r = in_range_no_wrap [OF this, of v]
  have pg: "page_of v = page_of a \<longleftrightarrow> unat v div 4096 = unat a div 4096"
    by (simp add: word_unat_eq_iff unat_page_of)
  have off: "unat (page_off v) < 4096" by (rule page_off_less)
  show iff: "in_range a c v \<longleftrightarrow> page_of v = page_of a \<and> unat (page_off a) \<le> unat (page_off v)
      \<and> unat (page_off v) < unat (page_off a) + unat c"
  proof (cases "unat v div 4096 = unat a div 4096")
    case True
    then show ?thesis unfolding r pg using av by linarith
  next
    case False
    then consider "unat v div 4096 + 1 \<le> unat a div 4096" | "unat a div 4096 + 1 \<le> unat v div 4096"
      by linarith
    then have "\<not> (unat a \<le> unat v \<and> unat v < unat a + unat c)"
      using av assms off by cases linarith+
    with False show ?thesis unfolding r pg by blast
  qed
  show "unat (v - a) = unat (page_off v) - unat (page_off a)" if "in_range a c v"
  proof -
    from that r have "a \<le> v" by (simp add: word_le_nat_alt)
    then have "unat (v - a) = unat v - unat a" by (rule unat_sub_u32)
    moreover from that iff pg have "unat v div 4096 = unat a div 4096" by blast
    ultimately show ?thesis using av by linarith
  qed
qed

lemma split_range:
  assumes "c \<le> len"
  shows "in_range a len v \<longleftrightarrow> in_range a c v \<or> in_range (a + c) (len - c) v"
    and "in_range (a + c) (len - c) v \<Longrightarrow> \<not> in_range a c v"
  using sub_less_sub [OF assms, of "v - a"] assms
  by (auto simp: in_range_def diff_diff_eq)

text \<open>The effect of a write inside one page, on the array and on the user bytes.\<close>

lemma write_page:
  assumes st: "statics_ok s" and slot: "slot_of s (page_of a) = Some i"
    and len: "length xs = 4096 - unat (page_off a)"
  defines "t \<equiv> s\<lparr>user_image_pages := (user_image_pages s)[i :=
      take (unat (page_off a)) (user_image_pages s ! i) @ xs]\<rparr>"
  shows "statics_ok t"
    and "user_byte t v = (if page_of v = page_of a \<and> unat (page_off a) \<le> unat (page_off v)
      then xs ! (unat (page_off v) - unat (page_off a)) else user_byte s v)"
proof -
  have i: "i < 16" using slot count_le [OF st] by (simp add: slot_of_Some)
  then have pg: "length (user_image_pages s) = 16" "length (user_image_pages s ! i) = 4096"
    using st page_length [OF st] by (auto simp: statics_ok_def)
  have offs: "unat (page_off a) < 4096" "unat (page_off v) < 4096" by (rule page_off_less)+
  show "statics_ok t"
    using st i pg len offs by (simp add: statics_ok_def t_def list_all_length nth_list_update)
  have slots: "slot_of t q = slot_of s q" for q by (simp add: slot_of_def t_def)
  have imgs: "user_image_pages t = (user_image_pages s)[i :=
      take (unat (page_off a)) (user_image_pages s ! i) @ xs]" by (simp add: t_def)
  have same: "slot_of s (page_of v) = Some i \<longleftrightarrow> page_of v = page_of a"
    using slot by (auto simp: slot_of_Some)
  show "user_byte t v = (if page_of v = page_of a \<and> unat (page_off a) \<le> unat (page_off v)
      then xs ! (unat (page_off v) - unat (page_off a)) else user_byte s v)"
  proof (cases "page_of v = page_of a")
    case True
    then show ?thesis
      using slot i pg offs by (auto simp: user_byte_def slots imgs nth_append)
  next
    case False
    then have "slot_of s (page_of v) \<noteq> Some i" using same by simp
    then show ?thesis
      using False by (auto simp: user_byte_def slots imgs split: option.splits)
  qed
qed

lemma write_chunk:
  assumes "pages_ok s" and "slot_of s (page_of a) = Some i"
    and "unat (page_off a) + unat c \<le> 4096" and "source_ok img base src c"
  shows "\<exists>t. (case src of
        None \<Rightarrow> hello_zero_bytes (user_page_window (word_of_int (int i)) (page_off a)) c
      | Some p \<Rightarrow> hello_copy_bytes (user_page_window (word_of_int (int i)) (page_off a))
          (image_byte img base p) c) s = (Done (), t)
    \<and> pages_ok t \<and> t = s\<lparr>user_image_pages := user_image_pages t\<rparr>
    \<and> user_byte t = (\<lambda>v. if in_range a c v then source_byte img base src (v - a) else user_byte s v)"
proof -
  have st: "statics_ok s" using assms by (simp add: pages_ok_def)
  have i: "i < 16" using assms(2) count_le [OF st] by (simp add: slot_of_Some)
  then have wi: "unat (word_of_int (int i) :: u32) = i" by (simp add: unat_of_nat)
  have pg: "length (user_image_pages s) = 16" "length (user_image_pages s ! i) = 4096"
    using st i page_length [OF st] by (auto simp: statics_ok_def)
  let ?g = "source_byte img base src"
  let ?old = "drop (unat (page_off a)) (user_image_pages s ! i)"
  let ?xs = "map (\<lambda>k. ?g (of_nat k)) [0..<unat c] @ drop (unat c) ?old"
  let ?t = "s\<lparr>user_image_pages := (user_image_pages s)[i :=
      take (unat (page_off a)) (user_image_pages s ! i) @ ?xs]\<rparr>"
  have run: "(case src of
        None \<Rightarrow> hello_zero_bytes (user_page_window (word_of_int (int i)) (page_off a)) c
      | Some p \<Rightarrow> hello_copy_bytes (user_page_window (word_of_int (int i)) (page_off a))
          (image_byte img base p) c) s = (Done (), ?t)"
  proof (cases src)
    case None
    then show ?thesis
      using user_page.zero_window [where i = "word_of_int (int i)" and off = "page_off a"
          and s = s and n = c] assms(3) pg i wi
      by (simp add: source_byte_def map_replicate_const)
  next
    case (Some p)
    then show ?thesis
      using user_page.copy_window [where i = "word_of_int (int i)" and off = "page_off a"
          and s = s and n = c and src = "image_byte img base p" and g = ?g] assms(3,4) pg i wi
      by (simp add: source_byte_def source_ok_def image_byte_def)
  qed
  have lx: "length ?xs = 4096 - unat (page_off a)" using pg assms(3) by simp
  note wp = write_page [OF st assms(2) lx]
  have "user_byte ?t v = (if in_range a c v then ?g (v - a) else user_byte s v)" for v
  proof (cases "page_of v = page_of a \<and> unat (page_off a) \<le> unat (page_off v)")
    case False
    then show ?thesis using wp(2) [of v] chunk_range(1) [OF assms(3), of v] by auto
  next
    case True
    let ?k = "unat (page_off v) - unat (page_off a)"
    show ?thesis
    proof (cases "in_range a c v")
      case r: True
      then have k: "?k < unat c" using chunk_range(1) [OF assms(3), of v] by auto
      have "?k = unat (v - a)" using chunk_range(2) [OF assms(3) r] by simp
      then have "of_nat ?k = v - a" by (simp only:) simp
      then show ?thesis using wp(2) [of v] True r k by (simp add: nth_append)
    next
      case r: False
      then have k: "unat c \<le> ?k" using chunk_range(1) [OF assms(3), of v] True by auto
      then have eq: "unat c + unat (page_off a) + (unat (page_off v) - (unat c + unat (page_off a)))
          = unat (page_off v)" using True by linarith
      have "user_byte s v = user_image_pages s ! i ! unat (page_off v)"
        using assms(2) True by (simp add: user_byte_def)
      then show ?thesis
        using wp(2) [of v] True r k pg page_off_less [of v] assms(3) eq by (simp add: nth_append add.commute)
    qed
  qed
  moreover have "pages_ok ?t" using wp(1) assms(1) by (simp add: pages_ok_def)
  ultimately show ?thesis using run by (intro exI [of _ ?t]) auto
qed

text \<open>The whole write: it succeeds and stores the source over the range, if its pages are there.\<close>

lemma source_ok_part:
  assumes "source_ok img base src len" and "c \<le> len"
  shows "source_ok img base src c" and "source_ok img base (map_option (\<lambda>p. p + c) src) (len - c)"
proof -
  show "source_ok img base src c"
    using assms by (auto simp: source_ok_def split: option.splits dest: less_le_trans)
  have "k + c < len" if "k < len - c" for k
    using sub_less_sub [OF assms(2), of "k + c"] that by simp
  then show "source_ok img base (map_option (\<lambda>p. p + c) src) (len - c)"
    using assms(1) by (auto simp: source_ok_def ac_simps split: option.splits)
qed

lemma source_byte_shift:
  "source_byte img base (map_option (\<lambda>p. p + c) src) (v - (a + c)) = source_byte img base src (v - a)"
  by (cases src) (simp_all add: source_byte_def algebra_simps)

lemma same_pages:
  assumes "t = s\<lparr>user_image_pages := user_image_pages t\<rparr>"
  shows "page_flags t = page_flags s" and "only_pages s t"
proof -
  have "user_page_vaddrs t = user_page_vaddrs s" "user_page_flags t = user_page_flags s"
    "user_page_count t = user_page_count s"
    by (subst assms, simp)+
  moreover from this show "page_flags t = page_flags s"
    by (simp add: fun_eq_iff page_flags_def slot_of_def)
  ultimately show "only_pages s t" using assms by (simp add: only_pages_def)
qed

lemma mask_page: "v AND 0xfffff000 = page_of v" "v - page_of v = page_off v"
  using page_split [of v] by (simp_all add: page_of_def diff_eq_eq add.commute)

lemma write_user_range_spec:
  assumes "pages_ok s" and "\<And>v. in_range a len v \<Longrightarrow> page_flags s (page_of v) \<noteq> None"
    and "source_ok img base src len"
  shows "\<exists>t. write_user_range img base a src len s = (Done True, t) \<and> pages_ok t
    \<and> t = s\<lparr>user_image_pages := user_image_pages t\<rparr>
    \<and> user_byte t = (\<lambda>v. if in_range a len v then source_byte img base src (v - a) else user_byte s v)"
  using assms
proof (induction "unat len" arbitrary: s a src len rule: less_induct)
  case less
  show ?case
  proof (cases "len = 0")
    case True
    with less.prems show ?thesis by (simp add: write_user_range.simps ret_def in_range_def)
  next
    case False
    let ?c = "chunk_size a len"
    note cb = chunk_size_bounds [OF False, of a]
    have cl: "?c \<le> len" using cb(2) by (simp add: word_le_nat_alt)
    have "in_range a len a" using False by (simp add: in_range_def word_gt_0)
    from less.prems(2) [OF this] obtain i where i: "slot_of s (page_of a) = Some i"
      by (auto simp: page_flags_def)
    have st: "statics_ok s" using less.prems(1) by (simp add: pages_ok_def)
    obtain u where u: "(case src of
        None \<Rightarrow> hello_zero_bytes (user_page_window (word_of_int (int i)) (page_off a)) ?c
      | Some p \<Rightarrow> hello_copy_bytes (user_page_window (word_of_int (int i)) (page_off a))
          (image_byte img base p) ?c) s = (Done (), u)"
      "pages_ok u" "u = s\<lparr>user_image_pages := user_image_pages u\<rparr>"
      "user_byte u = (\<lambda>v. if in_range a ?c v then source_byte img base src (v - a) else user_byte s v)"
      using write_chunk [OF less.prems(1) i cb(3) source_ok_part(1) [OF less.prems(3) cl]] by blast
    let ?src = "map_option (\<lambda>p. p + ?c) src"
    have run: "write_user_range img base a src len s =
        write_user_range img base (a + ?c) ?src (len - ?c) u"
      using False page_lookup [OF st, of "page_of a" 0] i u(1)
      unfolding write_user_range.simps [of img base a] Let_def mask_page by (simp add: bind_Done)
    have pages: "page_flags u (page_of v) \<noteq> None" if "in_range (a + ?c) (len - ?c) v" for v
      using less.prems(2) [of v] split_range(1) [OF cl, of a v] that same_pages(1) [OF u(3)] by simp
    obtain t where t: "write_user_range img base (a + ?c) ?src (len - ?c) u = (Done True, t)"
      "pages_ok t" "t = u\<lparr>user_image_pages := user_image_pages t\<rparr>"
      "user_byte t = (\<lambda>v. if in_range (a + ?c) (len - ?c) v
         then source_byte img base ?src (v - (a + ?c)) else user_byte u v)"
      using less.hyps [OF chunk_progress [OF False] u(2) pages source_ok_part(2) [OF less.prems(3) cl]]
      by blast
    have "user_byte t = (\<lambda>v. if in_range a len v then source_byte img base src (v - a) else user_byte s v)"
      unfolding t(4) u(4) source_byte_shift split_range(1) [OF cl] by (rule ext) simp
    moreover have "t = s\<lparr>user_image_pages := user_image_pages t\<rparr>"
      by (subst t(3), subst u(3)) simp
    ultimately show ?thesis using run t(1,2) by auto
  qed
qed

end
