(* ===== verification/HelloModule.thy ===== *)
theory HelloModule
  imports HelloLoad
begin

text \<open>
  The module loader of the example kernel (\<open>load_segment\<close>, \<open>load_segments\<close>,
  \<open>load_user_module\<close>): when it accepts a module, the memory the user gets, and the page table
  it builds. The segment loop is the second instance of the contract \<open>segment_loader\<close>, whose
  first is the Boot ROM.
\<close>

section \<open>Segments of a user module\<close>

text \<open>The segments the loader accepts, and the pages and flags of one.\<close>

definition user_segment_ok :: "minemu_boot_info \<Rightarrow> minemu_module_segment \<Rightarrow> bool" where
  "user_segment_ok bi g \<longleftrightarrow>
     ms_memory_size g \<noteq> 0 \<and> ms_file_size g \<le> ms_memory_size g
     \<and> ms_flags g AND NOT 7 = 0
     \<and> (ms_flags g AND 4 \<noteq> 0 \<longrightarrow> ms_flags g AND 1 \<noteq> 0)
     \<and> 0x00400000 \<le> ms_virtual_address g \<and> ms_virtual_address g < 0x007ff000
     \<and> ms_memory_size g \<le> 0x007ff000 - ms_virtual_address g
     \<and> image_range_valid (ms_data_offset g) (ms_file_size g) (bi_image_size bi)"

definition segment_pages :: "minemu_module_segment \<Rightarrow> u32 set" where
  "segment_pages g =
     pages_in (page_of (ms_virtual_address g)) (ms_virtual_address g + ms_memory_size g)"

abbreviation segment_pte :: "minemu_module_segment \<Rightarrow> u32" where
  "segment_pte g \<equiv> pte_flags_from_segment (ms_flags g)"

definition user_segment :: "u8 list \<Rightarrow> minemu_boot_info \<Rightarrow> minemu_module_segment \<Rightarrow> segment" where
  "user_segment img bi g =
     \<lparr> seg_dest = ms_virtual_address g, seg_file = ms_file_size g, seg_mem = ms_memory_size g,
       seg_data = (\<lambda>k. image_mem img (bi_system_rom_base bi)
         (bi_system_rom_base bi + ms_data_offset g + k)) \<rparr>"

definition makes_entry :: "minemu_module_record \<Rightarrow> minemu_module_segment \<Rightarrow> bool" where
  "makes_entry m g \<longleftrightarrow>
     ms_flags g AND 4 \<noteq> 0 \<and> 4 \<le> ms_file_size g \<and> ms_virtual_address g \<le> mr_entry_vaddr m
     \<and> mr_entry_vaddr m - ms_virtual_address g \<le> ms_file_size g - 4"

text \<open>The table of the module, and the page map its segments make, if they all fit.\<close>

definition module_segments :: "u8 list \<Rightarrow> minemu_boot_info \<Rightarrow> minemu_module_record
    \<Rightarrow> minemu_module_segment list" where
  "module_segments img bi m =
     map (\<lambda>i. module_segment_at (image_mem img (bi_system_rom_base bi))
           (bi_system_rom_base bi + mr_segment_table_offset m + 32 * of_nat i))
       [0..<unat (mr_segment_count m)]"

fun layout :: "minemu_boot_info \<Rightarrow> (u32 \<rightharpoonup> u32) \<Rightarrow> minemu_module_segment list \<Rightarrow> (u32 \<rightharpoonup> u32) option" where
  "layout bi M [] = Some M"
| "layout bi M (g # gs) =
     (if user_segment_ok bi g \<and> fits M (segment_pte g) (segment_pages g)
      then layout bi (enter_pages M (segment_pte g) (segment_pages g)) gs else None)"

section \<open>One segment\<close>

lemma user_range:
  assumes "user_segment_ok bi g"
  shows "unat (ms_virtual_address g + ms_memory_size g)
      = unat (ms_virtual_address g) + unat (ms_memory_size g)"
    and "unat (ms_virtual_address g) + unat (ms_memory_size g) \<le> 0x7ff000"
    and "no_wrap (ms_virtual_address g) (ms_memory_size g)"
proof -
  have lt: "ms_virtual_address g < 0x007ff000"
    and le: "ms_memory_size g \<le> 0x007ff000 - ms_virtual_address g"
    using assms by (simp_all add: user_segment_ok_def)
  have "unat (0x007ff000 - ms_virtual_address g) = 0x7ff000 - unat (ms_virtual_address g)"
    using lt by (subst unat_sub_u32) (auto simp: word_less_nat_alt word_le_nat_alt)
  with le lt show *: "unat (ms_virtual_address g) + unat (ms_memory_size g) \<le> 0x7ff000"
    by (simp add: word_le_nat_alt word_less_nat_alt)
  then show "unat (ms_virtual_address g + ms_memory_size g)
      = unat (ms_virtual_address g) + unat (ms_memory_size g)"
    by (intro unat_add_u32) simp
  show "no_wrap (ms_virtual_address g) (ms_memory_size g)" using * by (simp add: no_wrap_def)
qed

lemma page_of_mono: "a \<le> b \<Longrightarrow> page_of a \<le> page_of b"
  by (simp add: word_le_nat_alt unat_page_of div_le_mono)

lemma page_of_le: "page_of a \<le> a"
  by (simp add: word_le_nat_alt unat_page_of)

lemma range_pages:
  assumes "user_segment_ok bi g" and "in_range (ms_virtual_address g) (ms_memory_size g) v"
  shows "page_of v \<in> segment_pages g"
proof -
  from in_range_no_wrap [OF user_range(3) [OF assms(1)], of v] assms(2)
  have v: "ms_virtual_address g \<le> v" "v < ms_virtual_address g + ms_memory_size g"
    by (simp_all add: word_le_nat_alt word_less_nat_alt user_range(1) [OF assms(1)])
  with page_of_mono [OF v(1)] page_of_le [of v] show ?thesis
    by (auto simp: segment_pages_def pages_in_def)
qed

lemma image_range_source:
  assumes "image_range_valid off len isz" and "unat isz \<le> length img"
  shows "source_ok img base (Some (base + off)) len"
proof -
  have le: "off \<le> isz" "len \<le> isz - off" using assms(1) by (simp_all add: image_range_valid_def)
  have "unat (off + k) < length img" if "k < len" for k
  proof -
    have "k < isz - off" using that le by simp
    then have "off + k < isz"
      using sub_less_sub [OF le(1), of "off + k"] by simp
    then show ?thesis using assms(2) by (simp add: word_less_nat_alt)
  qed
  then show ?thesis by (simp add: source_ok_def algebra_simps)
qed

lemma overlay_writes:
  assumes "user_segment_ok bi g"
  shows "(\<lambda>v. if in_range (ms_virtual_address g) (ms_file_size g) v
      then source_byte img (bi_system_rom_base bi)
        (Some (bi_system_rom_base bi + ms_data_offset g)) (v - ms_virtual_address g)
      else if in_range (ms_virtual_address g) (ms_memory_size g) v then 0 else f v)
    = overlay (user_segment img bi g) f"
proof -
  have "ms_file_size g \<le> ms_memory_size g" using assms by (simp add: user_segment_ok_def)
  then show ?thesis
    by (auto simp: fun_eq_iff overlay_def user_segment_def source_byte_def in_range_def)
qed

lemma source_byte_None: "source_byte img base None k = 0"
  by (simp add: source_byte_def)

lemma load_segment_spec:
  assumes ok: "pages_ok s" and size: "unat (bi_image_size bi) \<le> length img"
  shows "\<exists>t. load_segment img bi m g s =
      (Done (if user_segment_ok bi g \<and> fits (page_flags s) (segment_pte g) (segment_pages g)
             then Some (makes_entry m g) else None), t)
    \<and> pages_ok t \<and> only_pages s t
    \<and> (user_segment_ok bi g \<and> fits (page_flags s) (segment_pte g) (segment_pages g) \<longrightarrow>
        page_flags t = enter_pages (page_flags s) (segment_pte g) (segment_pages g)
        \<and> user_byte t = overlay (user_segment img bi g) (user_byte s))"
proof (cases "user_segment_ok bi g")
  case False
  then show ?thesis
    using ok by (auto simp: load_segment_def ret_def user_segment_ok_def not_le not_less)
next
  case True
  let ?a = "ms_virtual_address g" and ?f = "segment_pte g" and ?base = "bi_system_rom_base bi"
  have end': "?a + ms_memory_size g \<le> 0xfffff000"
    using user_range(1,2) [OF True] by (simp add: word_le_nat_alt)
  obtain u where u: "prepare_user_range ?a (ms_memory_size g) ?f s =
        (Done (fits (page_flags s) ?f (segment_pages g)), u)" "pages_ok u" "only_pages s u"
      "user_byte u = user_byte s"
      "fits (page_flags s) ?f (segment_pages g) \<longrightarrow>
         page_flags u = enter_pages (page_flags s) ?f (segment_pages g)"
    using prepare_pages_spec [OF ok page_of_page_of end', where V = "{}" and fuel = 17 and f = ?f]
    by (auto simp: prepare_user_range_def segment_pages_def page_of_def)
  have seg: "load_segment img bi m g s = bind (prepare_user_range ?a (ms_memory_size g) ?f)
          (\<lambda>prepared. if \<not> prepared then ret None else
        bind (write_user_range img ?base ?a None (ms_memory_size g))
          (\<lambda>cleared. if \<not> cleared then ret None else
        bind (write_user_range img ?base ?a (Some (?base + ms_data_offset g)) (ms_file_size g))
          (\<lambda>written. if \<not> written then ret None else ret (Some (makes_entry m g))))) s"
    using True unfolding load_segment_def user_segment_ok_def makes_entry_def Let_def by auto
  show ?thesis
  proof (cases "fits (page_flags s) ?f (segment_pages g)")
    case False
    then show ?thesis using u unfolding seg by (auto simp: bind_Done ret_def)
  next
    case fit: True
    have pg: "page_flags u (page_of v) \<noteq> None" if "in_range ?a (ms_memory_size g) v" for v
      using range_pages [OF True that] u(5) fit by (simp add: enter_pages_def)
    have "source_ok img ?base None (ms_memory_size g)" by (simp add: source_ok_def)
    from write_user_range_spec [where a = ?a and len = "ms_memory_size g", OF u(2) pg this, unfolded source_byte_None] obtain w where
      w: "write_user_range img ?base ?a None (ms_memory_size g) u = (Done True, w)" "pages_ok w"
        "w = u\<lparr>user_image_pages := user_image_pages w\<rparr>"
        "user_byte w = (\<lambda>v. if in_range ?a (ms_memory_size g) v then 0 else user_byte u v)"
      by blast
    have fm: "ms_file_size g \<le> ms_memory_size g"
      and rng: "image_range_valid (ms_data_offset g) (ms_file_size g) (bi_image_size bi)"
      using True by (simp_all add: user_segment_ok_def)
    have pg': "page_flags w (page_of v) \<noteq> None" if "in_range ?a (ms_file_size g) v" for v
      using pg [of v] that fm same_pages(1) [OF w(3)] by (simp add: in_range_def)
    from write_user_range_spec [OF w(2) pg' image_range_source [OF rng size]] obtain t where
      t: "write_user_range img ?base ?a (Some (?base + ms_data_offset g)) (ms_file_size g) w =
          (Done True, t)" "pages_ok t" "t = w\<lparr>user_image_pages := user_image_pages t\<rparr>"
        "user_byte t = (\<lambda>v. if in_range ?a (ms_file_size g) v
          then source_byte img ?base (Some (?base + ms_data_offset g)) (v - ?a) else user_byte w v)"
      by blast
    have "user_byte t = overlay (user_segment img bi g) (user_byte s)"
      unfolding t(4) w(4) u(4) by (rule overlay_writes [OF True])
    moreover have "page_flags t = enter_pages (page_flags s) ?f (segment_pages g)"
      using same_pages(1) [OF t(3)] same_pages(1) [OF w(3)] u(5) fit by simp
    moreover have "only_pages s t"
      using u(3) same_pages(2) [OF w(3)] same_pages(2) [OF t(3)] by (meson only_pages_trans)
    moreover have "load_segment img bi m g s = (Done (Some (makes_entry m g)), t)"
      unfolding seg using u(1) w(1) t(1) fit by (simp add: bind_Done ret_def)
    ultimately show ?thesis using True fit t(2) by auto
  qed
qed

section \<open>The segment table\<close>

lemma records_in_image:
  assumes "image_records_valid off count isz" and "unat isz \<le> length img" and "i < unat count"
  shows "unat (base + off + 32 * of_nat i - base) + 32 \<le> length img"
proof -
  have off: "off \<le> isz" and cnt: "count \<le> drop_bit 5 (isz - off)"
    using assms(1) by (simp_all add: image_records_valid_def)
  have "unat count \<le> (unat isz - unat off) div 32"
    using cnt unat_sub_u32 [OF off] by (simp add: word_le_nat_alt drop_bit_eq_div unat_div_distrib)
  then have le: "32 * (unat count) \<le> unat isz - unat off" by linarith
  have offn: "unat off \<le> unat isz" using off by (simp add: word_le_nat_alt)
  have "unat (32 * of_nat i :: u32) = 32 * i"
  proof -
    have "32 * i < 4294967296" using le assms(3) unat_u32_bound [of isz] by linarith
    then have "unat (of_nat (32 * i) :: u32) = 32 * i" by (subst unat_of_nat) simp
    then show ?thesis by (simp only: of_nat_mult of_nat_numeral)
  qed
  moreover from this have "unat (off + 32 * of_nat i) = unat off + 32 * i"
    using le offn assms(3) unat_u32_bound [of isz] by (subst unat_add_u32) simp_all
  moreover have "base + off + 32 * of_nat i - base = off + 32 * of_nat i" by simp
  ultimately show ?thesis using le offn assms(2,3) by (simp only:)
qed

lemma layout_bounds:
  "layout bi M gs = Some F \<Longrightarrow> card (dom M) \<le> 16 \<Longrightarrow> M \<subseteq>\<^sub>m F \<and> card (dom F) \<le> 16"
proof (induction gs arbitrary: M)
  case Nil
  then show ?case by simp
next
  case (Cons g gs)
  let ?N = "enter_pages M (segment_pte g) (segment_pages g)"
  have fit: "fits M (segment_pte g) (segment_pages g)" and lay: "layout bi ?N gs = Some F"
    using Cons.prems(1) by (auto split: if_splits)
  have "dom ?N = dom M \<union> segment_pages g" by (auto simp: enter_pages_def)
  then have "card (dom ?N) \<le> 16" using fit by (simp add: fits_def)
  moreover have "M \<subseteq>\<^sub>m ?N" using fit by (auto simp: fits_def enter_pages_def map_le_def)
  ultimately show ?case using Cons.IH [OF lay] map_le_trans by blast
qed

lemma layout_agrees:
  "layout bi M gs = Some F \<Longrightarrow> g \<in> set gs \<Longrightarrow>
     user_segment_ok bi g \<and> (\<forall>p \<in> segment_pages g. F p = Some (segment_pte g))"
proof (induction gs arbitrary: M)
  case Nil
  then show ?case by simp
next
  case (Cons h gs)
  let ?N = "enter_pages M (segment_pte h) (segment_pages h)"
  have ok: "user_segment_ok bi h" and fit: "fits M (segment_pte h) (segment_pages h)"
    and lay: "layout bi ?N gs = Some F"
    using Cons.prems(1) by (auto split: if_splits)
  show ?case
  proof (cases "g = h")
    case False
    with Cons.IH [OF lay] Cons.prems(2) show ?thesis by simp
  next
    case True
    have "dom ?N = dom M \<union> segment_pages h" by (auto simp: enter_pages_def)
    then have "?N \<subseteq>\<^sub>m F" using layout_bounds [OF lay] fit by (simp add: fits_def)
    then have "F p = Some (segment_pte h)" if "p \<in> segment_pages h" for p
    proof -
      have "?N p = Some (segment_pte h)" using that by (simp add: enter_pages_def)
      moreover from this have "p \<in> dom ?N" by (rule domI)
      ultimately show ?thesis using \<open>?N \<subseteq>\<^sub>m F\<close> unfolding map_le_def by (metis (no_types))
    qed
    with ok True show ?thesis by simp
  qed
qed

text \<open>
  Loading a segment is a step of a segment loader: given the page map \<open>F\<close> of the whole module,
  every segment of the module stays loadable whatever others were loaded before it.
\<close>

definition segment_ready ::
    "u8 list \<Rightarrow> minemu_boot_info \<Rightarrow> (u32 \<rightharpoonup> u32) \<Rightarrow> minemu_module_segment
      \<Rightarrow> ('d, 'z) hello_state_scheme \<Rightarrow> bool" where
  "segment_ready img bi F g s \<longleftrightarrow>
     unat (bi_image_size bi) \<le> length img \<and> pages_ok s \<and> page_flags s \<subseteq>\<^sub>m F \<and> card (dom F) \<le> 16
     \<and> user_segment_ok bi g \<and> (\<forall>p \<in> segment_pages g. F p = Some (segment_pte g))"

lemma ready_fits:
  assumes "segment_ready img bi F g s"
  shows "fits (page_flags s) (segment_pte g) (segment_pages g)"
    and "enter_pages (page_flags s) (segment_pte g) (segment_pages g) \<subseteq>\<^sub>m F"
proof -
  have le: "page_flags s \<subseteq>\<^sub>m F" and ag: "\<forall>p \<in> segment_pages g. F p = Some (segment_pte g)"
    and c: "card (dom F) \<le> 16"
    using assms by (simp_all add: segment_ready_def)
  have "page_flags s p = None \<or> page_flags s p = Some (segment_pte g)" if "p \<in> segment_pages g" for p
    using le ag that by (metis domIff map_le_def)
  moreover have "card (dom (page_flags s) \<union> segment_pages g) \<le> card (dom F)"
    using map_le_implies_dom_le [OF le] ag by (intro card_mono) auto
  ultimately show "fits (page_flags s) (segment_pte g) (segment_pages g)"
    using c by (simp add: fits_def)
  show "enter_pages (page_flags s) (segment_pte g) (segment_pages g) \<subseteq>\<^sub>m F"
    using le ag by (auto simp: map_le_def enter_pages_def split: if_splits)
qed

interpretation user: segment_loader
  "\<lambda>g s. snd (load_segment img bi m g s)" user_byte "user_segment img bi" "segment_ready img bi F"
  for img bi m F
proof
  fix g h and s :: "('a, 'b) hello_state_scheme"
  assume r: "segment_ready img bi F g s"
  then have ok: "pages_ok s" and size: "unat (bi_image_size bi) \<le> length img"
    and seg: "user_segment_ok bi g"
    by (simp_all add: segment_ready_def)
  from load_segment_spec [OF ok size, of m g] seg ready_fits(1) [OF r] obtain t where
    t: "load_segment img bi m g s = (Done (Some (makes_entry m g)), t)" "pages_ok t"
      "page_flags t = enter_pages (page_flags s) (segment_pte g) (segment_pages g)"
      "user_byte t = overlay (user_segment img bi g) (user_byte s)" by auto
  then show "user_byte (snd (load_segment img bi m g s)) = overlay (user_segment img bi g) (user_byte s)"
    by simp
  assume "segment_ready img bi F h s"
  then show "segment_ready img bi F h (snd (load_segment img bi m g s))"
    using t ready_fits(2) [OF r] by (simp add: segment_ready_def)
qed

text \<open>The whole table: the loop accepts it exactly when it has a layout.\<close>

lemma load_segments_spec:
  assumes "pages_ok s" and "unat (bi_image_size bi) \<le> length img"
    and "\<And>i. i < unat (mr_segment_count m) \<Longrightarrow>
      unat (segs + 32 * of_nat i - bi_system_rom_base bi) + 32 \<le> length img"
  defines "gs \<equiv> \<lambda>k. map (\<lambda>i. module_segment_at (image_mem img (bi_system_rom_base bi)) (segs + 32 * of_nat i))
      [unat (k :: u32)..<unat (mr_segment_count m)]"
  shows "\<exists>t. load_segments img bi m segs k e s =
      (Done (map_option (\<lambda>_. e \<or> list_ex (makes_entry m) (gs k)) (layout bi (page_flags s) (gs k))), t)
    \<and> pages_ok t \<and> only_pages s t
    \<and> (\<forall>F. layout bi (page_flags s) (gs k) = Some F \<longrightarrow>
        page_flags t = F \<and> t = fold (\<lambda>g s. snd (load_segment img bi m g s)) (gs k) s)"
  using assms(1)
proof (induction "unat (mr_segment_count m - k)" arbitrary: k e s rule: less_induct)
  case less
  let ?n = "mr_segment_count m"
  show ?case
  proof (cases "k < ?n")
    case False
    then have "gs k = []" by (simp add: gs_def word_less_nat_alt)
    with False less.prems show ?thesis by (simp add: load_segments.simps ret_def)
  next
    case True
    let ?g = "module_segment_at (image_mem img (bi_system_rom_base bi)) (segs + 32 * k)"
    have gk: "gs k = ?g # gs (k + 1)"
      using True unat_Suc_u32 [OF True] unfolding gs_def
      by (simp add: word_less_nat_alt upt_conv_Cons)
    have rec: "image_record img (bi_system_rom_base bi) module_segment_at (segs + 32 * k) s = (Done ?g, s)"
      using assms(3) [of "unat k"] True by (simp add: image_record_def word_less_nat_alt)
    let ?fit = "user_segment_ok bi ?g \<and> fits (page_flags s) (segment_pte ?g) (segment_pages ?g)"
    obtain u where u: "load_segment img bi m ?g s = (Done (if ?fit then Some (makes_entry m ?g) else None), u)"
      "pages_ok u" "only_pages s u"
      "?fit \<longrightarrow> page_flags u = enter_pages (page_flags s) (segment_pte ?g) (segment_pages ?g)"
      using load_segment_spec [OF less.prems assms(2), of m ?g] by blast
    show ?thesis
    proof (cases ?fit)
      case False
      with True rec u show ?thesis
        by (auto simp: load_segments.simps [of img bi m segs k] bind_Done ret_def gk)
    next
      case fit: True
      have "unat (?n - (k + 1)) < unat (?n - k)" using True by (rule loop_measure_u32)
      from less.hyps [OF this u(2), of "e \<or> makes_entry m ?g"] obtain t where
        t: "load_segments img bi m segs (k + 1) (e \<or> makes_entry m ?g) u =
          (Done (map_option (\<lambda>_. (e \<or> makes_entry m ?g) \<or> list_ex (makes_entry m) (gs (k + 1)))
            (layout bi (page_flags u) (gs (k + 1)))), t)" "pages_ok t" "only_pages u t"
          "\<forall>F. layout bi (page_flags u) (gs (k + 1)) = Some F \<longrightarrow> page_flags t = F
            \<and> t = fold (\<lambda>g s. snd (load_segment img bi m g s)) (gs (k + 1)) u" by blast
      have run: "load_segments img bi m segs k e s =
          load_segments img bi m segs (k + 1) (e \<or> makes_entry m ?g) u"
        using True rec u(1) fit by (simp add: load_segments.simps [of img bi m segs k] bind_Done)
      have lay: "layout bi (page_flags s) (gs k) = layout bi (page_flags u) (gs (k + 1))"
        using fit u(4) by (simp add: gk)
      have "only_pages s t" using u(3) t(3) by (rule only_pages_trans)
      moreover have "fold (\<lambda>g s. snd (load_segment img bi m g s)) (gs k) s =
          fold (\<lambda>g s. snd (load_segment img bi m g s)) (gs (k + 1)) u"
        by (simp add: gk u(1))
      moreover have "(e \<or> list_ex (makes_entry m) (gs k)) =
          ((e \<or> makes_entry m ?g) \<or> list_ex (makes_entry m) (gs (k + 1)))"
        by (simp add: gk)
      ultimately show ?thesis using t(1,2,4) unfolding run lay by auto
    qed
  qed
qed

section \<open>The user page table\<close>

definition user_page :: "u32 \<Rightarrow> bool" where
  "user_page p \<longleftrightarrow> page_of p = p \<and> 0x00400000 \<le> p \<and> p < 0x007ff000"

lemma segment_pages_user:
  assumes "user_segment_ok bi g" and "p \<in> segment_pages g"
  shows "user_page p"
proof -
  have va: "(0x00400000 :: u32) \<le> ms_virtual_address g" using assms(1) by (simp add: user_segment_ok_def)
  then have "(0x00400000 :: u32) \<le> page_of (ms_virtual_address g)"
    using page_of_mono [OF va] by (simp add: page_of_def)
  moreover have "ms_virtual_address g + ms_memory_size g \<le> 0x007ff000"
    using user_range(1,2) [OF assms(1)] by (simp add: word_le_nat_alt)
  ultimately show ?thesis
    using assms(2) by (auto simp: segment_pages_def pages_in_def user_page_def)
qed

lemma layout_user_pages:
  "layout bi M gs = Some F \<Longrightarrow> (\<And>p. p \<in> dom M \<Longrightarrow> user_page p) \<Longrightarrow> p \<in> dom F \<Longrightarrow> user_page p"
proof (induction gs arbitrary: M)
  case Nil
  then show ?case by simp
next
  case (Cons g gs)
  let ?N = "enter_pages M (segment_pte g) (segment_pages g)"
  have ok: "user_segment_ok bi g" and lay: "layout bi ?N gs = Some F"
    using Cons.prems(1) by (auto split: if_splits)
  have "user_page q" if "q \<in> dom ?N" for q
    using that Cons.prems(2) [of q] segment_pages_user [OF ok, of q]
    by (auto simp: enter_pages_def dom_def split: if_splits)
  with Cons.IH [OF lay _ Cons.prems(3)] show ?case by blast
qed

text \<open>The page at an index of the table, and the index of a page.\<close>

definition table_page :: "nat \<Rightarrow> u32" where
  "table_page k = 0x00400000 + 4096 * of_nat k"

definition page_slot :: "u32 \<Rightarrow> nat" where
  "page_slot v = unat (drop_bit 12 v AND 1023)"

lemma page_slot_eq: "page_slot v = unat v div 4096 mod 1024"
proof -
  have "drop_bit 12 v AND 1023 = take_bit 10 (drop_bit 12 v)"
    by (simp add: take_bit_eq_mask mask_eq_exp_minus_1)
  then show ?thesis
    by (simp add: page_slot_def take_bit_eq_mod drop_bit_eq_div unat_mod_distrib unat_div_distrib)
qed

lemma page_slot_less: "page_slot v < 1024"
  by (simp add: page_slot_eq)

lemma unat_table_page: "k < 1024 \<Longrightarrow> unat (table_page k) = 4194304 + 4096 * k"
proof -
  assume k: "k < 1024"
  have "table_page k = of_nat (4194304 + 4096 * k)" by (simp add: table_page_def)
  moreover have "unat (of_nat (4194304 + 4096 * k) :: u32) = 4194304 + 4096 * k"
    using k by (subst unat_of_nat) simp
  ultimately show ?thesis by (simp only:)
qed

lemma table_page_slot: "k < 1024 \<Longrightarrow> page_slot (table_page k) = k"
  by (simp add: page_slot_eq unat_table_page)

lemma user_page_table_page: "user_page p \<Longrightarrow> table_page (page_slot p) = p"
proof -
  assume p: "user_page p"
  then have "unat p mod 4096 = 0" "4194304 \<le> unat p" "unat p < 8384512"
    by (simp_all add: user_page_def aligned_iff word_le_nat_alt word_less_nat_alt)
  moreover from this obtain q where q: "unat p = 4096 * q" by (metis mod_0_imp_dvd dvdE)
  ultimately have "1024 \<le> q" "q - 1024 < 1024" by simp_all
  moreover from this have "q mod 1024 = q - 1024" by (simp add: le_mod_geq)
  ultimately have "4194304 + 4096 * (unat p div 4096 mod 1024) = unat p" using q by simp
  then show ?thesis
    by (simp only: word_unat_eq_iff unat_table_page [OF page_slot_less]) (simp add: page_slot_eq)
qed

definition image_pte :: "hello_symbols \<Rightarrow> ('d, 'z) hello_state_scheme \<Rightarrow> nat \<Rightarrow> u32" where
  "image_pte syms s i = kernel_vaddr_to_paddr (sym_user_image_pages syms + of_nat i * 4096)
     OR 5 OR user_page_flags s ! i"

lemma map_pages:
  assumes ok: "pages_ok s" and user: "\<And>p. p \<in> dom (page_flags s) \<Longrightarrow> user_page p"
  shows "\<exists>T. for_cmd (map_user_page syms) 0 (user_page_count s) s = (Done None, s\<lparr>user_page_table := T\<rparr>)
    \<and> length T = 1024
    \<and> (\<forall>k < 1024. T ! k = (case slot_of s (table_page k) of
          Some i \<Rightarrow> image_pte syms s i | None \<Rightarrow> user_page_table s ! k))"
proof -
  let ?c = "user_page_count s"
  have st: "statics_ok s" using ok by (simp add: pages_ok_def)
  let ?I = "\<lambda>(j :: u32) t. \<exists>T. t = s\<lparr>user_page_table := T\<rparr> \<and> length T = 1024
    \<and> (\<forall>k < 1024. T ! k = (case slot_of s (table_page k) of
          Some i \<Rightarrow> if i < unat j then image_pte syms s i else user_page_table s ! k
        | None \<Rightarrow> user_page_table s ! k))"
  have "\<exists>t. for_cmd (map_user_page syms) 0 ?c s = (Done None, t) \<and> ?I ?c t"
  proof (rule for_cmd_total [where I = ?I])
    show "?I 0 s"
      using st by (intro exI [of _ "user_page_table s"]) (simp add: statics_ok_def split: option.splits)
  next
    fix j :: u32 and t
    assume j: "j < ?c" and "?I j t"
    then obtain T where t: "t = s\<lparr>user_page_table := T\<rparr>" and T: "length T = 1024"
      and inv: "\<And>k. k < 1024 \<Longrightarrow> T ! k = (case slot_of s (table_page k) of
          Some i \<Rightarrow> if i < unat j then image_pte syms s i else user_page_table s ! k
        | None \<Rightarrow> user_page_table s ! k)" by blast
    have jn: "unat j < unat ?c" using j by (simp add: word_less_nat_alt)
    with count_le [OF st] st have len: "unat j < length (user_page_vaddrs s)"
      "unat j < length (user_page_flags s)" "unat ?c \<le> length (user_page_vaddrs s)"
      by (auto simp: statics_ok_def)
    let ?v = "user_page_vaddrs s ! unat j"
    have slot: "slot_of s ?v = Some (unat j)"
      using ok jn len by (auto simp: slot_of_Some pages_ok_def distinct_conv_nth)
    then have up: "user_page ?v" by (intro user) (simp add: page_flags_def domI)
    let ?T = "T[page_slot ?v := image_pte syms s (unat j)]"
    have "map_user_page syms j t = (Done None, s\<lparr>user_page_table := ?T\<rparr>)"
      using t T len page_slot_less [of ?v]
      by (simp add: map_user_page_def cmd_simps image_pte_def page_slot_def ac_simps)
    moreover have "?T ! k = (case slot_of s (table_page k) of
          Some i \<Rightarrow> if i < unat (j + 1) then image_pte syms s i else user_page_table s ! k
        | None \<Rightarrow> user_page_table s ! k)" if k: "k < 1024" for k
    proof (cases "k = page_slot ?v")
      case True
      then show ?thesis
        using slot user_page_table_page [OF up] T page_slot_less [of ?v] unat_Suc_u32 [OF j] by simp
    next
      case False
      have "slot_of s (table_page k) \<noteq> Some (unat j)"
        using False table_page_slot [OF k] by (auto simp: slot_of_Some)
      then show ?thesis
        using inv [OF k] False unat_Suc_u32 [OF j] by (auto split: option.splits)
    qed
    ultimately show "\<exists>u. map_user_page syms j t = (Done None, u) \<and> ?I (j + 1) u"
      using T by (intro exI [of _ "s\<lparr>user_page_table := ?T\<rparr>"] conjI exI [of _ ?T]) auto
  qed simp_all
  then obtain T where T: "for_cmd (map_user_page syms) 0 ?c s = (Done None, s\<lparr>user_page_table := T\<rparr>)"
    "length T = 1024"
    "\<And>k. k < 1024 \<Longrightarrow> T ! k = (case slot_of s (table_page k) of
          Some i \<Rightarrow> if i < unat ?c then image_pte syms s i else user_page_table s ! k
        | None \<Rightarrow> user_page_table s ! k)" by blast
  moreover have "i < unat ?c" if "slot_of s p = Some i" for p i using that by (simp add: slot_of_Some)
  ultimately show ?thesis
    by (intro exI [of _ T]) (auto split: option.splits)
qed

section \<open>The whole module\<close>

text \<open>The modules the loader accepts, with the page map it gives them.\<close>

definition module_header_ok :: "minemu_boot_info \<Rightarrow> minemu_module_record \<Rightarrow> bool" where
  "module_header_ok bi m \<longleftrightarrow>
     mr_segment_count m \<noteq> 0
     \<and> image_records_valid (mr_segment_table_offset m) (mr_segment_count m) (bi_image_size bi)
     \<and> mr_entry_vaddr m AND 3 = 0"

definition module_layout :: "u8 list \<Rightarrow> minemu_boot_info \<Rightarrow> minemu_module_record \<Rightarrow> (u32 \<rightharpoonup> u32) option" where
  "module_layout img bi m =
     (if module_header_ok bi m \<and> list_ex (makes_entry m) (module_segments img bi m)
      then layout bi Map.empty (module_segments img bi m) else None)"

text \<open>The user memory a module stands for.\<close>

definition module_memory :: "u8 list \<Rightarrow> minemu_boot_info \<Rightarrow> minemu_module_record \<Rightarrow> mem" where
  "module_memory img bi m =
     fold overlay (map (user_segment img bi) (module_segments img bi m)) (\<lambda>_. 0)"

text \<open>The entry of the user page table at an index.\<close>

definition user_pte :: "hello_symbols \<Rightarrow> ('d, 'z) hello_state_scheme \<Rightarrow> nat \<Rightarrow> u32" where
  "user_pte syms s k =
     (if k = 1023 then kernel_vaddr_to_paddr (sym_user_stack syms) OR 0x17
      else case slot_of s (table_page k) of Some i \<Rightarrow> image_pte syms s i | None \<Rightarrow> 0)"

lemma only_pages_fields:
  assumes "only_pages s t"
  shows "page_directory t = page_directory s" "system_rom_tables t = system_rom_tables s"
    "user_page_table t = user_page_table s" "user_stack t = user_stack s" "dev t = dev s"
    "cpsr t = cpsr s" "io t = io s" "user_syscall_observed t = user_syscall_observed s"
  using assms by (cases s; cases t; simp add: only_pages_def)+

lemma module_segments_memory:
  assumes "pages_ok s" and "unat (bi_image_size bi) \<le> length img" and "page_flags s = Map.empty"
    and "layout bi Map.empty gs = Some F"
  shows "user_byte (fold (\<lambda>g s. snd (load_segment img bi m g s)) gs s) =
    fold overlay (map (user_segment img bi) gs) (user_byte s)"
proof (rule user.view_fold [where F = F])
  fix g assume "g \<in> set gs"
  with assms layout_agrees [OF assms(4)] layout_bounds [OF assms(4)]
  show "segment_ready img bi F g s" by (simp add: segment_ready_def)
qed

lemma start_state:
  assumes "statics_ok s"
  defines "t \<equiv> s\<lparr>user_page_table := replicate 1024 0, user_stack := replicate 4096 0, user_page_count := 0\<rparr>"
  shows "pages_ok t" "page_flags t = Map.empty" "user_byte t = (\<lambda>_. 0)"
proof -
  have none: "slot_of t p = None" for p by (simp add: slot_of_None t_def)
  show "page_flags t = Map.empty" "user_byte t = (\<lambda>_. 0)"
    by (simp_all add: fun_eq_iff page_flags_def user_byte_def none)
  show "pages_ok t" using assms(1) by (simp add: pages_ok_def statics_ok_def t_def)
qed

lemma clear_statics:
  assumes "statics_ok s"
  shows "hello_zero_bytes user_table_window 4096 s = (Done (), s\<lparr>user_page_table := replicate 1024 0\<rparr>)"
    and "hello_zero_bytes user_stack_window 4096 s = (Done (), s\<lparr>user_stack := replicate 4096 0\<rparr>)"
  using assms user_table.zero_window [where s = s and n = 4096]
    user_stack.zero_window [where s = s and n = 4096]
    bytes_words_zero [of 1024]
  by (simp_all add: statics_ok_def)

lemma table_indices:
  "drop_bit 12 (0x007ff000 :: u32) AND 1023 = 1023" "drop_bit 22 (0x00400000 :: u32) = 1"
  by (simp_all add: drop_bit_eq_div)

lemma tables_pages:
  fixes s :: "('d, 'z) hello_state_scheme"
  defines "t \<equiv> \<lambda>T D E. s\<lparr>user_page_table := T, page_directory := D, io := E\<rparr>"
  shows "slot_of (t T D E) = slot_of s" and "page_flags (t T D E) = page_flags s"
    and "user_byte (t T D E) = user_byte s" and "image_pte syms (t T D E) = image_pte syms s"
  by (simp_all add: fun_eq_iff page_flags_def user_byte_def image_pte_def slot_of_def t_def split: option.split)

lemma load_user_module_result:
  assumes st: "statics_ok s" and size: "unat (bi_image_size bi) \<le> length img"
  shows "case module_layout img bi m of
      None \<Rightarrow> \<exists>t. load_user_module syms img bi m s = (Done False, t) \<and> statics_ok t
        \<and> page_directory t = page_directory s \<and> io t = io s
    | Some F \<Rightarrow> \<exists>t. load_user_module syms img bi m s = (Done True, t) \<and> pages_ok t
        \<and> page_flags t = F \<and> user_byte t = module_memory img bi m
        \<and> user_stack t = replicate 4096 0
        \<and> user_page_table t = map (user_pte syms t) [0..<1024]
        \<and> page_directory t = (page_directory s)[1 := kernel_vaddr_to_paddr (sym_user_page_table syms) OR 1]
        \<and> io t = io s @ [DirectoryWrite 1 (kernel_vaddr_to_paddr (sym_user_page_table syms) OR 1),
                          TlbInvalidateAll]
        \<and> system_rom_tables t = system_rom_tables s
        \<and> user_syscall_observed t = user_syscall_observed s"
proof (cases "module_header_ok bi m")
  case False
  then show ?thesis
    using st by (auto simp: module_layout_def load_user_module_def ret_def module_header_ok_def)
next
  case hdr: True
  let ?gs = "module_segments img bi m" and ?segs = "bi_system_rom_base bi + mr_segment_table_offset m"
  let ?s0 = "s\<lparr>user_page_table := replicate 1024 0, user_stack := replicate 4096 0, user_page_count := 0\<rparr>"
  note s0 = start_state [OF st]
  have in_img: "unat (?segs + 32 * of_nat i - bi_system_rom_base bi) + 32 \<le> length img"
    if "i < unat (mr_segment_count m)" for i
    using records_in_image [OF _ size that] hdr by (simp add: module_header_ok_def)
  obtain u where u: "load_segments img bi m ?segs 0 False ?s0 =
        (Done (map_option (\<lambda>_. list_ex (makes_entry m) ?gs) (layout bi Map.empty ?gs)), u)"
      "pages_ok u" "only_pages ?s0 u"
      "\<And>F. layout bi Map.empty ?gs = Some F \<Longrightarrow>
        page_flags u = F \<and> u = fold (\<lambda>g s. snd (load_segment img bi m g s)) ?gs ?s0"
    using load_segments_spec [OF s0(1) size in_img, where k = 0 and e = False] s0(2)
    by (auto simp: module_segments_def)
  note uf = only_pages_fields [OF u(3)]
  have st1: "statics_ok (s\<lparr>user_page_table := replicate 1024 0\<rparr>)" using st by (simp add: statics_ok_def)
  note start = clear_statics(1) [OF st] clear_statics(2) [OF st1]
  show ?thesis
  proof (cases "module_layout img bi m")
    case None
    then have "map_option (\<lambda>_. list_ex (makes_entry m) ?gs) (layout bi Map.empty ?gs) \<in> {None, Some False}"
      using hdr by (auto simp: module_layout_def split: if_splits)
    then have "load_user_module syms img bi m s = (Done False, u)"
      using hdr u(1) start by (auto simp: load_user_module_def module_header_ok_def bind_Done cmd_simps)
    with None u(2) uf show ?thesis by (simp add: pages_ok_def)
  next
    case (Some F)
    then have lay: "layout bi Map.empty ?gs = Some F" and ent: "list_ex (makes_entry m) ?gs"
      by (simp_all add: module_layout_def split: if_splits)
    have uF: "page_flags u = F" using u(4) [OF lay] by blast
    have mem: "user_byte u = module_memory img bi m"
      using u(4) [OF lay] module_segments_memory [OF s0(1) size s0(2) lay, of m] s0(3)
      by (simp add: module_memory_def)
    have up: "user_page p" if "p \<in> dom (page_flags u)" for p
      using layout_user_pages [OF lay] that uF by auto
    obtain T where T: "for_cmd (map_user_page syms) 0 (user_page_count u) u =
        (Done None, u\<lparr>user_page_table := T\<rparr>)" "length T = 1024"
        "\<forall>k < 1024. T ! k = (case slot_of u (table_page k) of
          Some i \<Rightarrow> image_pte syms u i | None \<Rightarrow> user_page_table u ! k)"
      using map_pages [OF u(2) up, of syms] by blast
    have T3: "T ! k = (case slot_of u (table_page k) of Some i \<Rightarrow> image_pte syms u i | None \<Rightarrow> 0)"
      if "k < 1024" for k
      using T(3) that uf(3) by (simp split: option.splits)
    let ?pde = "kernel_vaddr_to_paddr (sym_user_page_table syms) OR 1"
    let ?stack = "kernel_vaddr_to_paddr (sym_user_stack syms) OR 0x17"
    let ?t = "u\<lparr>user_page_table := T[1023 := ?stack], page_directory := (page_directory s)[1 := ?pde],
        io := io s @ [DirectoryWrite 1 ?pde, TlbInvalidateAll]\<rparr>"
    have pd: "length (page_directory s) = 1024" using st by (simp add: statics_ok_def)
    have "bind (store_at user_page_table user_page_table_update 1023 ?stack) (\<lambda>_.
        bind (active_page_directory 1 ?pde) (\<lambda>_. bind minemu_mmu_tlbiall (\<lambda>_. ret True)))
      (u\<lparr>user_page_table := T\<rparr>) = (Done True, ?t)"
      using T(2) pd uf by (simp add: cmd_simps active_page_directory_def)
    with pd have run: "load_user_module syms img bi m s = (Done True, ?t)"
      using hdr u(1) start T(1,2) lay ent uf
      unfolding load_user_module_def table_indices
      by (simp add: module_header_ok_def bind_Done cmd_simps ac_simps active_page_directory_def)
    have table: "T[1023 := ?stack] = map (user_pte syms ?t) [0..<1024]"
    proof (rule nth_equalityI)
      fix k assume "k < length (T[1023 := ?stack])"
      then show "T[1023 := ?stack] ! k = map (user_pte syms ?t) [0..<1024] ! k"
        using T(2) T3 by (simp add: user_pte_def tables_pages nth_list_update del: upt.simps split: option.split)
    qed (simp add: T(2))
    have "pages_ok ?t" using u(2) st T(2) by (simp add: pages_ok_def statics_ok_def)
    then show ?thesis
      using Some run table mem uF uf by (auto intro!: exI [of _ ?t] simp: tables_pages)
  qed
qed

end
