(* ===== verification/HelloSpace.thy ===== *)
theory HelloSpace
  imports HelloModule
begin

text \<open>
  The address space of the user program: the bytes and the rights it gets through the page
  table that \<open>load_user_module\<close> builds, as the MMU walks it, against what the segments of the
  module ask for.
\<close>

section \<open>Frames and rights\<close>

lemma aligned_paddr: "page_of p = p \<Longrightarrow> page_of (kernel_vaddr_to_paddr p) = kernel_vaddr_to_paddr p"
proof -
  assume "page_of p = p"
  then obtain k where "p = 4096 * k" by (auto simp: aligned_multiple)
  then have "kernel_vaddr_to_paddr p = 4096 * (k - 0x80000)"
    by (simp add: kernel_vaddr_to_paddr_def algebra_simps)
  then show ?thesis unfolding aligned_multiple by blast
qed

lemma segment_pte_small: "page_of (pte_flags_from_segment f) = 0"
  by (auto simp: pte_flags_from_segment_def Let_def page_of_def)

text \<open>Every entry of a layout is of one of the segments.\<close>

lemma layout_rule:
  assumes "layout bi M gs = Some F"
    and "\<And>p f. M p = Some f \<Longrightarrow> P p f"
    and "\<And>g p. g \<in> set gs \<Longrightarrow> user_segment_ok bi g \<Longrightarrow> p \<in> segment_pages g \<Longrightarrow> P p (segment_pte g)"
    and "F p = Some f"
  shows "P p f"
  using assms
proof (induction gs arbitrary: M)
  case Nil
  then show ?case by simp
next
  case (Cons g gs)
  let ?N = "enter_pages M (segment_pte g) (segment_pages g)"
  have ok: "user_segment_ok bi g" and lay: "layout bi ?N gs = Some F"
    using Cons.prems(1) by (auto split: if_splits)
  have N: "P q h" if "?N q = Some h" for q h
    using that ok Cons.prems(2,3) by (auto simp: enter_pages_def split: if_splits)
  have gs: "P q (segment_pte h)" if "h \<in> set gs" "user_segment_ok bi h" "q \<in> segment_pages h" for h q
    using that Cons.prems(3) by simp
  show ?case by (rule Cons.IH [OF lay N gs Cons.prems(4)])
qed

section \<open>The walk\<close>

text \<open>
  What the linker promises of the arrays the page tables refer to: aligned to pages, as their
  \<^verbatim>\<open>aligned\<close> attributes ask, and apart.
\<close>

definition symbols_ok :: "hello_symbols \<Rightarrow> bool" where
  "symbols_ok syms \<longleftrightarrow>
     page_of (sym_user_image_pages syms) = sym_user_image_pages syms
     \<and> page_of (sym_user_stack syms) = sym_user_stack syms
     \<and> \<not> in_range (sym_user_image_pages syms) 0x10000 (sym_user_stack syms)"

text \<open>
  The byte at a physical address inside the two arrays, and the walk of the user page table for
  an address of its four megabytes: the byte, with the low bits of the entry. The walk from the
  page directory, over the whole address space, is \<open>user_view\<close> of HelloConfine, and agrees with
  this one where directory entry 1 refers to the table.
\<close>

definition frame_byte :: "hello_symbols \<Rightarrow> ('d, 'z) hello_state_scheme \<Rightarrow> u32 \<Rightarrow> u8 option" where
  "frame_byte syms s a =
     (let i = a - kernel_vaddr_to_paddr (sym_user_image_pages syms);
          j = a - kernel_vaddr_to_paddr (sym_user_stack syms) in
      if i < 0x10000 then Some (user_image_pages s ! (unat i div 4096) ! (unat i mod 4096))
      else if j < 0x1000 then Some (user_stack s ! unat j)
      else None)"

definition user_walk :: "hello_symbols \<Rightarrow> ('d, 'z) hello_state_scheme \<Rightarrow> u32 \<Rightarrow> (u8 option \<times> u32) option" where
  "user_walk syms s v =
     (let pte = user_page_table s ! page_slot v in
      if pte AND 1 = 0 then None
      else Some (frame_byte syms s (page_of pte + page_off v), page_off pte))"

lemma frame_byte_page:
  assumes "i < 16"
  shows "frame_byte syms s (kernel_vaddr_to_paddr (sym_user_image_pages syms + of_nat i * 4096) + page_off v)
    = Some (user_image_pages s ! i ! unat (page_off v))"
proof -
  have "unat (of_nat (i * 4096) :: u32) = i * 4096" using assms by (subst unat_of_nat) simp
  then have "unat (of_nat i * 4096 + page_off v) = i * 4096 + unat (page_off v)"
    using page_off_less [of v] assms by (subst unat_add_u32) simp_all
  moreover have eq: "kernel_vaddr_to_paddr (sym_user_image_pages syms + of_nat i * 4096) + page_off v
      - kernel_vaddr_to_paddr (sym_user_image_pages syms) = of_nat i * 4096 + page_off v"
    by (simp add: kernel_vaddr_to_paddr_def algebra_simps)
  ultimately show ?thesis
    unfolding frame_byte_def Let_def eq using assms page_off_less [of v]
    by (simp add: word_less_nat_alt)
qed

lemma frame_byte_stack:
  assumes "symbols_ok syms"
  shows "frame_byte syms s (kernel_vaddr_to_paddr (sym_user_stack syms) + page_off v)
    = Some (user_stack s ! unat (page_off v))"
proof -
  let ?d = "sym_user_stack syms - sym_user_image_pages syms"
  obtain j k where "sym_user_stack syms = 4096 * j" "sym_user_image_pages syms = 4096 * k"
    using assms unfolding symbols_ok_def aligned_multiple by blast
  then have "?d = 4096 * (j - k)" by (simp add: algebra_simps)
  then have "page_of ?d = ?d" unfolding aligned_multiple by blast
  then have al: "unat ?d mod 4096 = 0" by (simp only: aligned_iff)
  have "\<not> ?d < 0x10000" using assms by (simp add: symbols_ok_def in_range_def)
  then have ge: "65536 \<le> unat ?d" by (simp add: word_less_nat_alt)
  obtain q where "unat ?d = 4096 * q" using al by (auto elim: dvdE simp: dvd_eq_mod_eq_0 [symmetric])
  then have "unat ?d + 4096 \<le> 4294967296" using unat_u32_bound [of ?d] by simp
  then have "unat (?d + page_off v) = unat ?d + unat (page_off v)"
    using page_off_less [of v] by (intro unat_add_u32) simp
  moreover have eq: "kernel_vaddr_to_paddr (sym_user_stack syms) + page_off v
      - kernel_vaddr_to_paddr (sym_user_image_pages syms) = ?d + page_off v"
    by (simp add: kernel_vaddr_to_paddr_def algebra_simps)
  ultimately show ?thesis
    unfolding frame_byte_def Let_def eq using ge page_off_less [of v]
    by (simp add: word_less_nat_alt)
qed

lemma page_slot_page: "0x00400000 \<le> v \<Longrightarrow> v < 0x00800000 \<Longrightarrow> table_page (page_slot v) = page_of v"
proof -
  assume "0x00400000 \<le> v" "v < 0x00800000"
  then have v: "4194304 \<le> unat v" "unat v < 8388608" by (simp_all add: word_le_nat_alt word_less_nat_alt)
  then have "1024 \<le> unat v div 4096" "unat v div 4096 - 1024 < 1024" by simp_all
  then have "unat v div 4096 mod 1024 = unat v div 4096 - 1024" by (simp add: le_mod_geq)
  then show ?thesis
    using v by (simp only: word_unat_eq_iff unat_table_page [OF page_slot_less] unat_page_of) (simp add: page_slot_eq)
qed

text \<open>The walk through the table of the loader.\<close>

lemma user_walk_table:
  assumes sym: "symbols_ok syms" and ok: "pages_ok t"
    and table: "user_page_table t = map (user_pte syms t) [0..<1024]"
    and small: "\<And>p f. page_flags t p = Some f \<Longrightarrow> page_of f = 0"
    and v: "0x00400000 \<le> v" "v < 0x00800000"
  shows "user_walk syms t v =
    (if 0x007ff000 \<le> v then Some (Some (user_stack t ! unat (page_off v)), 0x17)
     else case page_flags t (page_of v) of
       Some f \<Rightarrow> Some (Some (user_byte t v), 5 OR f) | None \<Rightarrow> None)"
proof -
  have pte: "user_page_table t ! page_slot v = user_pte syms t (page_slot v)"
    using table page_slot_less [of v] by (simp del: upt.simps)
  have tp: "table_page (page_slot v) = page_of v" by (rule page_slot_page [OF v])
  have odd: "w AND 1 \<noteq> 0" if "bit w 0" for w :: u32
    using that mask_bit [of w 0] by simp
  show ?thesis
  proof (cases "0x007ff000 \<le> v")
    case True
    with v have "unat v div 4096 = 2047" by (simp add: word_le_nat_alt word_less_nat_alt)
    then have "page_slot v = 1023" by (simp add: page_slot_eq)
    then have w: "user_page_table t ! page_slot v = kernel_vaddr_to_paddr (sym_user_stack syms) OR 0x17"
      using pte by (simp add: user_pte_def)
    have "page_of (kernel_vaddr_to_paddr (sym_user_stack syms)) = kernel_vaddr_to_paddr (sym_user_stack syms)"
      using sym by (intro aligned_paddr) (simp add: symbols_ok_def)
    note parts = pte_parts [OF this, of "0x17"]
    have "page_of (0x17 :: u32) = 0" by (simp add: page_of_def)
    with True parts odd [of "kernel_vaddr_to_paddr (sym_user_stack syms) OR 0x17"] show ?thesis
      unfolding user_walk_def w Let_def by (simp add: frame_byte_stack [OF sym] bit_simps)
  next
    case False
    with v have "unat v div 4096 - 1024 < 1023" "1024 \<le> unat v div 4096"
      by (simp_all add: word_le_nat_alt word_less_nat_alt)
    then have "page_slot v \<noteq> 1023" by (simp add: page_slot_eq le_mod_geq)
    then have w: "user_page_table t ! page_slot v = (case slot_of t (page_of v) of
        Some i \<Rightarrow> image_pte syms t i | None \<Rightarrow> 0)"
      using pte tp by (simp add: user_pte_def)
    show ?thesis
    proof (cases "slot_of t (page_of v)")
      case None
      with False show ?thesis unfolding user_walk_def w by (simp add: page_flags_def)
    next
      case (Some i)
      let ?f = "user_page_flags t ! i"
      let ?a = "kernel_vaddr_to_paddr (sym_user_image_pages syms + of_nat i * 4096)"
      have fl: "page_flags t (page_of v) = Some ?f" using Some by (simp add: page_flags_def)
      have i: "i < 16" using Some ok count_le [of t] by (simp add: slot_of_Some pages_ok_def)
      have "page_of ?a = ?a"
        using sym aligned_add [of "sym_user_image_pages syms" "of_nat i"]
        by (intro aligned_paddr) (simp add: symbols_ok_def mult.commute)
      moreover have "page_of (5 OR ?f) = 0"
        using small [OF fl] by (simp add: page_of_or) (simp add: page_of_def)
      ultimately have parts: "page_of (?a OR 5 OR ?f) = ?a" "page_off (?a OR 5 OR ?f) = 5 OR ?f"
        using pte_parts [of ?a "5 OR ?f"] by (simp_all add: ac_simps)
      have byte: "user_byte t v = user_image_pages t ! i ! unat (page_off v)"
        using Some by (simp add: user_byte_def)
      show ?thesis
        using False Some fl parts byte odd [of "?a OR 5 OR ?f"] frame_byte_page [OF i, of syms t v]
        unfolding user_walk_def w Let_def by (simp add: image_pte_def bit_simps)
    qed
  qed
qed

section \<open>The address space of a loaded module\<close>

text \<open>What the user program sees at an address, given the page map of its module.\<close>

definition user_space ::
    "u8 list \<Rightarrow> minemu_boot_info \<Rightarrow> minemu_module_record \<Rightarrow> (u32 \<rightharpoonup> u32) \<Rightarrow> u32
      \<Rightarrow> (u8 option \<times> u32) option" where
  "user_space img bi m F v =
     (if 0x007ff000 \<le> v then Some (Some 0, 0x17)
      else case F (page_of v) of
        Some f \<Rightarrow> Some (Some (module_memory img bi m v), 5 OR f) | None \<Rightarrow> None)"

lemma module_layout_Some:
  assumes "module_layout img bi m = Some F"
  shows "layout bi Map.empty (module_segments img bi m) = Some F"
    and "list_ex (makes_entry m) (module_segments img bi m)"
    and "module_header_ok bi m"
  using assms by (simp_all add: module_layout_def split: if_splits)

lemma loaded_space:
  assumes st: "statics_ok s" and size: "unat (bi_image_size bi) \<le> length img"
    and sym: "symbols_ok syms" and lay: "module_layout img bi m = Some F"
  shows "\<exists>t. load_user_module syms img bi m s = (Done True, t) \<and> pages_ok t
    \<and> page_directory t = (page_directory s)[1 := kernel_vaddr_to_paddr (sym_user_page_table syms) OR 1]
    \<and> io t = io s @ [DirectoryWrite 1 (kernel_vaddr_to_paddr (sym_user_page_table syms) OR 1),
                     TlbInvalidateAll]
    \<and> system_rom_tables t = system_rom_tables s
    \<and> user_syscall_observed t = user_syscall_observed s
    \<and> (\<forall>v. 0x00400000 \<le> v \<longrightarrow> v < 0x00800000 \<longrightarrow> user_walk syms t v = user_space img bi m F v)"
proof -
  from load_user_module_result [OF st size, where m = m and syms = syms] lay obtain t where
    t: "load_user_module syms img bi m s = (Done True, t)" "pages_ok t" "page_flags t = F"
      "user_byte t = module_memory img bi m" "user_stack t = replicate 4096 0"
      "user_page_table t = map (user_pte syms t) [0..<1024]"
      "page_directory t = (page_directory s)[1 := kernel_vaddr_to_paddr (sym_user_page_table syms) OR 1]"
      "io t = io s @ [DirectoryWrite 1 (kernel_vaddr_to_paddr (sym_user_page_table syms) OR 1),
                     TlbInvalidateAll]"
      "system_rom_tables t = system_rom_tables s" "user_syscall_observed t = user_syscall_observed s"
    by auto
  have small: "page_of f = 0" if "page_flags t p = Some f" for p f
    using layout_rule [OF module_layout_Some(1) [OF lay], where P = "\<lambda>p f. page_of f = 0"]
      segment_pte_small that t(3) by auto
  have "user_walk syms t v = user_space img bi m F v" if "0x00400000 \<le> v" "v < 0x00800000" for v
    using user_walk_table [OF sym t(2,6) small that] t(3,4,5) page_off_less [of v]
    by (simp add: user_space_def cong: option.case_cong)
  then show ?thesis using t by blast
qed

text \<open>The entry point lies in an executable segment, with its instruction word.\<close>

lemma entry_in_segment:
  assumes ok: "user_segment_ok bi g" and ent: "makes_entry m g" and k: "k < 4"
  shows "in_range (ms_virtual_address g) (ms_memory_size g) (mr_entry_vaddr m + k)"
    and "mr_entry_vaddr m + k - ms_virtual_address g < ms_file_size g"
proof -
  let ?d = "mr_entry_vaddr m - ms_virtual_address g"
  have f4: "(4 :: u32) \<le> ms_file_size g" and d: "?d \<le> ms_file_size g - 4"
    using ent by (simp_all add: makes_entry_def)
  have "unat (ms_file_size g - 4) = unat (ms_file_size g) - 4" using unat_sub_u32 [OF f4] by simp
  then have un: "unat ?d + 4 \<le> unat (ms_file_size g)" using d f4 by (simp add: word_le_nat_alt)
  have k4: "unat k < 4" using k by (simp add: word_less_nat_alt)
  then have "unat (?d + k) = unat ?d + unat k"
    using un unat_u32_bound [of "ms_file_size g"] by (intro unat_add_u32) simp
  then have "?d + k < ms_file_size g" using un k4 by (simp add: word_less_nat_alt)
  moreover have "mr_entry_vaddr m + k - ms_virtual_address g = ?d + k" by simp
  ultimately show "mr_entry_vaddr m + k - ms_virtual_address g < ms_file_size g" by (simp only:)
  moreover have "ms_file_size g \<le> ms_memory_size g" using ok by (simp add: user_segment_ok_def)
  ultimately show "in_range (ms_virtual_address g) (ms_memory_size g) (mr_entry_vaddr m + k)"
    by (simp add: in_range_def)
qed

lemma segment_pte_bits:
  "bit (pte_flags_from_segment f) n \<longleftrightarrow>
     n = 4 \<and> bit f 0 \<or> n = 1 \<and> bit f 1 \<or> n = 3 \<and> bit f 2"
proof -
  have not_bit_0: "\<not> bit (0 :: u32) n" by simp
  have b: "f AND 1 \<noteq> 0 \<longleftrightarrow> bit f 0" "f AND 2 \<noteq> 0 \<longleftrightarrow> bit f 1" "f AND 4 \<noteq> 0 \<longleftrightarrow> bit f 2"
    using mask_bit [of f 0] mask_bit [of f 1] mask_bit [of f 2] by auto
  have "bit (push_bit k (1 :: u32)) n \<longleftrightarrow> n = k" if "k < 32" for k
    using that by (auto simp: bit_simps)
  from this [of 4] this [of 1] this [of 3]
  have p: "bit (16 :: u32) n \<longleftrightarrow> n = 4" "bit (2 :: u32) n \<longleftrightarrow> n = 1" "bit (8 :: u32) n \<longleftrightarrow> n = 3"
    by simp_all
  show ?thesis
    unfolding pte_flags_from_segment_def Let_def b
    by (cases "bit f 0"; cases "bit f 1"; cases "bit f 2";
        simp only: if_True if_False bit_or_iff p not_bit_0 simp_thms; blast?)
qed

lemma user_space_segment:
  assumes lay: "module_layout img bi m = Some F" and g: "g \<in> set (module_segments img bi m)"
    and v: "in_range (ms_virtual_address g) (ms_memory_size g) v"
  shows "0x00400000 \<le> v" and "v < 0x007ff000"
    and "user_space img bi m F v = Some (Some (module_memory img bi m v), 5 OR segment_pte g)"
proof -
  have ok: "user_segment_ok bi g" and F: "\<forall>p \<in> segment_pages g. F p = Some (segment_pte g)"
    using layout_agrees [OF module_layout_Some(1) [OF lay] g] by auto
  have "0x00400000 \<le> ms_virtual_address g" using ok by (simp add: user_segment_ok_def)
  moreover note in_range_no_wrap [OF user_range(3) [OF ok], of v] v user_range(2) [OF ok]
  ultimately show lo: "0x00400000 \<le> v" and hi: "v < 0x007ff000"
    by (simp_all add: word_le_nat_alt word_less_nat_alt)
  show "user_space img bi m F v = Some (Some (module_memory img bi m v), 5 OR segment_pte g)"
    using F range_pages [OF ok v] not_le [THEN iffD2, OF hi] by (simp add: user_space_def)
qed

text \<open>The same from the side of a successful call.\<close>

lemma loaded_module:
  assumes "statics_ok s" and "unat (bi_image_size bi) \<le> length img" and "symbols_ok syms"
    and run: "load_user_module syms img bi m s = (Done True, t)"
  obtains F where "module_layout img bi m = Some F"
    and "\<And>v. 0x00400000 \<le> v \<Longrightarrow> v < 0x00800000 \<Longrightarrow> user_walk syms t v = user_space img bi m F v"
proof (cases "module_layout img bi m")
  case None
  with load_user_module_result [OF assms(1,2), where m = m and syms = syms] run show ?thesis by auto
next
  case (Some F)
  with loaded_space [OF assms(1-3) Some] run show ?thesis by (auto intro: that)
qed

end
