(* ===== verification/HelloRom.thy ===== *)
theory HelloRom
  imports HelloModule
begin

text \<open>
  Two readers of the packed image in the example kernel: \<open>map_system_rom\<close>, which maps it, and
  \<open>find_module\<close>, which looks a module up in it.
\<close>

section \<open>Mapping the system ROM\<close>

text \<open>The handoff \<open>map_system_rom\<close> accepts, and the tables it builds.\<close>

definition rom_ok :: "minemu_boot_info \<Rightarrow> bool" where
  "rom_ok bi \<longleftrightarrow> bi_system_rom_base bi = 0x08000000 \<and> bi_image_size bi \<noteq> 0
     \<and> bi_image_size bi \<le> 0x01000000"

definition rom_pages :: "minemu_boot_info \<Rightarrow> nat" where
  "rom_pages bi = (unat (bi_image_size bi) + 4095) div 4096"

definition rom_tables :: "minemu_boot_info \<Rightarrow> nat" where
  "rom_tables bi = (rom_pages bi + 1023) div 1024"

definition rom_pte :: "nat \<Rightarrow> u32" where
  "rom_pte page = (0x08000000 + of_nat page * 4096) OR 0x11"

definition rom_table_for :: "minemu_boot_info \<Rightarrow> nat \<Rightarrow> u32 list" where
  "rom_table_for bi t =
     map (\<lambda>k. if 1024 * t + k < rom_pages bi then rom_pte (1024 * t + k) else 0) [0..<1024]"

definition rom_pde :: "hello_symbols \<Rightarrow> nat \<Rightarrow> u32" where
  "rom_pde syms t = kernel_vaddr_to_paddr (sym_system_rom_tables syms + of_nat t * 4096) OR 1"

lemma rom_counts:
  assumes "rom_ok bi"
  shows "unat ((bi_image_size bi + 4096 - 1) div 4096) = rom_pages bi"
    and "unat ((((bi_image_size bi + 4096 - 1) div 4096) + 1023) div 1024) = rom_tables bi"
    and "rom_tables bi \<le> 4" and "rom_pages bi \<le> 4096"
proof -
  have le: "unat (bi_image_size bi) \<le> 16777216" using assms by (simp add: rom_ok_def word_le_nat_alt)
  have eq: "bi_image_size bi + 4096 - 1 = bi_image_size bi + 4095" by simp
  have u: "unat (bi_image_size bi + 4095) = unat (bi_image_size bi) + 4095"
    using le by (subst unat_add_u32) simp_all
  show p: "unat ((bi_image_size bi + 4096 - 1) div 4096) = rom_pages bi"
    unfolding eq unat_div_distrib u by (simp add: rom_pages_def)
  show n: "rom_pages bi \<le> 4096" using le by (simp add: rom_pages_def)
  then show "rom_tables bi \<le> 4" by (simp add: rom_tables_def)
  have "unat ((bi_image_size bi + 4096 - 1) div 4096 + 1023) = rom_pages bi + 1023"
    using p n by (subst unat_add_u32) simp_all
  then show "unat ((((bi_image_size bi + 4096 - 1) div 4096) + 1023) div 1024) = rom_tables bi"
    by (simp add: rom_tables_def unat_div_distrib)
qed

text \<open>The inner loop fills one table.\<close>

lemma rom_fill:
  fixes s :: "('d, 'z) hello_state_scheme"
  assumes t: "unat table < length (system_rom_tables s)"
    and clear: "system_rom_tables s ! unat table = replicate 1024 0"
    and entries: "unat entries \<le> 1024"
  shows "for_cmd (\<lambda>index.
      bind (store_at (\<lambda>s. system_rom_tables s ! unat table)
              (\<lambda>f s. s\<lparr>system_rom_tables := (system_rom_tables s)[unat table :=
                          f (system_rom_tables s ! unat table)]\<rparr>) index (pte index)) (\<lambda>_.
      ret (None :: unit option))) 0 entries s =
    (Done None, s\<lparr>system_rom_tables := (system_rom_tables s)[unat table :=
        map (\<lambda>k. if k < unat entries then pte (of_nat k) else 0) [0..<1024]]\<rparr>)"
    (is "for_cmd ?body _ _ _ = _")
proof -
  let ?X = "\<lambda>n. map (\<lambda>k. if k < n then pte (of_nat k) else 0) [0..<1024]"
  let ?S = "\<lambda>n. s\<lparr>system_rom_tables := (system_rom_tables s)[unat table := ?X n]\<rparr>"
  let ?I = "\<lambda>(k :: u32) u. u = ?S (unat k)"
  have "\<exists>u. for_cmd ?body 0 entries s = (Done None, u) \<and> ?I entries u"
  proof (rule for_cmd_total [where I = ?I])
    have "?X 0 = replicate 1024 0" by (simp add: map_replicate_const del: upt.simps)
    then have "(system_rom_tables s)[unat table := ?X 0] = system_rom_tables s"
      using clear by (metis list_update_id)
    then show "?I 0 s" by (simp del: upt.simps)
  next
    fix k :: u32 and u
    assume k: "k < entries" and I: "?I k u"
    have k1: "unat k < 1024" using k entries by (simp add: word_less_nat_alt)
    have "(?X (unat k))[unat k := pte k] = ?X (Suc (unat k))"
      using k1 by (intro nth_equalityI) (auto simp: nth_list_update less_Suc_eq simp del: upt.simps)
    then show "\<exists>v. ?body k u = (Done None, v) \<and> ?I (k + 1) v"
      using I t k1 unat_Suc_u32 [OF k]
      by (simp add: bind_def store_at_def ret_def del: upt.simps)
  qed simp_all
  then show ?thesis by simp
qed

lemma rom_entries:
  assumes "rom_ok bi" and "unat table < rom_tables bi"
  defines "n \<equiv> (bi_image_size bi + 4096 - 1) div 4096"
  defines "entries \<equiv> (if n - table * 1024 < 1024 then n - table * 1024 else 1024)"
  shows "unat entries \<le> 1024"
    and "k < 1024 \<Longrightarrow> k < unat entries \<longleftrightarrow> 1024 * unat table + k < rom_pages bi"
    and "k < 1024 \<Longrightarrow> ((0x08000000 :: u32) + (table * 1024 + of_nat k) * 4096) OR 1 OR 16
      = rom_pte (1024 * unat table + k)"
proof -
  note c = rom_counts [OF assms(1)]
  have n: "unat n = rom_pages bi" using c(1) by (simp add: n_def)
  have tab: "unat table * 1024 < rom_pages bi" using assms(2) by (simp add: rom_tables_def)
  have "unat (table * 1024) = unat table * 1024"
    using tab c(4) by (simp add: unat_mult_lem [THEN iffD1])
  moreover from this have "table * 1024 \<le> n" using n tab by (simp add: word_le_nat_alt)
  ultimately have u: "unat (n - table * 1024) = rom_pages bi - unat table * 1024"
    using n by (simp add: unat_sub_u32)
  then show "unat entries \<le> 1024" by (simp add: entries_def word_less_nat_alt)
  show "k < 1024 \<Longrightarrow> k < unat entries \<longleftrightarrow> 1024 * unat table + k < rom_pages bi"
    using u tab by (auto simp: entries_def word_less_nat_alt)
  have "table * 1024 = (of_nat (1024 * unat table) :: u32)" by simp
  then show "((0x08000000 :: u32) + (table * 1024 + of_nat k) * 4096) OR 1 OR 16
      = rom_pte (1024 * unat table + k)"
    by (simp add: rom_pte_def)
qed

text \<open>The state once the first \<open>j\<close> tables are built and entered.\<close>

definition rom_mapped ::
    "hello_symbols \<Rightarrow> minemu_boot_info \<Rightarrow> nat \<Rightarrow> ('d, 'z) hello_state_scheme \<Rightarrow> ('d, 'z) hello_state_scheme" where
  "rom_mapped syms bi j s =
     s\<lparr>system_rom_tables := map (\<lambda>t. if t < j then rom_table_for bi t else system_rom_tables s ! t) [0..<4],
       page_directory := map (\<lambda>k. if 32 \<le> k \<and> k < 32 + j then rom_pde syms (k - 32)
                                  else page_directory s ! k) [0..<1024],
       io := io s @ map (\<lambda>t. DirectoryWrite (32 + of_nat t) (rom_pde syms t)) [0..<j]\<rparr>"

lemma rom_mapped_0: "statics_ok s \<Longrightarrow> rom_mapped syms bi 0 s = s"
proof -
  assume "statics_ok s"
  then have "length (system_rom_tables s) = 4" "length (page_directory s) = 1024"
    by (simp_all add: statics_ok_def)
  then have "map (\<lambda>t. system_rom_tables s ! t) [0..<4] = system_rom_tables s"
    "map (\<lambda>k. page_directory s ! k) [0..<1024] = page_directory s"
    by (metis map_nth)+
  moreover have no: "(32 \<le> k \<and> k < 32) = False" for k :: nat by auto
  ultimately show ?thesis by (simp add: rom_mapped_def no del: upt.simps)
qed

lemma rom_mapped_Suc:
  assumes "j < 4"
  shows "rom_mapped syms bi (Suc j) s =
    (let u = rom_mapped syms bi j s in
     u\<lparr>system_rom_tables := (system_rom_tables u)[j := rom_table_for bi j],
       page_directory := (page_directory u)[32 + j := rom_pde syms j],
       io := io u @ [DirectoryWrite (32 + of_nat j) (rom_pde syms j)]\<rparr>)"
proof -
  have "map (\<lambda>t. if t < Suc j then rom_table_for bi t else system_rom_tables s ! t) [0..<4] =
      (map (\<lambda>t. if t < j then rom_table_for bi t else system_rom_tables s ! t) [0..<4])[j := rom_table_for bi j]"
    using assms by (intro nth_equalityI) (auto simp: nth_list_update less_Suc_eq simp del: upt.simps)
  moreover have "map (\<lambda>k. if 32 \<le> k \<and> k < 32 + Suc j then rom_pde syms (k - 32) else page_directory s ! k) [0..<1024] =
      (map (\<lambda>k. if 32 \<le> k \<and> k < 32 + j then rom_pde syms (k - 32)
          else page_directory s ! k) [0..<1024])[32 + j := rom_pde syms j]"
  proof (rule nth_equalityI)
    fix i assume "i < length (map (\<lambda>k. if 32 \<le> k \<and> k < 32 + Suc j then rom_pde syms (k - 32)
        else page_directory s ! k) [0..<1024])"
    then show "map (\<lambda>k. if 32 \<le> k \<and> k < 32 + Suc j then rom_pde syms (k - 32) else page_directory s ! k) [0..<1024] ! i =
      (map (\<lambda>k. if 32 \<le> k \<and> k < 32 + j then rom_pde syms (k - 32)
          else page_directory s ! k) [0..<1024])[32 + j := rom_pde syms j] ! i"
      using assms by (cases "i = 32 + j") (auto simp: nth_list_update simp del: upt.simps)
  qed (simp del: upt.simps)
  ultimately show ?thesis by (simp add: rom_mapped_def Let_def upt_Suc_append del: upt.simps)
qed

lemma rom_mapped_sel:
  "length (system_rom_tables (rom_mapped syms bi j s)) = 4"
  "length (page_directory (rom_mapped syms bi j s)) = 1024"
  by (simp_all add: rom_mapped_def)

lemma rom_mapped_table:
  assumes "statics_ok s" and "j < 4"
  shows "length (system_rom_tables (rom_mapped syms bi j s) ! j) = 1024"
  using assms by (simp add: rom_mapped_def statics_ok_def list_all_length del: upt.simps)

lemma clear_rom_table:
  assumes "unat table < length (system_rom_tables s)"
    and "length (system_rom_tables s ! unat table) = 1024"
  shows "hello_zero_bytes (rom_table_window table) 4096 s =
    (Done (), s\<lparr>system_rom_tables := (system_rom_tables s)[unat table := replicate 1024 0]\<rparr>)"
  using rom_table.zero_window [where t = table and s = s and n = 4096] assms
    bytes_words_zero [of 1024]
  by simp

lemma map_rom_table:
  assumes ok: "rom_ok bi" and st: "statics_ok s" and j: "unat table < rom_tables bi"
  defines "n \<equiv> (bi_image_size bi + 4096 - 1) div 4096"
  shows "bind (hello_zero_bytes (rom_table_window table) 4096) (\<lambda>_.
      let remaining = n - table * 1024; entries = (if remaining < 1024 then remaining else 1024) in
      bind (for_cmd (\<lambda>index.
        let page = table * 1024 + index in
        bind (store_at (\<lambda>s. system_rom_tables s ! unat table)
                (\<lambda>f s. s\<lparr>system_rom_tables := (system_rom_tables s)[unat table :=
                            f (system_rom_tables s ! unat table)]\<rparr>) index
                ((bi_system_rom_base bi + page * 4096) OR 1 OR 16)) (\<lambda>_.
        ret (None :: unit option))) 0 entries) (\<lambda>_.
      let directory_index = drop_bit 22 (bi_system_rom_base bi) + table in
      bind (active_page_directory directory_index
              (kernel_vaddr_to_paddr (sym_system_rom_tables syms + table * 4096) OR 1)) (\<lambda>_.
      ret (None :: unit option)))) (rom_mapped syms bi (unat table) s) =
    (Done None, rom_mapped syms bi (Suc (unat table)) s)"
proof -
  let ?u = "rom_mapped syms bi (unat table) s"
  have j4: "unat table < 4" using j rom_counts(3) [OF ok] by simp
  define entries where "entries = (if n - table * 1024 < 1024 then n - table * 1024 else 1024)"
  note e = rom_entries [OF ok j, folded n_def, folded entries_def]
  let ?z = "?u\<lparr>system_rom_tables := (system_rom_tables ?u)[unat table := replicate 1024 0]\<rparr>"
  have zero: "hello_zero_bytes (rom_table_window table) 4096 ?u = (Done (), ?z)"
    by (rule clear_rom_table) (simp_all only: rom_mapped_sel rom_mapped_table [OF st j4] j4)
  have base: "bi_system_rom_base bi = 0x08000000" using ok by (simp add: rom_ok_def)
  let ?f = "?u\<lparr>system_rom_tables := (system_rom_tables ?u)[unat table := rom_table_for bi (unat table)]\<rparr>"
  have tab: "map (\<lambda>k. if k < unat entries
      then ((0x08000000 :: u32) + (table * 1024 + of_nat k) * 4096) OR 1 OR 16 else 0) [0..<1024]
      = rom_table_for bi (unat table)"
    unfolding rom_table_for_def
  proof (rule map_cong [OF refl])
    fix k assume "k \<in> set [0..<1024 :: nat]"
    then have k: "k < 1024" by simp
    show "(if k < unat entries then ((0x08000000 :: u32) + (table * 1024 + of_nat k) * 4096) OR 1 OR 16 else 0)
        = (if 1024 * unat table + k < rom_pages bi then rom_pte (1024 * unat table + k) else 0)"
      unfolding e(2) [OF k] e(3) [OF k] ..
  qed
  have dir: "drop_bit 22 (0x08000000 :: u32) + table = 32 + table" by (simp add: drop_bit_eq_div)
  have idx: "unat (32 + table) = 32 + unat table" using j4 by (subst unat_add_u32) simp_all
  have pde: "kernel_vaddr_to_paddr (sym_system_rom_tables syms + table * 4096) OR 1 = rom_pde syms (unat table)"
    by (simp add: rom_pde_def)
  have fill: "for_cmd (\<lambda>index.
        bind (store_at (\<lambda>s. system_rom_tables s ! unat table)
                (\<lambda>f s. s\<lparr>system_rom_tables := (system_rom_tables s)[unat table :=
                            f (system_rom_tables s ! unat table)]\<rparr>) index
                ((0x08000000 + (table * 1024 + index) * 4096) OR 1 OR 16)) (\<lambda>_.
        ret (None :: unit option))) 0 entries ?z = (Done None, ?f)"
    using rom_fill [where s = ?z and table = table and entries = entries and
        pte = "\<lambda>index. (0x08000000 + (table * 1024 + index) * 4096) OR 1 OR 16"] j4 e(1)
    by (simp add: rom_mapped_sel tab del: upt.simps)
  show ?thesis
    unfolding base dir pde Let_def entries_def [symmetric] active_page_directory_def
      rom_mapped_Suc [OF j4]
    by (rule trans, rule bind_Done, rule zero, rule trans, rule bind_Done, rule fill)
      (use j4 idx in \<open>simp add: cmd_simps rom_mapped_sel\<close>)
qed

text \<open>The whole of \<open>map_system_rom\<close>.\<close>

lemma map_system_rom_result:
  assumes st: "statics_ok s"
  shows "map_system_rom syms bi s =
    (if rom_ok bi
     then (Done True, (rom_mapped syms bi (rom_tables bi) s)\<lparr>io :=
             io (rom_mapped syms bi (rom_tables bi) s) @ [TlbInvalidateAll]\<rparr>)
     else (Done False, s))"
proof (cases "rom_ok bi")
  case False
  then show ?thesis by (auto simp: map_system_rom_def rom_ok_def ret_def)
next
  case ok: True
  note c = rom_counts [OF ok]
  let ?n = "(bi_image_size bi + 4096 - 1) div 4096"
  let ?tc = "(?n + 1023) div 1024"
  let ?body = "\<lambda>table. bind (hello_zero_bytes (rom_table_window table) 4096) (\<lambda>_.
      let remaining = ?n - table * 1024; entries = (if remaining < 1024 then remaining else 1024) in
      bind (for_cmd (\<lambda>index.
        let page = table * 1024 + index in
        bind (store_at (\<lambda>s. system_rom_tables s ! unat table)
                (\<lambda>f s. s\<lparr>system_rom_tables := (system_rom_tables s)[unat table :=
                            f (system_rom_tables s ! unat table)]\<rparr>) index
                ((bi_system_rom_base bi + page * 4096) OR 1 OR 16)) (\<lambda>_.
        ret (None :: unit option))) 0 entries) (\<lambda>_.
      let directory_index = drop_bit 22 (bi_system_rom_base bi) + table in
      bind (active_page_directory directory_index
              (kernel_vaddr_to_paddr (sym_system_rom_tables syms + table * 4096) OR 1)) (\<lambda>_.
      ret (None :: unit option))))"
  have tc: "\<not> 4 < ?tc" using c(2,3) by (simp add: word_less_nat_alt)
  have guard: "\<not> (bi_system_rom_base bi \<noteq> 0x08000000 \<or> bi_image_size bi = 0
      \<or> bi_image_size bi > 0x01000000)"
    using ok by (simp add: rom_ok_def not_less)
  have "\<exists>t. for_cmd ?body 0 ?tc s = (Done None, t) \<and> t = rom_mapped syms bi (unat ?tc) s"
  proof (rule for_cmd_total [where I = "\<lambda>k t. t = rom_mapped syms bi (unat k) s"])
    show "s = rom_mapped syms bi (unat 0) s" using rom_mapped_0 [OF st] by simp
  next
    fix k t assume k: "k < ?tc" and t: "t = rom_mapped syms bi (unat k) s"
    have kt: "unat k < rom_tables bi" using k c(2) by (simp only: word_less_nat_alt)
    show "\<exists>u. ?body k t = (Done None, u) \<and> u = rom_mapped syms bi (unat (k + 1)) s"
      unfolding t unat_Suc_u32 [OF k]
      by (intro exI conjI) (rule map_rom_table [OF ok st kt], rule refl)
  qed simp_all
  then have loop: "for_cmd ?body 0 ?tc s = (Done None, rom_mapped syms bi (rom_tables bi) s)"
    unfolding c(2) by blast
  have "map_system_rom syms bi s = bind (for_cmd ?body 0 ?tc) (\<lambda>_. bind minemu_mmu_tlbiall (\<lambda>_. ret True)) s"
    unfolding map_system_rom_def Let_def if_not_P [OF guard] if_not_P [OF tc] by (rule refl)
  also have "\<dots> = bind minemu_mmu_tlbiall (\<lambda>_. ret True) (rom_mapped syms bi (rom_tables bi) s)"
    by (rule bind_Done) (rule loop)
  finally show ?thesis using ok by (simp add: cmd_simps)
qed

section \<open>Finding a module\<close>

lemma bytes_equal_result:
  assumes "\<And>i. i < n \<Longrightarrow> left i s = (Done (l i), s)"
    and "\<And>i. i < n \<Longrightarrow> right i s = (Done (r i), s)"
  shows "bytes_equal left right n s = (Done (\<forall>i < n. l i = r i), s)"
proof -
  let ?body = "\<lambda>index. bind (left index) (\<lambda>l. bind (right index) (\<lambda>r.
       if l \<noteq> r then ret (Some False) else ret None))"
  let ?I = "\<lambda>(k :: u32) t. t = s \<and> (\<forall>i < k. l i = r i)"
  let ?Q = "\<lambda>x t. x = Done (if \<forall>i < n. l i = r i then None else Some False) \<and> t = s"
  have "case for_cmd ?body 0 n s of (x, t) \<Rightarrow> ?Q x t"
  proof (rule for_cmd_rule [where I = ?I])
    fix k :: u32 and t
    assume k: "k < n" and I: "?I k t"
    then show "case ?body k t of (Done None, u) \<Rightarrow> ?I (k + 1) u | (x, u) \<Rightarrow> ?Q x u"
      using assms [OF k] by (auto simp: bind_def ret_def less_inc_u32 [OF k])
  qed simp_all
  then have "for_cmd ?body 0 n s = (Done (if \<forall>i < n. l i = r i then None else Some False), s)"
    by (auto split: prod.splits)
  then show ?thesis by (simp add: bytes_equal_def bind_def ret_def)
qed

text \<open>A record has a name when its name bytes lie in the image and are those.\<close>

definition has_name :: "u8 list \<Rightarrow> minemu_boot_info \<Rightarrow> u8 list \<Rightarrow> u32 \<Rightarrow> minemu_module_record \<Rightarrow> bool" where
  "has_name img bi name len rec \<longleftrightarrow>
     mr_name_length rec = len \<and> image_range_valid (mr_name_offset rec) len (bi_image_size bi)
     \<and> (\<forall>i < len. image_mem img (bi_system_rom_base bi)
            (bi_system_rom_base bi + mr_name_offset rec + i) = name ! unat i)"

definition module_address :: "minemu_boot_info \<Rightarrow> nat \<Rightarrow> u32" where
  "module_address bi i = bi_system_rom_base bi + bi_module_table_offset bi + 32 * of_nat i"

definition module_at :: "u8 list \<Rightarrow> minemu_boot_info \<Rightarrow> nat \<Rightarrow> minemu_module_record" where
  "module_at img bi i = module_record_at (image_mem img (bi_system_rom_base bi)) (module_address bi i)"

definition module_index :: "u8 list \<Rightarrow> minemu_boot_info \<Rightarrow> u8 list \<Rightarrow> u32 \<Rightarrow> nat option" where
  "module_index img bi name len =
     (if image_records_valid (bi_module_table_offset bi) (bi_module_count bi) (bi_image_size bi)
      then find (\<lambda>i. has_name img bi name len (module_at img bi i)) [0..<unat (bi_module_count bi)]
      else None)"

lemma find_module_result:
  assumes size: "unat (bi_image_size bi) \<le> length img" and len: "unat len \<le> length name"
  shows "find_module img bi (load_at (\<lambda>_. name)) len s =
    (Done (map_option (module_address bi) (module_index img bi name len)), s)"
proof (cases "image_records_valid (bi_module_table_offset bi) (bi_module_count bi) (bi_image_size bi)")
  case False
  then show ?thesis by (simp add: find_module_def module_index_def ret_def Let_def)
next
  case valid: True
  let ?base = "bi_system_rom_base bi" and ?n = "bi_module_count bi"
  let ?find = "find (\<lambda>i. has_name img bi name len (module_at img bi i)) [0..<unat ?n]"
  let ?body = "\<lambda>index.
          let module = ?base + bi_module_table_offset bi + 32 * index in
          bind (image_record img ?base module_record_at module) (\<lambda>rec.
          if mr_name_length rec = len
             \<and> image_range_valid (mr_name_offset rec) (mr_name_length rec) (bi_image_size bi)
          then bind (bytes_equal (image_byte img ?base (?base + mr_name_offset rec)) (load_at (\<lambda>_. name)) len)
                 (\<lambda>same. if same then ret (Some module) else ret None)
          else ret None)"
  let ?I = "\<lambda>(k :: u32) t. t = s \<and> (\<forall>i < unat k. \<not> has_name img bi name len (module_at img bi i))"
  let ?Q = "\<lambda>x t. x = Done (map_option (module_address bi) ?find) \<and> t = s"
  have step: "?body k s = (Done (if has_name img bi name len (module_at img bi (unat k))
      then Some (module_address bi (unat k)) else None), s)" if k: "k < ?n" for k
  proof -
    have kn: "unat k < unat ?n" using k by (simp add: word_less_nat_alt)
    let ?rec = "module_at img bi (unat k)"
    have rec: "image_record img ?base module_record_at (?base + bi_module_table_offset bi + 32 * k) s = (Done ?rec, s)"
      using records_in_image [OF valid size kn, of ?base]
      by (simp add: image_record_def module_at_def module_address_def)
    show ?thesis
    proof (cases "mr_name_length ?rec = len \<and> image_range_valid (mr_name_offset ?rec) len (bi_image_size bi)")
      case False
      then show ?thesis using rec by (auto simp: Let_def bind_def ret_def has_name_def)
    next
      case True
      have "source_ok img ?base (Some (?base + mr_name_offset ?rec)) len"
        using True by (intro image_range_source [OF _ size]) simp
      then have "bytes_equal (image_byte img ?base (?base + mr_name_offset ?rec)) (load_at (\<lambda>_. name)) len s
          = (Done (\<forall>i < len. image_mem img ?base (?base + mr_name_offset ?rec + i) = name ! unat i), s)"
        using len by (intro bytes_equal_result)
          (auto simp: image_byte_def load_at_def source_ok_def word_less_nat_alt)
      with True rec show ?thesis
        by (auto simp: Let_def bind_def ret_def has_name_def module_address_def)
    qed
  qed
  have "case for_cmd ?body 0 ?n s of (x, t) \<Rightarrow> ?Q x t"
  proof (rule for_cmd_rule [where I = ?I])
    fix k :: u32 and t
    assume k: "k < ?n" and I: "?I k t"
    have kn: "unat k < unat ?n" using k by (simp add: word_less_nat_alt)
    show "case ?body k t of (Done None, u) \<Rightarrow> ?I (k + 1) u | (x, u) \<Rightarrow> ?Q x u"
    proof (cases "has_name img bi name len (module_at img bi (unat k))")
      case True
      then have "?find = Some (unat k)" using I kn by (auto simp: find_Some_iff)
      with True step [OF k] I show ?thesis by simp
    next
      case False
      with step [OF k] I unat_Suc_u32 [OF k] show ?thesis by (simp add: less_Suc_eq)
    qed
  next
    fix t assume "?I ?n t"
    then show "?Q (Done None) t" by (auto simp: find_None_iff)
  qed simp_all
  then have loop: "for_cmd ?body 0 ?n s = (Done (map_option (module_address bi) ?find), s)"
    by (auto split: prod.splits)
  show ?thesis
    unfolding find_module_def Let_def using loop valid
    by (simp add: module_index_def bind_def ret_def Let_def)
qed

end
