(* ===== verification/HelloKernel.thy ===== *)
theory HelloKernel
  imports HelloSpace HelloRom
begin

text \<open>
  The example kernel as a whole: \<open>minemu_kernel_main\<close> from the handoff to the user program, and
  the system calls it serves afterwards.
\<close>

section \<open>System calls\<close>

text \<open>The one call: \<^verbatim>\<open>svc 0\<close> from ARM user mode, number 1 in \<^verbatim>\<open>r7\<close>, a byte in \<^verbatim>\<open>r0\<close>.\<close>

definition putchar_call :: "(u32 \<Rightarrow> u32 option) \<Rightarrow> minemu_trap_frame \<Rightarrow> bool" where
  "putchar_call fetch frame \<longleftrightarrow>
     tf_exception_id frame = - 3 \<and> tf_spsr frame AND 0x1f = 0x10 \<and> tf_spsr frame AND 0x20 = 0
     \<and> fetch (tf_fault_pc frame) = Some 0xef000000 \<and> tf_r frame ! 7 = 1 \<and> tf_r frame ! 0 \<le> 255"

definition with_r0 :: "u32 \<Rightarrow> minemu_trap_frame \<Rightarrow> minemu_trap_frame" where
  "with_r0 v frame = frame\<lparr>tf_r := (tf_r frame)[0 := v]\<rparr>"

definition svc_log :: "(u32 \<Rightarrow> u32 option) \<Rightarrow> minemu_trap_frame \<Rightarrow> bool \<Rightarrow> io_event list" where
  "svc_log fetch frame observed =
     (if putchar_call fetch frame
      then (if observed then [] else [RegWrite 0x1000f000 0x48454c10]) @ [RegWrite 0x10004004 (tf_r frame ! 0)]
      else [])"

lemma svc_result:
  assumes "fetch (tf_fault_pc frame) \<noteq> None"
  shows "\<exists>t. hello_svc_dispatch P fetch frame s =
      (Done (with_r0 (if putchar_call fetch frame then 0 else - 1) frame), t)
    \<and> io t = io s @ svc_log fetch frame (user_syscall_observed s)
    \<and> user_syscall_observed t = (user_syscall_observed s \<or> putchar_call fetch frame)
    \<and> page_directory t = page_directory s \<and> user_page_table t = user_page_table s
    \<and> user_image_pages t = user_image_pages s \<and> user_stack t = user_stack s"
proof -
  obtain w where w: "fetch (tf_fault_pc frame) = Some w" using assms by blast
  show ?thesis
  proof (cases "putchar_call fetch frame")
    case False
    then show ?thesis
      using w by (auto simp: hello_svc_dispatch_def putchar_call_def cmd_simps with_r0_def svc_log_def
          Let_def not_le)
  next
    case True
    then have "\<not> 255 < tf_r frame ! 0" by (simp add: putchar_call_def not_less)
    with True show ?thesis
      by (auto simp: hello_svc_dispatch_def putchar_call_def cmd_simps with_r0_def svc_log_def
          Let_def reg_addrs)
  qed
qed

text \<open>The calls of a run of the user program, one after the other.\<close>

fun serve :: "'d platform \<Rightarrow> (u32 \<Rightarrow> u32 option) \<Rightarrow> minemu_trap_frame list
    \<Rightarrow> (('d, 'z) hello_state_scheme, minemu_trap_frame list) cmd" where
  "serve P fetch [] = ret []"
| "serve P fetch (f # fs) =
     bind (hello_svc_dispatch P fetch f) (\<lambda>r. bind (serve P fetch fs) (\<lambda>rs. ret (r # rs)))"

text \<open>What the console receives.\<close>

fun uart_output :: "io_event list \<Rightarrow> u32 list" where
  "uart_output [] = []"
| "uart_output (RegWrite a v # es) = (if a = 0x10004004 then v # uart_output es else uart_output es)"
| "uart_output (_ # es) = uart_output es"

lemma uart_output_append [simp]: "uart_output (xs @ ys) = uart_output xs @ uart_output ys"
  by (induction xs rule: uart_output.induct) auto

lemma serve_result:
  assumes "\<And>f. f \<in> set fs \<Longrightarrow> fetch (tf_fault_pc f) \<noteq> None"
  shows "\<exists>t. serve P fetch fs s =
      (Done (map (\<lambda>f. with_r0 (if putchar_call fetch f then 0 else - 1) f) fs), t)
    \<and> uart_output (io t) = uart_output (io s) @ map (\<lambda>f. tf_r f ! 0) (filter (putchar_call fetch) fs)
    \<and> trace_values (io t) = trace_values (io s) @
        (if user_syscall_observed s \<or> \<not> list_ex (putchar_call fetch) fs then [] else [0x48454c10])
    \<and> page_directory t = page_directory s \<and> user_page_table t = user_page_table s
    \<and> user_image_pages t = user_image_pages s \<and> user_stack t = user_stack s"
  using assms
proof (induction fs arbitrary: s)
  case Nil
  then show ?case by (simp add: ret_def)
next
  case (Cons f fs)
  from svc_result [of fetch f P s] Cons.prems obtain u where
    u: "hello_svc_dispatch P fetch f s = (Done (with_r0 (if putchar_call fetch f then 0 else - 1) f), u)"
      "io u = io s @ svc_log fetch f (user_syscall_observed s)"
      "user_syscall_observed u = (user_syscall_observed s \<or> putchar_call fetch f)"
      "page_directory u = page_directory s" "user_page_table u = user_page_table s"
      "user_image_pages u = user_image_pages s" "user_stack u = user_stack s"
    by auto
  from Cons.IH [of u] Cons.prems obtain t where
    t: "serve P fetch fs u = (Done (map (\<lambda>f. with_r0 (if putchar_call fetch f then 0 else - 1) f) fs), t)"
      "uart_output (io t) = uart_output (io u) @ map (\<lambda>f. tf_r f ! 0) (filter (putchar_call fetch) fs)"
      "trace_values (io t) = trace_values (io u) @
        (if user_syscall_observed u \<or> \<not> list_ex (putchar_call fetch) fs then [] else [0x48454c10])"
      "page_directory t = page_directory u" "user_page_table t = user_page_table u"
      "user_image_pages t = user_image_pages u" "user_stack t = user_stack u"
    by auto
  show ?case
    using u t by (auto simp: bind_def ret_def svc_log_def)
qed

section \<open>The kernel's main\<close>

definition hello_handoff :: "u32 \<Rightarrow> minemu_boot_info \<Rightarrow> bool" where
  "hello_handoff pointer bi \<longleftrightarrow>
     pointer = 0xc0007000 \<and> bi_magic bi = 0x4d424f4f \<and> bi_version bi = 1 \<and> bi_size bi = 64
     \<and> bi_direct_map_vaddr bi = 0xc0000000 \<and> bi_direct_map_paddr bi = 0x40000000
     \<and> bi_direct_map_size bi = 0x04000000 \<and> rom_ok bi"

text \<open>The module the kernel starts, if there is one it accepts, with its page map.\<close>

definition hello_module :: "u8 list \<Rightarrow> minemu_boot_info \<Rightarrow> (minemu_module_record \<times> (u32 \<rightharpoonup> u32)) option" where
  "hello_module img bi =
     (case module_index img bi hello_module_name 10 of
        None \<Rightarrow> None
      | Some i \<Rightarrow> map_option (\<lambda>F. (module_at img bi i, F)) (module_layout img bi (module_at img bi i)))"

text \<open>The state after \<open>map_system_rom\<close>.\<close>

definition rom_state ::
    "hello_symbols \<Rightarrow> minemu_boot_info \<Rightarrow> ('d, 'z) hello_state_scheme \<Rightarrow> ('d, 'z) hello_state_scheme" where
  "rom_state syms bi s = (rom_mapped syms bi (rom_tables bi) s)\<lparr>io :=
     io (rom_mapped syms bi (rom_tables bi) s) @ [TlbInvalidateAll]\<rparr>"

lemma statics_rom_state:
  assumes "statics_ok s"
  shows "statics_ok (rom_state syms bi s)"
proof -
  have "list_all (\<lambda>t. length t = 1024) (map (\<lambda>t. if t < rom_tables bi then rom_table_for bi t
      else system_rom_tables s ! t) [0..<4])"
    using assms by (auto simp: statics_ok_def list_all_length rom_table_for_def simp del: upt.simps)
  then show ?thesis
    using assms by (simp add: statics_ok_def rom_state_def rom_mapped_def del: upt.simps)
qed

lemma find_hello:
  assumes "unat (bi_image_size bi) \<le> length img"
  shows "find_module img bi (load_at (\<lambda>_. hello_module_name)) 10 s =
    (Done (map_option (module_address bi) (module_index img bi hello_module_name 10)), s)"
  by (rule find_module_result [OF assms]) (simp add: hello_module_name_def)

lemma module_record_read:
  assumes "unat (bi_image_size bi) \<le> length img" and "module_index img bi name len = Some i"
  shows "image_record img (bi_system_rom_base bi) module_record_at (module_address bi i) s
    = (Done (module_at img bi i), s)"
proof -
  have v: "image_records_valid (bi_module_table_offset bi) (bi_module_count bi) (bi_image_size bi)"
    and i: "i < unat (bi_module_count bi)"
    using assms(2) by (auto simp: module_index_def find_Some_iff split: if_splits)
  from records_in_image [OF v assms(1) i, of "bi_system_rom_base bi"] show ?thesis
    by (simp add: image_record_def module_at_def module_address_def)
qed

text \<open>What is left of the main function once the ROM is mapped.\<close>

lemma hello_main_mapped:
  assumes st: "statics_ok s" and ok: "hello_handoff pointer bi"
  shows "hello_kernel_main P syms img pointer bi s =
    bind (find_module img bi (load_at (\<lambda>_. hello_module_name)) 10) (\<lambda>module.
     bind (case module of
             None \<Rightarrow> ret None
           | Some p \<Rightarrow>
               bind (image_record img (bi_system_rom_base bi) module_record_at p) (\<lambda>rec.
               bind (load_user_module syms img bi rec) (\<lambda>loaded.
               ret (if loaded then Some rec else None)))) (\<lambda>loaded.
     case loaded of
       None \<Rightarrow> bind (minemu_trace_event P 0x48454c02) (\<lambda>_. minemu_fail_stop)
     | Some rec \<Rightarrow> minemu_enter_user (mr_entry_vaddr rec) 0x00800000)) (rom_state syms bi s)"
proof -
  have "map_system_rom syms bi s = (Done True, rom_state syms bi s)"
    using map_system_rom_result [OF st] ok by (simp add: hello_handoff_def rom_state_def)
  then show ?thesis
    using ok by (simp add: hello_kernel_main_def hello_handoff_def bind_Done cmd_simps)
qed

text \<open>The state in which the user program starts.\<close>

definition entered :: "('d, 'z) hello_state_scheme \<Rightarrow> ('d, 'z) hello_state_scheme" where
  "entered t = t\<lparr>cpsr := cpsr t OR 0xc0, io := io t @ [IrqDisable]\<rparr>"

lemma entered_walk: "user_walk syms (entered t) = user_walk syms t"
  by (simp add: fun_eq_iff user_walk_def frame_byte_def entered_def Let_def)

definition start_context :: "minemu_module_record \<Rightarrow> user_context" where
  "start_context m = \<lparr> uc_r0_r3 = [0, 0, 0, 0], uc_pc = mr_entry_vaddr m, uc_sp = 0x00800000,
     uc_lr = 0, uc_cpsr = 0x10 \<rparr>"

lemma bind_run: "c s = (r, t) \<Longrightarrow> bind c f s = (case r of
    Done x \<Rightarrow> f x t | FailStop \<Rightarrow> (FailStop, t) | Fault \<Rightarrow> (Fault, t) | OutOfFuel \<Rightarrow> (OutOfFuel, t))"
  by (simp add: bind_def)

lemma hello_main_result:
  assumes st: "statics_ok s" and size: "unat (bi_image_size bi) \<le> length img"
    and ok: "hello_handoff pointer bi"
  shows "case hello_module img bi of
      None \<Rightarrow> \<exists>t. hello_kernel_main P syms img pointer bi s = (FailStop, t)
        \<and> io t = io (rom_state syms bi s) @ [RegWrite 0x1000f000 0x48454c02]
        \<and> page_directory t = page_directory (rom_state syms bi s)
    | Some (m, F) \<Rightarrow> \<exists>t. load_user_module syms img bi m (rom_state syms bi s) = (Done True, t)
        \<and> hello_kernel_main P syms img pointer bi s =
          (Done (start_context m), entered t)"
proof -
  let ?u = "rom_state syms bi s"
  have su: "statics_ok ?u" by (rule statics_rom_state [OF st])
  note main = hello_main_mapped [OF st ok, of P syms img]
  note nm = find_hello [OF size, of ?u]
  show ?thesis
  proof (cases "module_index img bi hello_module_name 10")
    case None
    then show ?thesis
      using main nm by (simp add: hello_module_def bind_Done bind_ret bind_trace minemu_fail_stop_def)
  next
    case (Some i)
    let ?m = "module_at img bi i"
    note rec = module_record_read [OF size Some, of ?u]
    note res = load_user_module_result [OF su size, where m = ?m and syms = syms]
    show ?thesis
    proof (cases "module_layout img bi ?m")
      case None
      with res obtain t where t: "load_user_module syms img bi ?m ?u = (Done False, t)"
        "page_directory t = page_directory ?u" "io t = io ?u" by auto
      have "hello_kernel_main P syms img pointer bi s =
          bind (minemu_trace_event P 0x48454c02) (\<lambda>_. minemu_fail_stop) t"
        using main nm rec Some t(1) by (simp add: bind_run bind_bind bind_ret)
      with t(2,3) None Some show ?thesis
        by (simp add: hello_module_def bind_trace minemu_fail_stop_def)
    next
      case lay: (Some F)
      with res obtain t where t: "load_user_module syms img bi ?m ?u = (Done True, t)" by auto
      then show ?thesis
        using main nm rec Some lay
        by (simp add: hello_module_def bind_Done bind_ret bind_bind minemu_enter_user_def ret_def
            bind_modify start_context_def entered_def)
    qed
  qed
qed

lemma hello_main_no_handoff:
  assumes st: "statics_ok s" and bad: "\<not> hello_handoff pointer bi"
  shows "\<exists>t. hello_kernel_main P syms img pointer bi s = (FailStop, t)
    \<and> io t = io s @ [RegWrite 0x1000f000 0x48454c01] \<and> page_directory t = page_directory s"
proof -
  let ?c = "if pointer \<noteq> MINEMU_BOOT_INFO_VADDR
              \<or> bi_magic bi \<noteq> MINEMU_BOOT_INFO_MAGIC
              \<or> bi_version bi \<noteq> MINEMU_ABI_VERSION \<or> bi_size bi \<noteq> 64
              \<or> bi_direct_map_vaddr bi \<noteq> 0xc0000000
              \<or> bi_direct_map_paddr bi \<noteq> 0x40000000
              \<or> bi_direct_map_size bi \<noteq> 0x04000000
           then ret False else map_system_rom syms bi"
  have no: "?c s = (Done False, s)"
    using bad map_system_rom_result [OF st, of syms bi] by (auto simp: hello_handoff_def ret_def)
  show ?thesis
    unfolding hello_kernel_main_def
    by (simp only: bind_Done [where c = ?c and s = s, OF no]) (simp add: cmd_simps)
qed

text \<open>The run that starts the user program.\<close>

lemma hello_main_entered:
  assumes "statics_ok s" and "unat (bi_image_size bi) \<le> length img" and "symbols_ok syms"
    and "hello_handoff pointer bi" and "hello_module img bi = Some (m, F)"
  shows "\<exists>t. hello_kernel_main P syms img pointer bi s =
      (Done \<lparr> uc_r0_r3 = [0, 0, 0, 0], uc_pc = mr_entry_vaddr m, uc_sp = 0x00800000, uc_lr = 0,
              uc_cpsr = 0x10 \<rparr>, t)
    \<and> page_directory t ! 1 = kernel_vaddr_to_paddr (sym_user_page_table syms) OR 1
    \<and> (\<forall>k < rom_tables bi. page_directory t ! (32 + k) = rom_pde syms k
        \<and> system_rom_tables t ! k = rom_table_for bi k)
    \<and> (\<exists>log. io t = log @
        [DirectoryWrite 1 (kernel_vaddr_to_paddr (sym_user_page_table syms) OR 1), TlbInvalidateAll, IrqDisable])
    \<and> (\<forall>v. 0x00400000 \<le> v \<longrightarrow> v < 0x00800000 \<longrightarrow> user_walk syms t v = user_space img bi m F v)
    \<and> user_syscall_observed t = user_syscall_observed s
    \<and> uart_output (io t) = uart_output (io s) \<and> trace_values (io t) = trace_values (io s)"
proof -
  let ?u = "rom_state syms bi s"
  have su: "statics_ok ?u" by (rule statics_rom_state [OF assms(1)])
  have lay: "module_layout img bi m = Some F"
    using assms(5) by (auto simp: hello_module_def split: option.splits)
  from hello_main_result [OF assms(1,2,4), where P = P and syms = syms] assms(5)
  obtain t where t: "load_user_module syms img bi m ?u = (Done True, t)"
    "hello_kernel_main P syms img pointer bi s = (Done (start_context m), entered t)" by auto
  from loaded_space [OF su assms(2,3) lay] t(1) have
    w: "page_directory t = (page_directory ?u)[1 := kernel_vaddr_to_paddr (sym_user_page_table syms) OR 1]"
      "io t = io ?u @ [DirectoryWrite 1 (kernel_vaddr_to_paddr (sym_user_page_table syms) OR 1), TlbInvalidateAll]"
      "system_rom_tables t = system_rom_tables ?u"
      "\<And>v. 0x00400000 \<le> v \<Longrightarrow> v < 0x00800000 \<Longrightarrow> user_walk syms t v = user_space img bi m F v"
      "user_syscall_observed t = user_syscall_observed ?u"
    by auto
  have e: "page_directory (entered t) = page_directory t" "system_rom_tables (entered t) = system_rom_tables t"
    "io (entered t) = io ?u @ [DirectoryWrite 1 (kernel_vaddr_to_paddr (sym_user_page_table syms) OR 1),
       TlbInvalidateAll, IrqDisable]"
    by (simp_all add: entered_def w(2))
  have le: "rom_tables bi \<le> 4" using assms(4) rom_counts(3) by (simp add: hello_handoff_def)
  have "page_directory (entered t) ! (32 + k) = rom_pde syms k \<and> system_rom_tables (entered t) ! k = rom_table_for bi k"
    if "k < rom_tables bi" for k
    unfolding e w(1,3) using that le by (simp add: rom_state_def rom_mapped_def del: upt.simps)
  moreover have "page_directory (entered t) ! 1 = kernel_vaddr_to_paddr (sym_user_page_table syms) OR 1"
    unfolding e w(1) by (simp add: rom_state_def rom_mapped_def del: upt.simps)
  moreover have "\<exists>log. io (entered t) = log @
        [DirectoryWrite 1 (kernel_vaddr_to_paddr (sym_user_page_table syms) OR 1), TlbInvalidateAll, IrqDisable]"
    using e(3) by blast
  moreover have silent: "trace_values (map (\<lambda>t. DirectoryWrite (32 + of_nat t) (rom_pde syms t)) xs) = []"
    "uart_output (map (\<lambda>t. DirectoryWrite (32 + of_nat t) (rom_pde syms t)) xs) = []" for xs
    by (induction xs) auto
  ultimately show ?thesis
    using t(2) w(4,5) silent unfolding start_context_def
    by (intro exI [of _ "entered t"]) (simp add: entered_walk entered_def [of t, THEN arg_cong [where f = user_syscall_observed]] e(3) rom_state_def rom_mapped_def)
qed

end
