(* ===== verification/HelloProps.thy ===== *)
theory HelloProps
  imports HelloKernel
begin

text \<open>
  The properties of the example kernel, each with a run on a small packed image that holds one
  module of one segment.
\<close>

section \<open>A packed image\<close>

definition sample_image :: "u8 list" where
  "sample_image =
     words_bytes [64, 10, 32, 1, 0x00400000, 0, 0, 0, 76, 0x00400000, 4, 8, 5, 0, 0, 0]
     @ hello_module_name @ [0, 0, 0, 0, 0xef]"

definition sample_boot :: minemu_boot_info where
  "sample_boot = \<lparr> bi_magic = 0x4d424f4f, bi_version = 1, bi_size = 64,
     bi_system_rom_base = 0x08000000, bi_image_size = 80,
     bi_module_table_offset = 0, bi_module_count = 1, bi_direct_map_vaddr = 0xc0000000,
     bi_direct_map_paddr = 0x40000000, bi_direct_map_size = 0x04000000, bi_flags = 0,
     bi_reserved = [0, 0, 0, 0, 0, 0] \<rparr>"

definition sample_module :: minemu_module_record where
  "sample_module = \<lparr> mr_name_offset = 64, mr_name_length = 10, mr_segment_table_offset = 32,
     mr_segment_count = 1, mr_entry_vaddr = 0x00400000, mr_flags = 0, mr_reserved = [0, 0] \<rparr>"

definition sample_segment :: minemu_module_segment where
  "sample_segment = \<lparr> ms_data_offset = 76, ms_virtual_address = 0x00400000, ms_file_size = 4,
     ms_memory_size = 8, ms_flags = 5, ms_reserved = [0, 0, 0] \<rparr>"

definition sample_state :: "unit hello_state" where
  "sample_state = \<lparr> dev = (), cpsr = 0, io = [],
     page_directory = replicate 1024 0, system_rom_tables = replicate 4 (replicate 1024 0),
     user_page_table = replicate 1024 0, user_image_pages = replicate 16 (replicate 4096 0),
     user_stack = replicate 4096 0, user_page_vaddrs = replicate 16 0,
     user_page_flags = replicate 16 0, user_page_count = 0, user_syscall_observed = False \<rparr>"

definition sample_symbols :: hello_symbols where
  "sample_symbols = \<lparr> sym_system_rom_tables = 0xc0100000, sym_user_page_table = 0xc0104000,
     sym_user_image_pages = 0xc0105000, sym_user_stack = 0xc0115000 \<rparr>"

definition sample_platform :: "unit platform" where
  "sample_platform = \<lparr> reg_read = (\<lambda>a d. (0, d)), reg_write = (\<lambda>a v d. d) \<rparr>"

lemma sample_length: "length sample_image = 80"
  by (simp add: sample_image_def hello_module_name_def)

lemma sample_size: "unat (bi_image_size sample_boot) \<le> length sample_image"
  by (simp add: sample_length sample_boot_def)

lemma sample_statics: "statics_ok sample_state"
  by (simp add: statics_ok_def sample_state_def list_all_length)

lemma sample_symbols_ok: "symbols_ok sample_symbols"
  by (simp add: symbols_ok_def sample_symbols_def page_of_def in_range_def)

lemma sample_segments: "module_segments sample_image sample_boot sample_module = [sample_segment]"
  by code_simp

lemma sample_found: "module_at sample_image sample_boot 0 = sample_module"
  by code_simp

lemma sample_index: "module_index sample_image sample_boot hello_module_name 10 = Some 0"
proof -
  have "list_all (\<lambda>k. image_mem sample_image 0x08000000 (0x08000000 + 64 + of_nat k) = hello_module_name ! k) [0..<10]"
    by code_simp
  then have "image_mem sample_image 0x08000000 (0x08000000 + 64 + i) = hello_module_name ! unat i"
    if "i < 10" for i
    using that by (auto simp: list_all_iff word_less_nat_alt dest!: bspec [where x = "unat i"])
  then have "has_name sample_image sample_boot hello_module_name 10 sample_module"
    by (simp add: has_name_def sample_module_def sample_boot_def image_range_valid_def)
  moreover have "image_records_valid (bi_module_table_offset sample_boot) (bi_module_count sample_boot)
      (bi_image_size sample_boot)" by code_simp
  moreover have "unat (bi_module_count sample_boot) = Suc 0" by (simp add: sample_boot_def)
  ultimately show ?thesis by (simp add: module_index_def sample_found)
qed

lemma sample_pages: "segment_pages sample_segment = {0x00400000}"
proof -
  have "pages_in 0x00400000 0x00400008 = insert 0x00400000 (pages_in (0x00400000 + 4096) 0x00400008)"
    by (rule next_page) (simp_all add: page_of_def)
  then show ?thesis
    by (simp add: segment_pages_def sample_segment_def page_of_def pages_in_empty)
qed

definition sample_pages_map :: "u32 \<rightharpoonup> u32" where
  "sample_pages_map = [0x00400000 \<mapsto> 0x18]"

lemma sample_layout: "module_layout sample_image sample_boot sample_module = Some sample_pages_map"
proof -
  have "user_segment_ok sample_boot sample_segment" by code_simp
  moreover have "fits Map.empty (segment_pte sample_segment) (segment_pages sample_segment)"
    by (simp add: fits_def sample_pages)
  moreover have "segment_pte sample_segment = 0x18" by code_simp
  moreover have "module_header_ok sample_boot sample_module" by code_simp
  moreover have "makes_entry sample_module sample_segment" by code_simp
  ultimately show ?thesis
    by (simp add: module_layout_def sample_segments sample_pages enter_pages_def
        sample_pages_map_def fun_eq_iff)
qed

section \<open>Loading a module\<close>

text \<open>
  C7: \<open>load_user_module\<close> never touches memory outside the image or its own arrays and always
  returns; it accepts a module exactly when its header is sound, its segments have a consistent
  layout of at most 16 pages, and one of them makes the entry point executable. A module it
  rejects is not mapped: page directory and TLB stay as they were.
\<close>

theorem load_user_module_decides:
  assumes "statics_ok s" and "unat (bi_image_size bi) \<le> length img"
  shows "\<exists>t. load_user_module syms img bi m s = (Done (module_layout img bi m \<noteq> None), t)
    \<and> statics_ok t
    \<and> (module_layout img bi m = None \<longrightarrow> page_directory t = page_directory s \<and> io t = io s)"
  using load_user_module_result [OF assms, where m = m and syms = syms]
  by (auto simp: pages_ok_def split: option.splits)

theorem load_user_module_decides_witness:
  "\<exists>t. load_user_module sample_symbols sample_image sample_boot sample_module sample_state = (Done True, t)"
  using load_user_module_decides [OF sample_statics sample_size,
      where m = sample_module and syms = sample_symbols]
  by (auto simp: sample_layout)

lemma sample_loaded:
  "\<exists>t. load_user_module sample_symbols sample_image sample_boot sample_module sample_state = (Done True, t)"
  using loaded_space [OF sample_statics sample_size sample_symbols_ok sample_layout] by blast

text \<open>
  C4: after a successful load the user page table maps every byte of every segment, with the
  bytes of the module, user access, and read, write and execute rights that are those of the
  segment's flags.
\<close>

theorem load_user_module_rights:
  assumes "statics_ok s" and "unat (bi_image_size bi) \<le> length img" and "symbols_ok syms"
    and "load_user_module syms img bi m s = (Done True, t)"
    and "g \<in> set (module_segments img bi m)"
    and "in_range (ms_virtual_address g) (ms_memory_size g) v"
  shows "\<exists>r. user_walk syms t v = Some (Some (module_memory img bi m v), r)
    \<and> bit r 0 \<and> bit r 2
    \<and> (bit r 4 \<longleftrightarrow> bit (ms_flags g) 0) \<and> (bit r 1 \<longleftrightarrow> bit (ms_flags g) 1)
    \<and> (bit r 3 \<longleftrightarrow> bit (ms_flags g) 2)"
proof -
  obtain F where F: "module_layout img bi m = Some F"
    "\<And>v. 0x00400000 \<le> v \<Longrightarrow> v < 0x00800000 \<Longrightarrow> user_walk syms t v = user_space img bi m F v"
    using loaded_module [OF assms(1-4)] by blast
  note seg = user_space_segment [OF F(1) assms(5,6)]
  have "v < 0x00800000" using seg(2) by (rule less_trans) simp
  with F(2) seg(1,3)
  have "user_walk syms t v = Some (Some (module_memory img bi m v), 5 OR segment_pte g)" by simp
  then show ?thesis by (simp add: bit_or_iff segment_pte_bits)
qed

theorem load_user_module_rights_witness:
  "\<exists>t r. load_user_module sample_symbols sample_image sample_boot sample_module sample_state = (Done True, t)
    \<and> user_walk sample_symbols t 0x00400000 =
        Some (Some (module_memory sample_image sample_boot sample_module 0x00400000), r)
    \<and> bit r 4 \<and> \<not> bit r 1 \<and> bit r 3"
proof -
  obtain t where t: "load_user_module sample_symbols sample_image sample_boot sample_module sample_state
      = (Done True, t)" using sample_loaded by blast
  have g: "sample_segment \<in> set (module_segments sample_image sample_boot sample_module)"
    by (simp add: sample_segments)
  have "in_range (ms_virtual_address sample_segment) (ms_memory_size sample_segment) 0x00400000"
    by code_simp
  from load_user_module_rights [OF sample_statics sample_size sample_symbols_ok t g this] t
  show ?thesis by (auto simp: sample_segment_def)
qed

text \<open>
  C6: the byte the user reads at an address is that of the last segment of the table that covers
  it: a byte of the packed image below the file size, zero above.
\<close>

theorem load_user_module_bytes:
  assumes "statics_ok s" and "unat (bi_image_size bi) \<le> length img" and "symbols_ok syms"
    and "load_user_module syms img bi m s = (Done True, t)"
    and "module_segments img bi m = gs1 @ g # gs2"
    and "in_range (ms_virtual_address g) (ms_memory_size g) v"
    and "\<And>h. h \<in> set gs2 \<Longrightarrow> \<not> in_range (ms_virtual_address h) (ms_memory_size h) v"
  shows "\<exists>r. user_walk syms t v =
    Some (Some (if v - ms_virtual_address g < ms_file_size g
      then image_mem img (bi_system_rom_base bi)
        (bi_system_rom_base bi + ms_data_offset g + (v - ms_virtual_address g)) else 0), r)"
proof -
  obtain F where F: "module_layout img bi m = Some F"
    "\<And>v. 0x00400000 \<le> v \<Longrightarrow> v < 0x00800000 \<Longrightarrow> user_walk syms t v = user_space img bi m F v"
    using loaded_module [OF assms(1-4)] by blast
  have g: "g \<in> set (module_segments img bi m)" using assms(5) by simp
  note seg = user_space_segment [OF F(1) g assms(6)]
  have "v < 0x00800000" using seg(2) by (rule less_trans) simp
  with F(2) seg(1,3)
  have "user_walk syms t v = Some (Some (module_memory img bi m v), 5 OR segment_pte g)" by simp
  moreover have "module_memory img bi m v =
      (if v - seg_dest (user_segment img bi g) < seg_file (user_segment img bi g)
       then seg_data (user_segment img bi g) (v - seg_dest (user_segment img bi g)) else 0)"
    unfolding module_memory_def assms(5) map_append list.map
    by (rule fold_overlay_last) (use assms(6,7) in \<open>auto simp: user_segment_def\<close>)
  ultimately show ?thesis by (simp add: user_segment_def)
qed

theorem load_user_module_bytes_witness:
  "\<exists>t r. load_user_module sample_symbols sample_image sample_boot sample_module sample_state = (Done True, t)
    \<and> user_walk sample_symbols t 0x00400003 = Some (Some 0xef, r)"
proof -
  obtain t where t: "load_user_module sample_symbols sample_image sample_boot sample_module sample_state
      = (Done True, t)" using sample_loaded by blast
  have "in_range (ms_virtual_address sample_segment) (ms_memory_size sample_segment) 0x00400003"
    by code_simp
  from load_user_module_bytes [OF sample_statics sample_size sample_symbols_ok t, where ?gs1.0 = "[]" and ?gs2.0 = "[]",
      unfolded append_Nil, OF sample_segments this]
  obtain r where "user_walk sample_symbols t 0x00400003 =
    Some (Some (if (0x00400003 :: u32) - ms_virtual_address sample_segment < ms_file_size sample_segment
      then image_mem sample_image (bi_system_rom_base sample_boot)
        (bi_system_rom_base sample_boot + ms_data_offset sample_segment + (0x00400003 - ms_virtual_address sample_segment))
      else 0), r)" by auto
  moreover have "(if (0x00400003 :: u32) - ms_virtual_address sample_segment < ms_file_size sample_segment
      then image_mem sample_image (bi_system_rom_base sample_boot)
        (bi_system_rom_base sample_boot + ms_data_offset sample_segment + (0x00400003 - ms_virtual_address sample_segment))
      else 0) = 0xef" by code_simp
  ultimately show ?thesis using t by auto
qed

text \<open>
  C30: the entry point of an accepted module can be fetched in user mode: its four bytes are
  mapped for user access and execution.
\<close>

theorem load_user_module_entry:
  assumes "statics_ok s" and "unat (bi_image_size bi) \<le> length img" and "symbols_ok syms"
    and "load_user_module syms img bi m s = (Done True, t)" and "k < 4"
  shows "\<exists>b r. user_walk syms t (mr_entry_vaddr m + k) = Some (Some b, r) \<and> bit r 0 \<and> bit r 2 \<and> bit r 3"
proof -
  obtain F where F: "module_layout img bi m = Some F"
    "\<And>v. 0x00400000 \<le> v \<Longrightarrow> v < 0x00800000 \<Longrightarrow> user_walk syms t v = user_space img bi m F v"
    using loaded_module [OF assms(1-4)] by blast
  obtain g where g: "g \<in> set (module_segments img bi m)" "makes_entry m g"
    using module_layout_Some(2) [OF F(1)] by (auto simp: list_ex_iff)
  have "user_segment_ok bi g" using layout_agrees [OF module_layout_Some(1) [OF F(1)] g(1)] by blast
  note seg = user_space_segment [OF F(1) g(1) entry_in_segment(1) [OF this g(2) assms(5)]]
  have "mr_entry_vaddr m + k < 0x00800000" using seg(2) by (rule less_trans) simp
  with F(2) seg(1,3) have "user_walk syms t (mr_entry_vaddr m + k) =
      Some (Some (module_memory img bi m (mr_entry_vaddr m + k)), 5 OR segment_pte g)" by simp
  moreover have "bit (ms_flags g) 2"
    using g(2) mask_bit [of "ms_flags g" 2] by (simp add: makes_entry_def)
  ultimately show ?thesis by (simp add: bit_or_iff segment_pte_bits)
qed

theorem load_user_module_entry_witness:
  "\<exists>t b r. load_user_module sample_symbols sample_image sample_boot sample_module sample_state = (Done True, t)
    \<and> user_walk sample_symbols t (mr_entry_vaddr sample_module + 3) = Some (Some b, r) \<and> bit r 3"
proof -
  obtain t where t: "load_user_module sample_symbols sample_image sample_boot sample_module sample_state
      = (Done True, t)" using sample_loaded by blast
  from load_user_module_entry [OF sample_statics sample_size sample_symbols_ok t, of 3] t
  show ?thesis by auto
qed

section \<open>Preparing pages\<close>

text \<open>
  C34: \<open>prepare_user_range\<close> ends within its 17 iterations for every range below the top page,
  and succeeds exactly when no page of the range is entered with other flags and the pages fit in
  the 16 slots; then the pages of the range are entered with the flags and the user bytes are
  unchanged. The slots stay distinct.
\<close>

theorem prepare_user_range_enters:
  assumes "pages_ok s" and "vaddr + len \<le> 0xfffff000"
  shows "\<exists>t. prepare_user_range vaddr len f s =
      (Done (fits (page_flags s) f (pages_in (page_of vaddr) (vaddr + len))), t)
    \<and> pages_ok t \<and> user_byte t = user_byte s
    \<and> (fits (page_flags s) f (pages_in (page_of vaddr) (vaddr + len)) \<longrightarrow>
        page_flags t = enter_pages (page_flags s) f (pages_in (page_of vaddr) (vaddr + len)))"
  using prepare_pages_spec [OF assms(1) page_of_page_of assms(2), where V = "{}" and fuel = 17 and f = f]
  by (auto simp: prepare_user_range_def page_of_def)

theorem prepare_user_range_enters_witness:
  "\<exists>t. prepare_user_range 0x00400000 8 0x18 sample_state = (Done True, t)
    \<and> page_flags t 0x00400000 = Some 0x18"
proof -
  have ok: "pages_ok sample_state" using sample_statics by (simp add: pages_ok_def sample_state_def)
  have none: "page_flags sample_state = Map.empty"
    by (simp add: fun_eq_iff page_flags_def slot_of_None sample_state_def)
  have pages: "pages_in (page_of 0x00400000) (0x00400000 + 8) = {0x00400000}"
    using sample_pages by (simp add: segment_pages_def sample_segment_def page_of_def)
  have "(0x00400000 :: u32) + 8 \<le> 0xfffff000" by simp
  from prepare_user_range_enters [OF ok this, of "0x18"] show ?thesis
    unfolding pages none by (auto simp: fits_def enter_pages_def)
qed

section \<open>Reading the packed image\<close>

text \<open>
  C32: \<open>map_system_rom\<close> accepts an image of 1 byte to 16 MiB at the ROM base. It then maps the
  pages of the image one to one, readable and neither writable, executable nor user, and no page
  past the last; it enters the tables from directory index 32 on, leaves every other directory
  entry alone, and flushes the TLB last.
\<close>

theorem map_system_rom_maps:
  assumes "statics_ok s" and "rom_ok bi"
  shows "\<exists>t. map_system_rom syms bi s = (Done True, t)
    \<and> (\<forall>k < 1024. page_directory t ! k =
        (if 32 \<le> k \<and> k < 32 + rom_tables bi then rom_pde syms (k - 32) else page_directory s ! k))
    \<and> (\<forall>p < 1024 * rom_tables bi. system_rom_tables t ! (p div 1024) ! (p mod 1024) =
        (if p < rom_pages bi then (0x08000000 + of_nat p * 4096) OR 0x11 else 0))
    \<and> io t = io s @ map (\<lambda>k. DirectoryWrite (32 + of_nat k) (rom_pde syms k)) [0..<rom_tables bi]
        @ [TlbInvalidateAll]"
proof -
  have le: "rom_tables bi \<le> 4" by (rule rom_counts(3) [OF assms(2)])
  have tab: "(map (\<lambda>t. if t < rom_tables bi then rom_table_for bi t else system_rom_tables s ! t) [0..<4])
      ! (p div 1024) ! (p mod 1024) = (if p < rom_pages bi then (0x08000000 + of_nat p * 4096) OR 0x11 else 0)"
    if "p < 1024 * rom_tables bi" for p
  proof -
    have "p div 1024 < rom_tables bi" using that by (simp add: less_mult_imp_div_less mult.commute)
    moreover from this le have "p div 1024 < 4" by simp
    ultimately show ?thesis
      by (simp add: rom_table_for_def rom_pte_def del: upt.simps)
  qed
  show ?thesis
    using map_system_rom_result [OF assms(1), of syms bi] assms(2) tab
    by (simp add: rom_mapped_def del: upt.simps)
qed

theorem map_system_rom_maps_witness:
  "\<exists>t. map_system_rom sample_symbols sample_boot sample_state = (Done True, t)
    \<and> system_rom_tables t ! 0 ! 0 = 0x08000011 \<and> system_rom_tables t ! 0 ! 1 = 0"
proof -
  have ok: "rom_ok sample_boot" by code_simp
  have n: "rom_tables sample_boot = 1" "rom_pages sample_boot = 1" by code_simp+
  from map_system_rom_maps [OF sample_statics ok, of sample_symbols, unfolded n] obtain t where
    t: "map_system_rom sample_symbols sample_boot sample_state = (Done True, t)"
      "\<forall>p < 1024 * 1. system_rom_tables t ! (p div 1024) ! (p mod 1024) =
        (if p < 1 then (0x08000000 + of_nat p * 4096) OR 0x11 else 0)" by blast
  from t(2) [rule_format, of 0] t(2) [rule_format, of 1] t(1) show ?thesis by auto
qed

text \<open>
  C33: \<open>find_module\<close> never reads outside the image, changes nothing, and returns the address of
  the first record of the table whose name is the one sought, if the table and that name lie in
  the image.
\<close>

theorem find_module_first:
  assumes "unat (bi_image_size bi) \<le> length img" and "unat len \<le> length name"
  shows "find_module img bi (load_at (\<lambda>_. name)) len s =
    (Done (if image_records_valid (bi_module_table_offset bi) (bi_module_count bi) (bi_image_size bi)
           then map_option (module_address bi)
             (find (\<lambda>i. has_name img bi name len (module_at img bi i)) [0..<unat (bi_module_count bi)])
           else None), s)"
  by (simp add: find_module_result [OF assms] module_index_def)

theorem find_module_first_witness:
  "find_module sample_image sample_boot (load_at (\<lambda>_. hello_module_name)) 10 sample_state
    = (Done (Some 0x08000000), sample_state)"
proof -
  have len: "unat (10 :: u32) \<le> length hello_module_name" by (simp add: hello_module_name_def)
  have addr: "module_address sample_boot 0 = 0x08000000" by (simp add: module_address_def sample_boot_def)
  show ?thesis
    using find_module_first [OF sample_size len, of sample_state] sample_index
    by (simp add: module_index_def addr split: if_splits)
qed

section \<open>Serving the user program\<close>

text \<open>
  C13: over a run of system calls the console receives the bytes of the valid calls, in order and
  each once; the first valid call, and no other, is traced; a valid call returns 0 and any other
  -1 in \<^verbatim>\<open>r0\<close>, the rest of the frame unchanged; and no call touches the page tables or the
  user's memory.
\<close>

theorem svc_serves:
  assumes "\<And>f. f \<in> set fs \<Longrightarrow> fetch (tf_fault_pc f) \<noteq> None"
  shows "\<exists>t. serve P fetch fs s =
      (Done (map (\<lambda>f. f\<lparr>tf_r := (tf_r f)[0 := if putchar_call fetch f then 0 else - 1]\<rparr>) fs), t)
    \<and> uart_output (io t) = uart_output (io s) @ map (\<lambda>f. tf_r f ! 0) (filter (putchar_call fetch) fs)
    \<and> trace_values (io t) = trace_values (io s) @
        (if user_syscall_observed s \<or> \<not> list_ex (putchar_call fetch) fs then [] else [0x48454c10])
    \<and> page_directory t = page_directory s \<and> user_page_table t = user_page_table s
    \<and> user_image_pages t = user_image_pages s \<and> user_stack t = user_stack s"
  using serve_result [of fs fetch P s] assms unfolding with_r0_def by blast

definition sample_call :: "u32 \<Rightarrow> minemu_trap_frame" where
  "sample_call c = \<lparr> tf_r = [c, 0, 0, 0, 0, 0, 0, 1, 0, 0, 0, 0, 0], tf_return_lr = 0x00400004,
     tf_spsr = 0x10, tf_exception_id = - 3, tf_fault_pc = 0x00400000, tf_dfsr = 0, tf_dfar = 0,
     tf_user_sp = 0x00800000, tf_user_lr = 0, tf_reserved = 0 \<rparr>"

theorem svc_serves_witness:
  "\<exists>t rs. serve sample_platform (\<lambda>_. Some 0xef000000) [sample_call 0x48, sample_call 0x148, sample_call 0x49]
      sample_state = (Done rs, t)
    \<and> map (\<lambda>f. tf_r f ! 0) rs = [0, - 1, 0]
    \<and> uart_output (io t) = [0x48, 0x49] \<and> trace_values (io t) = [0x48454c10]"
proof -
  let ?fs = "[sample_call 0x48, sample_call 0x148, sample_call 0x49]"
  have "putchar_call (\<lambda>_. Some 0xef000000) (sample_call 0x48)"
    "\<not> putchar_call (\<lambda>_. Some 0xef000000) (sample_call 0x148)"
    "putchar_call (\<lambda>_. Some 0xef000000) (sample_call 0x49)" by code_simp+
  with svc_serves [of ?fs "\<lambda>_. Some 0xef000000" sample_platform sample_state]
  show ?thesis by (auto simp: sample_state_def sample_call_def)
qed

section \<open>From the handoff to the user program\<close>

text \<open>
  C2: given a sound handoff and a packed image with an acceptable \<^verbatim>\<open>user-hello\<close> module, the
  kernel enters the program at its entry point in user mode with the stack at the top of the user
  space; at that moment the ROM tables and the user page table are entered in the directory, the
  TLB has been flushed after the last change, and the user's four megabytes show the module and a
  zero stack, nothing else.
\<close>

theorem hello_kernel_main_enters:
  assumes "statics_ok s" and "unat (bi_image_size bi) \<le> length img" and "symbols_ok syms"
    and "hello_handoff pointer bi" and "hello_module img bi = Some (m, F)"
  shows "\<exists>t. hello_kernel_main P syms img pointer bi s =
      (Done \<lparr> uc_r0_r3 = [0, 0, 0, 0], uc_pc = mr_entry_vaddr m, uc_sp = 0x00800000, uc_lr = 0,
              uc_cpsr = 0x10 \<rparr>, t)
    \<and> page_directory t ! 1 = kernel_vaddr_to_paddr (sym_user_page_table syms) OR 1
    \<and> (\<forall>k < rom_tables bi. page_directory t ! (32 + k) = rom_pde syms k
        \<and> system_rom_tables t ! k = rom_table_for bi k)
    \<and> (\<exists>log. io t = log @
        [DirectoryWrite 1 (kernel_vaddr_to_paddr (sym_user_page_table syms) OR 1), TlbInvalidateAll, IrqDisable])
    \<and> (\<forall>v. 0x00400000 \<le> v \<longrightarrow> v < 0x00800000 \<longrightarrow> user_walk syms t v = user_space img bi m F v)"
  using hello_main_entered [OF assms, of P] by blast

lemma sample_handoff: "hello_handoff 0xc0007000 sample_boot"
  by code_simp

lemma sample_hello: "hello_module sample_image sample_boot = Some (sample_module, sample_pages_map)"
  by (simp add: hello_module_def sample_index sample_found sample_layout)

theorem hello_kernel_main_enters_witness:
  "\<exists>t. hello_kernel_main sample_platform sample_symbols sample_image 0xc0007000 sample_boot sample_state =
      (Done \<lparr> uc_r0_r3 = [0, 0, 0, 0], uc_pc = 0x00400000, uc_sp = 0x00800000, uc_lr = 0, uc_cpsr = 0x10 \<rparr>, t)
    \<and> user_walk sample_symbols t 0x007fffff = Some (Some 0, 0x17)"
proof -
  from hello_kernel_main_enters [OF sample_statics sample_size sample_symbols_ok sample_handoff sample_hello,
      of sample_platform]
  obtain t where t: "hello_kernel_main sample_platform sample_symbols sample_image 0xc0007000 sample_boot sample_state =
      (Done \<lparr> uc_r0_r3 = [0, 0, 0, 0], uc_pc = mr_entry_vaddr sample_module, uc_sp = 0x00800000, uc_lr = 0, uc_cpsr = 0x10 \<rparr>, t)"
    "\<forall>v. 0x00400000 \<le> v \<longrightarrow> v < 0x00800000 \<longrightarrow>
      user_walk sample_symbols t v = user_space sample_image sample_boot sample_module sample_pages_map v"
    by blast
  from t(2) [rule_format, of "0x007fffff"] t(1) show ?thesis
    by (auto simp: user_space_def sample_module_def)
qed

text \<open>
  C40: the two range checks are exact and free of overflow: they accept an offset and a length, or
  an offset and a number of 32-byte records, exactly when the end, computed without wrap-around,
  is inside the image.
\<close>

theorem image_checks_exact:
  "(image_range_valid offset len image_size \<longleftrightarrow> unat offset + unat len \<le> unat image_size)
   \<and> (image_records_valid offset count image_size \<longleftrightarrow> unat offset + 32 * unat count \<le> unat image_size)"
proof (cases "offset \<le> image_size")
  case True
  then have le: "unat offset \<le> unat image_size" by (simp add: word_le_nat_alt)
  have "unat (image_size - offset) = unat image_size - unat offset" using True by (rule unat_sub_u32)
  moreover have "unat (drop_bit 5 (image_size - offset)) = unat (image_size - offset) div 32"
    by (simp only: unat_drop_bit_eq drop_bit_nat_def) simp
  ultimately show ?thesis
    using True le by (auto simp: image_range_valid_def image_records_valid_def word_le_nat_alt)
next
  case False
  then show ?thesis
    by (simp add: image_range_valid_def image_records_valid_def word_le_nat_alt)
qed

text \<open>
  C29: otherwise the kernel reports the stage that failed, \<^verbatim>\<open>0x48454c01\<close> for the handoff and
  \<^verbatim>\<open>0x48454c02\<close> for the module, as its last trace value, stops, and has not entered a user page
  table.
\<close>

theorem hello_kernel_main_rejects:
  assumes "statics_ok s" and "unat (bi_image_size bi) \<le> length img"
    and "hello_handoff pointer bi \<longrightarrow> hello_module img bi = None"
  shows "\<exists>t. hello_kernel_main P syms img pointer bi s = (FailStop, t)
    \<and> trace_values (io t) = trace_values (io s) @
        [if hello_handoff pointer bi then 0x48454c02 else 0x48454c01]
    \<and> page_directory t ! 1 = page_directory s ! 1"
proof (cases "hello_handoff pointer bi")
  case False
  from hello_main_no_handoff [OF assms(1) False, of P syms img] False show ?thesis by auto
next
  case True
  have "trace_values (map (\<lambda>t. DirectoryWrite (32 + of_nat t) (rom_pde syms t)) xs) = []" for xs
    by (induction xs) auto
  then have "trace_values (io (rom_state syms bi s)) = trace_values (io s)"
    and "page_directory (rom_state syms bi s) ! 1 = page_directory s ! 1"
    by (simp_all add: rom_state_def rom_mapped_def del: upt.simps)
  with hello_main_result [OF assms(1,2) True, where P = P and syms = syms] assms(3) True show ?thesis
    by auto
qed

theorem hello_kernel_main_rejects_witness:
  "\<exists>t. hello_kernel_main sample_platform sample_symbols sample_image 0xc0008000 sample_boot sample_state
      = (FailStop, t) \<and> trace_values (io t) = [0x48454c01]"
proof -
  have no: "\<not> hello_handoff 0xc0008000 sample_boot" by (simp add: hello_handoff_def)
  then have "hello_handoff 0xc0008000 sample_boot \<longrightarrow> hello_module sample_image sample_boot = None" by simp
  from hello_kernel_main_rejects [OF sample_statics sample_size this, of sample_platform sample_symbols] no
  show ?thesis by (auto simp: sample_state_def)
qed

end
