(* ===== verification/BootChain.thy ===== *)
theory BootChain
  imports Bootloader KernelCore HelloProps
begin

text \<open>
  From the Boot ROM into a kernel: what the kernels find in memory is what the packed image says,
  whatever the memory held at power-on. One chain ends in the verdict of the baseline kernel, the
  other in the user program of the example.
\<close>

section \<open>The byte the image asks for\<close>

text \<open>The last segment of the table that covers an address decides its byte.\<close>

definition kernel_byte :: "mem \<Rightarrow> u32 \<Rightarrow> u8 option" where
  "kernel_byte m a =
     (case find (\<lambda>r. in_range (seg_dest (kernel_segment m r)) (seg_mem (kernel_segment m r)) a)
             (rev (kernel_records m)) of
        None \<Rightarrow> None
      | Some r \<Rightarrow> let g = kernel_segment m r in
          Some (if a - seg_dest g < seg_file g then seg_data g (a - seg_dest g) else 0))"

lemma fold_overlay_find:
  "fold overlay (map f rs) m a =
     (case find (\<lambda>r. in_range (seg_dest (f r)) (seg_mem (f r)) a) (rev rs) of
        None \<Rightarrow> m a
      | Some r \<Rightarrow> if a - seg_dest (f r) < seg_file (f r) then seg_data (f r) (a - seg_dest (f r)) else 0)"
  by (induction rs rule: rev_induct) (auto simp: overlay_def)

lemma loaded_byte: "kernel_byte m a = Some b \<Longrightarrow> loaded_image m a = b"
  by (auto simp: kernel_byte_def loaded_image_def fold_overlay_find Let_def split: option.splits)

lemma booted_byte:
  assumes "packed_image m" and "kernel_byte m a = Some b" and "\<not> in_range 0x40007000 64 a"
  shows "snd (boot_main m) a = b"
  using boot_main_result [OF assms(1)] write_boot_info_outside assms(3) loaded_byte [OF assms(2)]
  by simp

text \<open>A word, and cleared words, of the image.\<close>

definition image_word :: "mem \<Rightarrow> u32 \<Rightarrow> u32 \<Rightarrow> bool" where
  "image_word m a w \<longleftrightarrow>
     list_all (\<lambda>i. kernel_byte m (a + of_nat i) = Some (byte_of w i)
       \<and> \<not> in_range 0x40007000 64 (a + of_nat i)) [0..<4]"

lemma booted_word:
  assumes "packed_image m" and "image_word m a w"
  shows "load_u32 (snd (boot_main m)) a = w"
proof -
  have b: "snd (boot_main m) (a + of_nat i) = byte_of w i" if "i < 4" for i
    using booted_byte [OF assms(1)] assms(2) that by (simp add: image_word_def list_all_iff)
  from b [of 0] b [of 1] b [of 2] b [of 3] show ?thesis by (simp add: load_u32_def)
qed

lemma boot_main_rom:
  assumes "packed_image m" and "in_rom a 1"
  shows "snd (boot_main m) a = m a"
proof -
  have "no_wrap 0x40007000 64" by (simp add: no_wrap_def)
  from in_range_no_wrap [OF this, of a] assms(2) have "\<not> in_range 0x40007000 64 a"
    by (simp add: in_rom_def)
  then show ?thesis
    using boot_main_result [OF assms(1)] boot_loop(2) [OF assms(1)] assms(2)
    by (simp add: write_boot_info_outside same_rom_def)
qed

section \<open>Into the baseline kernel\<close>

text \<open>
  C10: on every packed image whose header names one module and whose kernel has its initialised
  word and its 32 zero words, the Boot ROM followed by the baseline kernel traces exactly
  \<^verbatim>\<open>0x20000001\<close> and stops. The memory before the boot is arbitrary outside the ROM.
\<close>

theorem boot_to_baseline:
  assumes "packed_image m" and "read_u32 0x08000008 m \<noteq> 0" and "read_u32 0x08000014 m \<noteq> 0"
    and "read_u32 0x08000018 m = 1"
    and "image_word m data_addr 0x13579bdf"
    and "list_all (\<lambda>i. image_word m (bss_addr + 4 * of_nat i) 0) [0..<32]"
    and "boot_main m = (jump, m')"
    and "initialized_data s = load_u32 m' data_addr" and "zeroed_bss s = load_words m' bss_addr 32"
    and "io s = []"
  shows "\<exists>t. minemu_kernel_main P (argument jump) (boot_info_at m' 0x40007000) s = (FailStop, t)
    \<and> trace_values (io t) = [0x20000001]"
proof -
  have m': "m' = snd (boot_main m)" and j: "jump = fst (boot_main m)" using assms(7) by simp_all
  have "zeroed_bss s = map (\<lambda>_. 0) [0..<32]"
    unfolding assms(9) load_words_def m'
    using assms(6) by (intro map_cong [OF refl]) (auto simp: list_all_iff intro: booted_word [OF assms(1)])
  then have bss: "zeroed_bss s = replicate 32 0" by (simp add: map_replicate_const del: upt.simps)
  have data: "initialized_data s = 0x13579bdf"
    unfolding assms(8) m' by (rule booted_word [OF assms(1,5)])
  have "minemu_kernel_main P (argument jump) (boot_info_at m' 0x40007000) s
      = (FailStop, traced P (verdict (argument jump) (boot_info_at m' 0x40007000) 0x13579bdf (replicate 32 0)) s)"
    using kernel_main_result [of s P "argument jump" "boot_info_at m' 0x40007000"] bss data by simp
  moreover have "verdict (argument jump) (boot_info_at m' 0x40007000) 0x13579bdf (replicate 32 0) = 0x20000001"
    unfolding m' j using boot_main_result [OF assms(1)] assms(2-4)
    by (simp add: verdict_def handoff_ok_def boot_info_written list_all_iff)
  ultimately show ?thesis using assms(10) by (simp add: traced_def)
qed

text \<open>A ROM for the chains: one kernel segment, and one module with one segment.\<close>

definition chain_bytes :: "u8 list" where
  "chain_bytes = words_bytes
     [0x4d424f4f, 1, 148, 32, 1, 68, 1, 0x40008000,
      64, 0x40008000, 0, 4, 132, 0, 0, 0,
      0x13579bdf,
      132, 10, 100, 1, 0x00400000, 0, 0, 0,
      144, 0x00400000, 4, 8, 5, 0, 0, 0]
     @ hello_module_name @ [0, 0, 0, 0, 0xef]"

definition chain_rom :: mem where
  "chain_rom a = (if a - 0x08000000 < 148 then chain_bytes ! unat (a - 0x08000000) else 0xa5)"

lemma chain_records: "kernel_records chain_rom = [0x08000020]"
  by code_simp

lemma chain_fields:
  "read_u32 0x08000020 chain_rom = 64" "read_u32 0x08000024 chain_rom = 0x40008000"
  "read_u32 0x0800002c chain_rom = 4" "read_u32 0x08000030 chain_rom = 132"
  "read_u32 0x08000008 chain_rom = 148" "read_u32 0x08000014 chain_rom = 68"
  "read_u32 0x08000018 chain_rom = 1"
  by code_simp+

lemma chain_packed: "packed_image chain_rom"
  by (simp add: packed_image_def chain_records segment_ok_def kernel_segment_def chain_fields
      in_rom_def Let_def)

lemma chain_byte:
  "kernel_byte chain_rom a =
     (if in_range 0x40008000 132 a
      then Some (if a - 0x40008000 < 4 then chain_rom (0x08000000 + 64 + (a - 0x40008000)) else 0)
      else None)"
  by (simp add: kernel_byte_def chain_records kernel_segment_def chain_fields Let_def)

lemma chain_data: "image_word chain_rom 0x40008000 0x13579bdf"
  by code_simp

lemma chain_bss: "list_all (\<lambda>i. image_word chain_rom (0x40008004 + 4 * of_nat i) 0) [0..<32]"
proof -
  have "kernel_byte chain_rom (0x40008004 + 4 * of_nat i + of_nat k) = Some 0
      \<and> \<not> in_range 0x40007000 64 (0x40008004 + 4 * of_nat i + of_nat k)"
    if "i < 32" "k < 4" for i k :: nat
  proof -
    define a :: u32 where "a = 0x40008004 + 4 * of_nat i + of_nat k"
    have "a - 0x40008000 = of_nat (4 + 4 * i + k)" by (simp add: a_def)
    moreover have "unat (of_nat (4 + 4 * i + k) :: u32) = 4 + 4 * i + k"
      using that by (subst unat_of_nat) simp
    ultimately have off: "unat (a - 0x40008000) = 4 + 4 * i + k" by (simp only:)
    then have "in_range 0x40008000 132 a" "\<not> a - 0x40008000 < 4"
      using that by (simp_all add: in_range_def word_less_nat_alt)
    moreover have "no_wrap 0x40008000 132" "no_wrap 0x40007000 64" by (simp_all add: no_wrap_def)
    ultimately show ?thesis
      using in_range_no_wrap [of "0x40008000" 132 a] in_range_no_wrap [of "0x40007000" 64 a]
      by (simp add: chain_byte a_def)
  qed
  then show ?thesis by (simp add: image_word_def list_all_iff byte_of_def)
qed

theorem boot_to_baseline_witness:
  "\<exists>jump m' t. boot_main chain_rom = (jump, m')
    \<and> minemu_kernel_main sample_platform (argument jump) (boot_info_at m' 0x40007000)
        \<lparr> dev = (), cpsr = 0, io = [], initialized_data = load_u32 m' 0x40008000,
          zeroed_bss = load_words m' 0x40008004 32 \<rparr> = (FailStop, t)
    \<and> trace_values (io t) = [0x20000001]"
proof -
  obtain jump m' where b: "boot_main chain_rom = (jump, m')" by (cases "boot_main chain_rom")
  have "read_u32 0x08000008 chain_rom \<noteq> 0" "read_u32 0x08000014 chain_rom \<noteq> 0"
    by (simp_all add: chain_fields)
  from boot_to_baseline [OF chain_packed this chain_fields(7) chain_data chain_bss b,
      of "\<lparr> dev = (), cpsr = 0, io = [], initialized_data = load_u32 m' 0x40008000,
          zeroed_bss = load_words m' 0x40008004 32 \<rparr>" sample_platform] b
  show ?thesis by auto
qed

section \<open>Into the user program\<close>

text \<open>The packed image as the kernel reads it through its mapping of the ROM.\<close>

definition packed_bytes :: "mem \<Rightarrow> u8 list" where
  "packed_bytes m = map (\<lambda>i. m (0x08000000 + of_nat i)) [0..<unat (read_u32 0x08000008 m)]"

lemma packed_bytes_booted:
  assumes "packed_image m" and "read_u32 0x08000008 m \<le> 0x01000000"
  shows "packed_bytes (snd (boot_main m)) = packed_bytes m"
proof -
  have rom: "same_rom m (snd (boot_main m))"
    using boot_main_rom [OF assms(1)] by (simp add: same_rom_def)
  have "in_rom SYSTEM_ROM_BASE 32" by (simp add: in_rom_def)
  from read_u32_rom [OF rom this, of 8]
  have n: "read_u32 0x08000008 (snd (boot_main m)) = read_u32 0x08000008 m" by simp
  have "snd (boot_main m) (0x08000000 + of_nat i) = m (0x08000000 + of_nat i)"
    if "i < unat (read_u32 0x08000008 m)" for i
  proof -
    have i: "i < 16777216" using that assms(2) by (simp add: word_le_nat_alt)
    have "in_rom 0x08000000 16777216" by (simp add: in_rom_def)
    moreover have "unat (of_nat i :: u32) < 16777216" using i by (subst unat_of_nat) simp
    ultimately have "in_rom (0x08000000 + of_nat i) 1" by (rule in_rom_add)
    then show ?thesis by (rule boot_main_rom [OF assms(1)])
  qed
  then show ?thesis by (simp add: packed_bytes_def n)
qed

text \<open>
  C1: on every packed image of at most 16 MiB that has an acceptable \<^verbatim>\<open>user-hello\<close> module, the Boot
  ROM followed by the example kernel starts the user program at its entry point, in an address
  space that holds the module as the packed image has it: the Boot ROM's record passes the
  kernel's checks, and what it loaded has left the image intact.
\<close>

theorem boot_to_user:
  assumes "packed_image m" and "read_u32 0x08000008 m \<noteq> 0" and "read_u32 0x08000008 m \<le> 0x01000000"
    and "boot_main m = (jump, m')" and "statics_ok s" and "symbols_ok syms"
    and "hello_module (packed_bytes m) (boot_info_at m' 0x40007000) = Some (p, F)"
  shows "\<exists>t. hello_kernel_main P syms (packed_bytes m') (argument jump) (boot_info_at m' 0x40007000) s =
      (Done \<lparr> uc_r0_r3 = [0, 0, 0, 0], uc_pc = mr_entry_vaddr p, uc_sp = 0x00800000, uc_lr = 0, uc_cpsr = 0x10 \<rparr>, t)
    \<and> (\<forall>v. 0x00400000 \<le> v \<longrightarrow> v < 0x00800000 \<longrightarrow>
        user_walk syms t v = user_space (packed_bytes m) (boot_info_at m' 0x40007000) p F v)"
proof -
  let ?bi = "boot_info_at m' 0x40007000"
  have m': "m' = snd (boot_main m)" and j: "jump = fst (boot_main m)" using assms(4) by simp_all
  have img: "packed_bytes m' = packed_bytes m"
    unfolding m' by (rule packed_bytes_booted [OF assms(1,3)])
  have bi: "?bi = \<lparr> bi_magic = 0x4d424f4f, bi_version = 1, bi_size = 64,
        bi_system_rom_base = 0x08000000, bi_image_size = read_u32 0x08000008 m,
        bi_module_table_offset = read_u32 0x08000014 m, bi_module_count = read_u32 0x08000018 m,
        bi_direct_map_vaddr = 0xc0000000, bi_direct_map_paddr = 0x40000000,
        bi_direct_map_size = 0x04000000, bi_flags = 0, bi_reserved = [0, 0, 0, 0, 0, 0] \<rparr>"
    unfolding m' by (simp add: boot_main_result [OF assms(1)] boot_info_written)
  have arg: "argument jump = 0xc0007000"
    unfolding j by (simp add: boot_main_result [OF assms(1)])
  have handoff: "hello_handoff (argument jump) ?bi"
    unfolding hello_handoff_def rom_ok_def bi arg using assms(2,3) by simp
  have size: "unat (bi_image_size ?bi) \<le> length (packed_bytes m)"
    unfolding bi by (simp add: packed_bytes_def)
  let ?u = "rom_state syms ?bi s"
  have lay: "module_layout (packed_bytes m) ?bi p = Some F"
    using assms(7) by (auto simp: hello_module_def split: option.splits)
  from hello_main_result [OF assms(5) size handoff, where P = P and syms = syms] assms(7)
  obtain t where t: "load_user_module syms (packed_bytes m) ?bi p ?u = (Done True, t)"
    "hello_kernel_main P syms (packed_bytes m) (argument jump) ?bi s =
      (Done (start_context p), entered t)" by auto
  have "statics_ok ?u" by (rule statics_rom_state [OF assms(5)])
  from loaded_space [OF this size assms(6) lay] t show ?thesis
    unfolding img start_context_def by (intro exI [of _ "entered t"]) (auto simp: entered_walk)
qed

definition chain_boot :: minemu_boot_info where
  "chain_boot = \<lparr> bi_magic = 0x4d424f4f, bi_version = 1, bi_size = 64,
     bi_system_rom_base = 0x08000000, bi_image_size = 148,
     bi_module_table_offset = 68, bi_module_count = 1, bi_direct_map_vaddr = 0xc0000000,
     bi_direct_map_paddr = 0x40000000, bi_direct_map_size = 0x04000000, bi_flags = 0,
     bi_reserved = [0, 0, 0, 0, 0, 0] \<rparr>"

definition chain_module :: minemu_module_record where
  "chain_module = \<lparr> mr_name_offset = 132, mr_name_length = 10, mr_segment_table_offset = 100,
     mr_segment_count = 1, mr_entry_vaddr = 0x00400000, mr_flags = 0, mr_reserved = [0, 0] \<rparr>"

definition chain_segment :: minemu_module_segment where
  "chain_segment = \<lparr> ms_data_offset = 144, ms_virtual_address = 0x00400000, ms_file_size = 4,
     ms_memory_size = 8, ms_flags = 5, ms_reserved = [0, 0, 0] \<rparr>"

lemma chain_boot_info: "boot_info_at (snd (boot_main chain_rom)) 0x40007000 = chain_boot"
  by (simp add: boot_main_result [OF chain_packed] boot_info_written chain_boot_def chain_fields)

lemma chain_packed_bytes: "packed_bytes chain_rom = chain_bytes"
proof -
  have len: "length chain_bytes = 148" by (simp add: chain_bytes_def hello_module_name_def)
  have "chain_rom (0x08000000 + of_nat i) = chain_bytes ! i" if "i < 148" for i
  proof -
    have u: "unat (of_nat i :: u32) = i" using that by (subst unat_of_nat) simp
    then show ?thesis using that by (simp add: chain_rom_def word_less_nat_alt)
  qed
  then have "packed_bytes chain_rom = map ((!) chain_bytes) [0..<148]"
    by (simp add: packed_bytes_def chain_fields del: upt.simps)
  then show ?thesis using map_nth [of chain_bytes] len by simp
qed

lemma chain_found: "module_at chain_bytes chain_boot 0 = chain_module"
  by code_simp

lemma chain_segments: "module_segments chain_bytes chain_boot chain_module = [chain_segment]"
  by code_simp

lemma chain_index: "module_index chain_bytes chain_boot hello_module_name 10 = Some 0"
proof -
  have "list_all (\<lambda>k. image_mem chain_bytes 0x08000000 (0x08000000 + 132 + of_nat k) = hello_module_name ! k) [0..<10]"
    by code_simp
  then have "image_mem chain_bytes 0x08000000 (0x08000000 + 132 + i) = hello_module_name ! unat i"
    if "i < 10" for i
    using that by (auto simp: list_all_iff word_less_nat_alt dest!: bspec [where x = "unat i"])
  then have "has_name chain_bytes chain_boot hello_module_name 10 chain_module"
    by (simp add: has_name_def chain_module_def chain_boot_def image_range_valid_def)
  moreover have "image_records_valid (bi_module_table_offset chain_boot) (bi_module_count chain_boot)
      (bi_image_size chain_boot)" by code_simp
  moreover have "unat (bi_module_count chain_boot) = Suc 0" by (simp add: chain_boot_def)
  ultimately show ?thesis by (simp add: module_index_def chain_found)
qed

lemma chain_layout: "module_layout chain_bytes chain_boot chain_module = Some sample_pages_map"
proof -
  have pages: "segment_pages chain_segment = {0x00400000}"
    using sample_pages by (simp add: segment_pages_def sample_segment_def chain_segment_def)
  have "user_segment_ok chain_boot chain_segment" by code_simp
  moreover have "fits Map.empty (segment_pte chain_segment) (segment_pages chain_segment)"
    by (simp add: fits_def pages)
  moreover have "segment_pte chain_segment = 0x18" by code_simp
  moreover have "module_header_ok chain_boot chain_module" by code_simp
  moreover have "makes_entry chain_module chain_segment" by code_simp
  ultimately show ?thesis
    by (simp add: module_layout_def chain_segments pages enter_pages_def
        sample_pages_map_def fun_eq_iff)
qed

theorem boot_to_user_witness:
  "\<exists>jump m' t. boot_main chain_rom = (jump, m')
    \<and> hello_kernel_main sample_platform sample_symbols (packed_bytes m') (argument jump)
        (boot_info_at m' 0x40007000) sample_state =
      (Done \<lparr> uc_r0_r3 = [0, 0, 0, 0], uc_pc = 0x00400000, uc_sp = 0x00800000, uc_lr = 0, uc_cpsr = 0x10 \<rparr>, t)"
proof -
  obtain jump m' where b: "boot_main chain_rom = (jump, m')" by (cases "boot_main chain_rom")
  have bi: "boot_info_at m' 0x40007000 = chain_boot" using chain_boot_info b by simp
  have "hello_module (packed_bytes chain_rom) (boot_info_at m' 0x40007000) =
      Some (chain_module, sample_pages_map)"
    unfolding bi chain_packed_bytes
    by (simp add: hello_module_def chain_index chain_found chain_layout)
  moreover have "read_u32 0x08000008 chain_rom \<noteq> 0" "read_u32 0x08000008 chain_rom \<le> 0x01000000"
    by (simp_all add: chain_fields)
  ultimately obtain t where "hello_kernel_main sample_platform sample_symbols (packed_bytes m') (argument jump)
        (boot_info_at m' 0x40007000) sample_state =
      (Done \<lparr> uc_r0_r3 = [0, 0, 0, 0], uc_pc = mr_entry_vaddr chain_module, uc_sp = 0x00800000, uc_lr = 0, uc_cpsr = 0x10 \<rparr>, t)"
    using boot_to_user [OF chain_packed _ _ b sample_statics sample_symbols_ok,
        of chain_module sample_pages_map sample_platform] by blast
  with b show ?thesis by (auto simp: chain_module_def)
qed

end
