(* ===== verification/Trap.thy ===== *)
theory Trap
  imports Runtime
begin

text \<open>
  Exception entry and return: the trampolines of \<^verbatim>\<open>kernel/src/startup/vectors.S\<close> and the SVC and
  IRQ trampolines of the examples (\<^verbatim>\<open>svc.S\<close>, \<^verbatim>\<open>irq.S\<close>), instruction by instruction, over a
  memory of 32-bit words. An entry builds a \<^verbatim>\<open>struct minemu_trap_frame\<close> on the stack of the
  exception mode and calls the C dispatcher with its address; the return loads the context from a
  frame again, the one the dispatcher chose or the same.
\<close>

section \<open>The processor as the trampolines see it\<close>

text \<open>
  Word memory; the registers \<^verbatim>\<open>r0\<close> to \<^verbatim>\<open>r12\<close> and the program counter of the running code; the
  banked stack pointer, link register and saved status of the exception mode; the user bank of
  stack pointer and link register; the two fault registers.
\<close>

record 'd processor = "'d machine" +
  ram :: "u32 \<Rightarrow> u32"
  gpr :: "u32 list"
  pc :: u32
  exc_sp :: u32
  exc_lr :: u32
  exc_spsr :: u32
  usr_sp :: u32
  usr_lr :: u32
  fault_status :: u32
  fault_address :: u32

definition minemu_mmu_dfsr :: "(('d, 'z) processor_scheme, u32) cmd" where
  "minemu_mmu_dfsr = gets fault_status"

definition minemu_mmu_dfar :: "(('d, 'z) processor_scheme, u32) cmd" where
  "minemu_mmu_dfar = gets fault_address"

text \<open>
  What the processor does on an exception: the return address goes to the link register of the
  mode, the status word to its saved status, and the mode is entered with IRQ masked. The
  offset of the return address from the interrupted instruction is 8 for a data abort and 4 for
  the others.
\<close>

definition take_exception :: "u32 \<Rightarrow> u32 \<Rightarrow> ('d, 'z) processor_scheme \<Rightarrow> ('d, 'z) processor_scheme" where
  "take_exception mode offset s = s\<lparr>exc_lr := pc s + offset, exc_spsr := cpsr s,
     cpsr := (cpsr s AND NOT 0x1f) OR mode OR 0x80\<rparr>"

section \<open>Instructions\<close>

text \<open>Store and load multiple, upwards from an address.\<close>

fun stmia :: "u32 \<Rightarrow> u32 list \<Rightarrow> (u32 \<Rightarrow> u32) \<Rightarrow> (u32 \<Rightarrow> u32)" where
  "stmia p [] m = m"
| "stmia p (v # vs) m = stmia (p + 4) vs (m(p := v))"

fun ldmia :: "u32 \<Rightarrow> nat \<Rightarrow> (u32 \<Rightarrow> u32) \<Rightarrow> u32 list" where
  "ldmia p 0 m = []"
| "ldmia p (Suc n) m = m p # ldmia (p + 4) n m"

text \<open>The instructions of the trampolines; every one goes on to the next.\<close>

definition mov :: "nat \<Rightarrow> (('d, 'z) processor_scheme \<Rightarrow> u32) \<Rightarrow> (('d, 'z) processor_scheme, unit) cmd" where
  "mov n f = modify (\<lambda>s. s\<lparr>gpr := (gpr s)[n := f s]\<rparr>)"

definition str :: "nat \<Rightarrow> u32 \<Rightarrow> (('d, 'z) processor_scheme, unit) cmd" where
  "str n offset = modify (\<lambda>s. s\<lparr>ram := (ram s)(exc_sp s + offset := gpr s ! n)\<rparr>)"

definition str_lr :: "u32 \<Rightarrow> (('d, 'z) processor_scheme, unit) cmd" where
  "str_lr offset = modify (\<lambda>s. s\<lparr>ram := (ram s)(exc_sp s + offset := exc_lr s)\<rparr>)"

definition stm_gpr :: "(('d, 'z) processor_scheme, unit) cmd" where
  "stm_gpr = modify (\<lambda>s. s\<lparr>ram := stmia (exc_sp s) (gpr s) (ram s)\<rparr>)"

definition stm_usr :: "nat \<Rightarrow> (('d, 'z) processor_scheme, unit) cmd" where
  "stm_usr n = modify (\<lambda>s. s\<lparr>ram := stmia (gpr s ! n) [usr_sp s, usr_lr s] (ram s)\<rparr>)"

definition ldr_lr :: "u32 \<Rightarrow> (('d, 'z) processor_scheme, unit) cmd" where
  "ldr_lr offset = modify (\<lambda>s. s\<lparr>exc_lr := ram s (exc_sp s + offset)\<rparr>)"

definition msr_spsr :: "nat \<Rightarrow> (('d, 'z) processor_scheme, unit) cmd" where
  "msr_spsr n = modify (\<lambda>s. s\<lparr>exc_spsr := gpr s ! n\<rparr>)"

definition ldm_usr :: "nat \<Rightarrow> (('d, 'z) processor_scheme, unit) cmd" where
  "ldm_usr n = modify (\<lambda>s. s\<lparr>usr_sp := ram s (gpr s ! n), usr_lr := ram s (gpr s ! n + 4)\<rparr>)"

definition ldm_gpr :: "(('d, 'z) processor_scheme, unit) cmd" where
  "ldm_gpr = modify (\<lambda>s. s\<lparr>gpr := ldmia (exc_sp s) 13 (ram s)\<rparr>)"

definition add_sp :: "u32 \<Rightarrow> (('d, 'z) processor_scheme, unit) cmd" where
  "add_sp n = modify (\<lambda>s. s\<lparr>exc_sp := exc_sp s + n\<rparr>)"

text \<open>\<^verbatim>\<open>subs pc, lr, #n\<close>: the exception return, which also restores the status word.\<close>

definition subs_pc_lr :: "u32 \<Rightarrow> (('d, 'z) processor_scheme, unit) cmd" where
  "subs_pc_lr n = modify (\<lambda>s. s\<lparr>pc := exc_lr s - n, cpsr := exc_spsr s\<rparr>)"

text \<open>
  \<^verbatim>\<open>bl\<close> to a C function of one argument, under the procedure call standard: the argument is in
  \<^verbatim>\<open>r0\<close>, the result comes back in \<^verbatim>\<open>r0\<close>, and \<^verbatim>\<open>r1\<close> to \<^verbatim>\<open>r3\<close>, \<^verbatim>\<open>r12\<close> and the link register hold
  whatever the function left there (\<open>junk\<close>).
\<close>

definition bl :: "(nat \<Rightarrow> u32) \<Rightarrow> (u32 \<Rightarrow> (('d, 'z) processor_scheme, u32) cmd)
    \<Rightarrow> (('d, 'z) processor_scheme, unit) cmd" where
  "bl junk f =
     bind (gets (\<lambda>s. gpr s ! 0)) (\<lambda>a.
     bind (f a) (\<lambda>r.
     modify (\<lambda>s. s\<lparr>exc_lr := junk 14,
       gpr := (gpr s)[0 := r, 1 := junk 1, 2 := junk 2, 3 := junk 3, 12 := junk 12]\<rparr>)))"

section \<open>Trampolines\<close>

text \<open>
  The instructions that build the frame. The entries differ in how \<^verbatim>\<open>r1\<close> gets the exception id
  and the fault status and address, and in the offset of the faulting instruction from the link
  register.
\<close>

definition save_frame :: "(('d, 'z) processor_scheme, unit) cmd list \<Rightarrow> u32
    \<Rightarrow> (('d, 'z) processor_scheme, unit) cmd list \<Rightarrow> (('d, 'z) processor_scheme, unit) cmd list
    \<Rightarrow> (('d, 'z) processor_scheme, unit) cmd" where
  "save_frame load_id offset load_status load_address = block (
     [add_sp (- 88), stm_gpr, str_lr 52, mov 1 exc_spsr, str 1 56]
     @ load_id @ [str 1 60, mov 1 (\<lambda>s. exc_lr s - offset), str 1 64]
     @ load_status @ [str 1 68] @ load_address @ [str 1 72,
      mov 1 (\<lambda>s. exc_sp s + 76), stm_usr 1, mov 1 (\<lambda>s. 0), str 1 84, mov 0 exc_sp])"

definition restore_frame :: "u32 \<Rightarrow> (('d, 'z) processor_scheme, unit) cmd" where
  "restore_frame offset = block
     [ldr_lr 52, mov 1 (\<lambda>s. ram s (exc_sp s + 56)), msr_spsr 1,
      mov 1 (\<lambda>s. exc_sp s + 76), ldm_usr 1, ldm_gpr, add_sp 88, subs_pc_lr offset]"

abbreviation (input) "cleared \<equiv> mov 1 (\<lambda>s. 0)"

text \<open>\<^verbatim>\<open>mov sp, r0\<close>: continue on the frame the dispatcher returned.\<close>

definition mov_sp_r0 :: "(('d, 'z) processor_scheme, unit) cmd" where
  "mov_sp_r0 = modify (\<lambda>s. s\<lparr>exc_sp := gpr s ! 0\<rparr>)"

text \<open>\<^verbatim>\<open>ldr r1, [r1, #offset]\<close> from a device register.\<close>

definition ldr_device :: "'d platform \<Rightarrow> nat \<Rightarrow> u32 \<Rightarrow> (('d, 'z) processor_scheme, unit) cmd" where
  "ldr_device P n offset =
     bind (gets (\<lambda>s. gpr s ! n)) (\<lambda>a.
     bind (MINEMU_MMIO_READ32 P (a + offset)) (\<lambda>v. mov n (\<lambda>s. v)))"

definition minemu_svc_trampoline :: "(nat \<Rightarrow> u32) \<Rightarrow> (u32 \<Rightarrow> (('d, 'z) processor_scheme, u32) cmd)
    \<Rightarrow> (('d, 'z) processor_scheme, unit) cmd" where
  "minemu_svc_trampoline junk minemu_svc_dispatch = block
     [save_frame [mov 1 (\<lambda>s. - 3)] 4 [cleared] [],
      bl junk minemu_svc_dispatch, mov_sp_r0, restore_frame 0]"

definition minemu_irq_trampoline :: "'d platform \<Rightarrow> (nat \<Rightarrow> u32)
    \<Rightarrow> (u32 \<Rightarrow> (('d, 'z) processor_scheme, u32) cmd) \<Rightarrow> (('d, 'z) processor_scheme, unit) cmd" where
  "minemu_irq_trampoline P junk minemu_irq_dispatch = block
     [save_frame [mov 1 (\<lambda>s. 0x10000000), ldr_device P 1 8] 4 [cleared] [],
      bl junk minemu_irq_dispatch, mov_sp_r0, restore_frame 4]"

text \<open>A C dispatcher that returns nothing leaves \<^verbatim>\<open>r0\<close> with some value.\<close>

definition returns_nothing :: "(nat \<Rightarrow> u32) \<Rightarrow> (u32 \<Rightarrow> (('d, 'z) processor_scheme, unit) cmd)
    \<Rightarrow> u32 \<Rightarrow> (('d, 'z) processor_scheme, u32) cmd" where
  "returns_nothing junk f a = bind (f a) (\<lambda>_. ret (junk 0))"

definition minemu_undefined_entry :: "(nat \<Rightarrow> u32) \<Rightarrow> (u32 \<Rightarrow> (('d, 'z) processor_scheme, unit) cmd)
    \<Rightarrow> (('d, 'z) processor_scheme, unit) cmd" where
  "minemu_undefined_entry junk minemu_undefined_dispatch = block
     [save_frame [mov 1 (\<lambda>s. - 4)] 4 [cleared] [],
      bl junk (returns_nothing junk minemu_undefined_dispatch), restore_frame 0]"

definition minemu_prefetch_abort_entry :: "(nat \<Rightarrow> u32) \<Rightarrow> (u32 \<Rightarrow> (('d, 'z) processor_scheme, unit) cmd)
    \<Rightarrow> (('d, 'z) processor_scheme, unit) cmd" where
  "minemu_prefetch_abort_entry junk minemu_abort_dispatch = block
     [save_frame [mov 1 (\<lambda>s. - 2)] 4 [mov 1 fault_status] [mov 1 fault_address],
      bl junk (returns_nothing junk minemu_abort_dispatch), restore_frame 4]"

definition minemu_data_abort_entry :: "(nat \<Rightarrow> u32) \<Rightarrow> (u32 \<Rightarrow> (('d, 'z) processor_scheme, unit) cmd)
    \<Rightarrow> (('d, 'z) processor_scheme, unit) cmd" where
  "minemu_data_abort_entry junk minemu_abort_dispatch = block
     [save_frame [mov 1 (\<lambda>s. - 1)] 8 [mov 1 fault_status] [mov 1 fault_address],
      bl junk (returns_nothing junk minemu_abort_dispatch), restore_frame 8]"

section \<open>Frames in memory\<close>

text \<open>The structure at an address, field by field.\<close>

definition trap_frame_at :: "(u32 \<Rightarrow> u32) \<Rightarrow> u32 \<Rightarrow> minemu_trap_frame" where
  "trap_frame_at m p = \<lparr> tf_r = ldmia p 13 m, tf_return_lr = m (p + 52), tf_spsr = m (p + 56),
     tf_exception_id = m (p + 60), tf_fault_pc = m (p + 64), tf_dfsr = m (p + 68),
     tf_dfar = m (p + 72), tf_user_sp = m (p + 76), tf_user_lr = m (p + 80),
     tf_reserved = m (p + 84) \<rparr>"

definition frame_words :: "minemu_trap_frame \<Rightarrow> u32 list" where
  "frame_words f = tf_r f @ [tf_return_lr f, tf_spsr f, tf_exception_id f, tf_fault_pc f,
     tf_dfsr f, tf_dfar f, tf_user_sp f, tf_user_lr f, tf_reserved f]"

text \<open>A dispatcher in C stores a word at an address.\<close>

definition store_field :: "u32 \<Rightarrow> (('d, 'z) processor_scheme \<Rightarrow> u32) \<Rightarrow> (('d, 'z) processor_scheme, unit) cmd" where
  "store_field a f = modify (\<lambda>s. s\<lparr>ram := (ram s)(a := f s)\<rparr>)"

text \<open>The context a frame holds, as the return with the given offset resumes it.\<close>

record task_context =
  cx_r :: "u32 list"
  cx_pc :: u32
  cx_psr :: u32
  cx_sp :: u32
  cx_lr :: u32

definition frame_context :: "u32 \<Rightarrow> minemu_trap_frame \<Rightarrow> task_context" where
  "frame_context offset f = \<lparr> cx_r = tf_r f, cx_pc = tf_return_lr f - offset, cx_psr = tf_spsr f,
     cx_sp = tf_user_sp f, cx_lr = tf_user_lr f \<rparr>"

text \<open>
  The running code's own. The link register and the saved status of the exception mode are not part
  of it; \<open>program_view\<close> below adds them for code that runs in that mode.
\<close>

definition running_context :: "('d, 'z) processor_scheme \<Rightarrow> task_context" where
  "running_context s = \<lparr> cx_r = gpr s, cx_pc = pc s, cx_psr = cpsr s, cx_sp = usr_sp s, cx_lr = usr_lr s \<rparr>"

section \<open>What an entry stores\<close>

lemma block_append: "block (cs @ ds) s = bind (block cs) (\<lambda>_. block ds) s"
proof (induction cs arbitrary: s)
  case Nil
  then show ?case by (simp add: bind_ret)
next
  case (Cons c cs)
  then show ?case by (auto simp: bind_def split: prod.splits outcome.splits)
qed

lemma word4_neq: "0 < k \<Longrightarrow> k \<le> 22 \<Longrightarrow> (4 * of_nat k :: u32) \<noteq> 0"
proof
  assume "0 < k" "k \<le> 22" and eq: "(4 * of_nat k :: u32) = 0"
  have "unat (4 * of_nat k :: u32) = 4 * k"
    using \<open>k \<le> 22\<close> by (simp add: unat_word_ariths unat_of_nat)
  with eq \<open>0 < k\<close> show False by simp
qed

lemma stmia_outside:
  "(\<And>k. k < length vs \<Longrightarrow> a \<noteq> p + 4 * of_nat k) \<Longrightarrow> stmia p vs m a = m a"
proof (induction vs arbitrary: p m)
  case Nil
  then show ?case by simp
next
  case (Cons v vs)
  have "a \<noteq> p" using Cons.prems [of 0] by simp
  moreover have "stmia (p + 4) vs (m(p := v)) a = (m(p := v)) a"
  proof (rule Cons.IH)
    fix k assume "k < length vs"
    then show "a \<noteq> p + 4 + 4 * of_nat k"
      using Cons.prems [of "Suc k"] by (simp add: algebra_simps)
  qed
  ultimately show ?case by simp
qed

lemma stmia_read:
  "k < length vs \<Longrightarrow> length vs \<le> 22 \<Longrightarrow> stmia p vs m (p + 4 * of_nat k) = vs ! k"
proof (induction vs arbitrary: p m k)
  case Nil
  then show ?case by simp
next
  case (Cons v vs)
  show ?case
  proof (cases k)
    case 0
    have "stmia (p + 4) vs (m(p := v)) p = (m(p := v)) p"
    proof (rule stmia_outside)
      fix j assume "j < length vs"
      then have "(4 * of_nat (Suc j) :: u32) \<noteq> 0" using Cons.prems by (intro word4_neq) simp_all
      then show "p \<noteq> p + 4 + 4 * of_nat j" by (simp add: algebra_simps)
    qed
    with 0 show ?thesis by simp
  next
    case (Suc j)
    then have "stmia (p + 4) vs (m(p := v)) (p + 4 + 4 * of_nat j) = vs ! j"
      using Cons.prems by (intro Cons.IH) simp_all
    with Suc show ?thesis by (simp add: algebra_simps)
  qed
qed

lemma word4_unat: "k < 22 \<Longrightarrow> unat (4 * of_nat k :: u32) = 4 * k"
  by (simp add: unat_word_ariths unat_of_nat)

lemma word4_inj: "j < 22 \<Longrightarrow> k < 22 \<Longrightarrow> (4 * of_nat j :: u32) = 4 * of_nat k \<longleftrightarrow> j = k"
proof
  assume "j < 22" "k < 22" and "(4 * of_nat j :: u32) = 4 * of_nat k"
  then have "unat (4 * of_nat j :: u32) = unat (4 * of_nat k :: u32)" by simp
  with word4_unat [OF \<open>j < 22\<close>] word4_unat [OF \<open>k < 22\<close>] show "j = k" by linarith
qed simp

lemma stmia_update:
  assumes k: "k < length vs" and len: "length vs \<le> 22"
  shows "(stmia p vs m)(p + 4 * of_nat k := w) = stmia p (vs[k := w]) m"
proof
  fix a
  show "((stmia p vs m)(p + 4 * of_nat k := w)) a = stmia p (vs[k := w]) m a"
  proof (cases "\<exists>j < length vs. a = p + 4 * of_nat j")
    case True
    then obtain j where j: "j < length vs" "a = p + 4 * of_nat j" by blast
    have "p + 4 * of_nat j = p + 4 * of_nat k \<longleftrightarrow> j = k"
      using word4_inj [of j k] j k len by simp
    with j k len show ?thesis by (simp add: stmia_read nth_list_update)
  next
    case False
    then have "stmia p vs m a = m a" "stmia p (vs[k := w]) m a = m a"
      by (intro stmia_outside; simp)+
    with False k show ?thesis by auto
  qed
qed

lemma stmia_append: "stmia p (xs @ ys) m = stmia (p + 4 * of_nat (length xs)) ys (stmia p xs m)"
  by (induction xs arbitrary: p m) (simp_all add: algebra_simps)

lemma ldmia_eq: "ldmia p n m = map (\<lambda>k. m (p + 4 * of_nat k)) [0..<n]"
proof (induction n arbitrary: p)
  case 0
  then show ?case by simp
next
  case (Suc n)
  then show ?case
    by (simp add: upt_rec [of 0 "Suc n"] map_Suc_upt [symmetric] algebra_simps del: upt_Suc)
qed

text \<open>Reading a frame back gives the frame that was stored.\<close>

lemma length_frame_words: "length (tf_r f) = 13 \<Longrightarrow> length (frame_words f) = 22"
  by (simp add: frame_words_def)

lemma frame_read: "length (tf_r f) = 13 \<Longrightarrow> trap_frame_at (stmia p (frame_words f) m) p = f"
proof -
  assume len: "length (tf_r f) = 13"
  let ?m = "stmia p (frame_words f) m"
  have rd: "?m (p + 4 * of_nat k) = frame_words f ! k" if "k < 22" for k
    using len that by (intro stmia_read) (simp_all add: length_frame_words)
  have "ldmia p 13 ?m = map (\<lambda>k. frame_words f ! k) [0..<13]"
    unfolding ldmia_eq using rd by (intro map_cong) simp_all
  also have "\<dots> = tf_r f"
    using len by (intro nth_equalityI) (simp_all add: frame_words_def nth_append)
  finally have r: "ldmia p 13 ?m = tf_r f" .
  have "frame_words f ! (13 + j) = [tf_return_lr f, tf_spsr f, tf_exception_id f, tf_fault_pc f,
     tf_dfsr f, tf_dfar f, tf_user_sp f, tf_user_lr f, tf_reserved f] ! j" for j
    using len by (simp add: frame_words_def nth_append)
  from this [of 0] this [of 1] this [of 2] this [of 3] this [of 4] this [of 5] this [of 6]
    this [of 7] this [of 8]
  show ?thesis
    using r rd [of 13] rd [of 14] rd [of 15] rd [of 16] rd [of 17] rd [of 18] rd [of 19]
      rd [of 20] rd [of 21]
    by (simp add: trap_frame_at_def)
qed

definition in_frame :: "u32 \<Rightarrow> u32 \<Rightarrow> bool" where
  "in_frame p a \<longleftrightarrow> in_range p 88 a"

lemma frame_outside:
  assumes "length vs \<le> 22" and "\<not> in_frame p a"
  shows "stmia p vs m a = m a"
proof (rule stmia_outside)
  fix k assume "k < length vs"
  then have "k < 22" using assms(1) by simp
  then have "unat (4 * of_nat k :: u32) = 4 * k" by (simp add: unat_word_ariths unat_of_nat)
  with \<open>k < 22\<close> have "in_frame p (p + 4 * of_nat k)"
    by (simp add: in_frame_def in_range_def word_less_nat_alt)
  with assms(2) show "a \<noteq> p + 4 * of_nat k" by blast
qed

lemma trap_frame_cong:
  assumes "\<And>a. in_frame p a \<Longrightarrow> m a = m' a"
  shows "trap_frame_at m p = trap_frame_at m' p"
proof -
  have "m (p + 4 * of_nat k) = m' (p + 4 * of_nat k)" if "k < 22" for k
  proof (rule assms)
    have "unat (4 * of_nat k :: u32) = 4 * k"
      using that by (simp add: unat_word_ariths unat_of_nat)
    with that show "in_frame p (p + 4 * of_nat k)"
      by (simp add: in_frame_def in_range_def word_less_nat_alt)
  qed
  from this [of 13] this [of 14] this [of 15] this [of 16] this [of 17] this [of 18] this [of 19]
    this [of 20] this [of 21] this
  show ?thesis by (simp add: trap_frame_at_def ldmia_eq)
qed

text \<open>A store into a field of the frame.\<close>

lemma frame_fields:
  "trap_frame_at (m(p + 52 := w)) p = (trap_frame_at m p)\<lparr>tf_return_lr := w\<rparr>"
  "trap_frame_at (m(p + 56 := w)) p = (trap_frame_at m p)\<lparr>tf_spsr := w\<rparr>"
proof -
  have "(4 * of_nat k :: u32) \<noteq> 52" "(4 * of_nat k :: u32) \<noteq> 56" if "k < 13" for k
    using word4_inj [of k 13] word4_inj [of k 14] that by simp_all
  then have "ldmia p 13 (m(p + 52 := w)) = ldmia p 13 m" "ldmia p 13 (m(p + 56 := w)) = ldmia p 13 m"
    unfolding ldmia_eq by (intro map_cong; simp)+
  then show "trap_frame_at (m(p + 52 := w)) p = (trap_frame_at m p)\<lparr>tf_return_lr := w\<rparr>"
    "trap_frame_at (m(p + 56 := w)) p = (trap_frame_at m p)\<lparr>tf_spsr := w\<rparr>"
    by (simp_all add: trap_frame_at_def)
qed

lemma in_frame_fields: "in_frame p (p + 52)" "in_frame p (p + 56)"
  by (simp_all add: in_frame_def in_range_def)

text \<open>The frame an entry builds, and the state in which it calls the dispatcher.\<close>

definition entry_frame :: "u32 \<Rightarrow> u32 \<Rightarrow> u32 \<Rightarrow> u32 \<Rightarrow> ('d, 'z) processor_scheme \<Rightarrow> minemu_trap_frame" where
  "entry_frame eid offset status address s = \<lparr> tf_r = gpr s, tf_return_lr = exc_lr s,
     tf_spsr = exc_spsr s, tf_exception_id = eid, tf_fault_pc = exc_lr s - offset,
     tf_dfsr = status, tf_dfar = address, tf_user_sp = usr_sp s, tf_user_lr = usr_lr s,
     tf_reserved = 0 \<rparr>"

definition framed :: "u32 \<Rightarrow> u32 \<Rightarrow> u32 \<Rightarrow> u32 \<Rightarrow> ('d, 'z) processor_scheme \<Rightarrow> ('d, 'z) processor_scheme" where
  "framed eid offset status address s = s\<lparr>exc_sp := exc_sp s - 88,
     ram := stmia (exc_sp s - 88) (frame_words (entry_frame eid offset status address s)) (ram s),
     gpr := (gpr s)[1 := 0, 0 := exc_sp s - 88]\<rparr>"

lemmas instr_defs = mov_def str_def str_lr_def stm_gpr_def stm_usr_def ldr_lr_def msr_spsr_def
  ldm_usr_def ldm_gpr_def add_sp_def subs_pc_lr_def mov_sp_r0_def ldr_device_def

lemma frame_ram:
  "length r = 13 \<Longrightarrow>
   (stmia p r m)(p + 52 := w0, p + 56 := w1, p + 60 := w2, p + 64 := w3, p + 68 := w4,
      p + 72 := w5, p + 76 := w6, p + 80 := w7, p + 84 := w8) =
   stmia p (r @ [w0, w1, w2, w3, w4, w5, w6, w7, w8]) m"
  by (simp add: stmia_append algebra_simps)

lemma save_frames:
  assumes "length (gpr s) = 13"
  shows "save_frame [mov 1 (\<lambda>s. eid)] offset [cleared] [] s = (Done (), framed eid offset 0 0 s)"
    and "save_frame [mov 1 (\<lambda>s. eid)] offset [mov 1 fault_status] [mov 1 fault_address] s =
      (Done (), framed eid offset (fault_status s) (fault_address s) s)"
    and "save_frame [mov 1 (\<lambda>s. 0x10000000), ldr_device P 1 8] offset [cleared] [] s =
      (let (v, d) = reg_read P 0x10000008 (dev s)
       in (Done (), (framed v offset 0 0 s)\<lparr>dev := d, io := io s @ [RegRead 0x10000008 v]\<rparr>))"
  using assms
  by (simp_all add: save_frame_def instr_defs cmd_simps framed_def entry_frame_def frame_words_def
      frame_ram [symmetric] split_def Let_def algebra_simps)

section \<open>What a return resumes\<close>

definition resume :: "u32 \<Rightarrow> u32 \<Rightarrow> ('d, 'z) processor_scheme \<Rightarrow> ('d, 'z) processor_scheme" where
  "resume offset q s = (let f = trap_frame_at (ram s) q in
     s\<lparr>gpr := tf_r f, pc := tf_return_lr f - offset, cpsr := tf_spsr f, usr_sp := tf_user_sp f,
       usr_lr := tf_user_lr f, exc_sp := q + 88, exc_lr := tf_return_lr f, exc_spsr := tf_spsr f\<rparr>)"

lemma running_resume: "running_context (resume offset q s) = frame_context offset (trap_frame_at (ram s) q)"
  by (simp add: running_context_def resume_def frame_context_def Let_def)

lemma resume_simps [simp]:
  "length (gpr (resume offset q s)) = 13" "exc_sp (resume offset q s) = q + 88"
  "ram (resume offset q s) = ram s" "dev (resume offset q s) = dev s" "io (resume offset q s) = io s"
  by (simp_all add: resume_def trap_frame_at_def ldmia_eq Let_def)

lemma restore_result:
  "length (gpr s) = 13 \<Longrightarrow> restore_frame offset s = (Done (), resume offset (exc_sp s) s)"
  by (simp add: restore_frame_def instr_defs cmd_simps resume_def trap_frame_at_def Let_def
      ldmia_eq algebra_simps)

section \<open>The vector table\<close>

datatype trap = Undefined | Svc | Prefetch_abort | Data_abort | Irq

text \<open>The dispatchers a program links with the vector table.\<close>

record 's handlers =
  on_undefined :: "u32 \<Rightarrow> ('s, unit) cmd"
  on_svc :: "u32 \<Rightarrow> ('s, u32) cmd"
  on_abort :: "u32 \<Rightarrow> ('s, unit) cmd"
  on_irq :: "u32 \<Rightarrow> ('s, u32) cmd"

fun minemu_vectors :: "'d platform \<Rightarrow> (nat \<Rightarrow> u32) \<Rightarrow> ('d, 'z) processor_scheme handlers \<Rightarrow> trap
    \<Rightarrow> (('d, 'z) processor_scheme, unit) cmd" where
  "minemu_vectors P junk H Undefined = minemu_undefined_entry junk (on_undefined H)"
| "minemu_vectors P junk H Svc = minemu_svc_trampoline junk (on_svc H)"
| "minemu_vectors P junk H Prefetch_abort = minemu_prefetch_abort_entry junk (on_abort H)"
| "minemu_vectors P junk H Data_abort = minemu_data_abort_entry junk (on_abort H)"
| "minemu_vectors P junk H Irq = minemu_irq_trampoline P junk (on_irq H)"

text \<open>The processor enters a vector in the mode of the exception.\<close>

fun trap_mode :: "trap \<Rightarrow> u32" where
  "trap_mode Undefined = 0x1b"
| "trap_mode Svc = 0x13"
| "trap_mode Prefetch_abort = 0x17"
| "trap_mode Data_abort = 0x17"
| "trap_mode Irq = 0x12"

fun link_offset :: "trap \<Rightarrow> u32" where
  "link_offset Data_abort = 8"
| "link_offset trap = 4"

definition deliver :: "'d platform \<Rightarrow> (nat \<Rightarrow> u32) \<Rightarrow> ('d, 'z) processor_scheme handlers \<Rightarrow> trap
    \<Rightarrow> (('d, 'z) processor_scheme, unit) cmd" where
  "deliver P junk H trap s = minemu_vectors P junk H trap (take_exception (trap_mode trap) (link_offset trap) s)"

text \<open>
  The specification: what the dispatcher is called with, what it may answer, and where the
  return goes. A system call and an undefined instruction are stepped over, the others return
  to the interrupted instruction.
\<close>

definition trap_frame_of :: "trap \<Rightarrow> u32 \<Rightarrow> ('d, 'z) processor_scheme \<Rightarrow> minemu_trap_frame" where
  "trap_frame_of trap claimed s = \<lparr> tf_r = gpr s, tf_return_lr = pc s + link_offset trap, tf_spsr = cpsr s,
     tf_exception_id = (case trap of Undefined \<Rightarrow> - 4 | Svc \<Rightarrow> - 3 | Prefetch_abort \<Rightarrow> - 2
        | Data_abort \<Rightarrow> - 1 | Irq \<Rightarrow> claimed),
     tf_fault_pc = pc s,
     tf_dfsr = (if trap \<in> {Prefetch_abort, Data_abort} then fault_status s else 0),
     tf_dfar = (if trap \<in> {Prefetch_abort, Data_abort} then fault_address s else 0),
     tf_user_sp = usr_sp s, tf_user_lr = usr_lr s, tf_reserved = 0 \<rparr>"

fun return_offset :: "trap \<Rightarrow> u32" where
  "return_offset Undefined = 0"
| "return_offset Svc = 0"
| "return_offset Prefetch_abort = 4"
| "return_offset Data_abort = 8"
| "return_offset Irq = 4"

definition claimed_of :: "'d platform \<Rightarrow> ('d, 'z) processor_scheme \<Rightarrow> u32" where
  "claimed_of P s = fst (reg_read P 0x10000008 (dev s))"

definition called :: "'d platform \<Rightarrow> trap \<Rightarrow> ('d, 'z) processor_scheme \<Rightarrow> ('d, 'z) processor_scheme" where
  "called P trap s = (let p = exc_sp s - 88; t = take_exception (trap_mode trap) (link_offset trap) s;
     t = t\<lparr>exc_sp := p, ram := stmia p (frame_words (trap_frame_of trap (claimed_of P s) s)) (ram s),
           gpr := (gpr s)[1 := 0, 0 := p]\<rparr>
   in if trap = Irq then t\<lparr>dev := snd (reg_read P 0x10000008 (dev s)),
        io := io s @ [RegRead 0x10000008 (claimed_of P s)]\<rparr> else t)"

definition dispatched :: "(nat \<Rightarrow> u32) \<Rightarrow> ('d, 'z) processor_scheme handlers \<Rightarrow> trap \<Rightarrow> u32
    \<Rightarrow> (('d, 'z) processor_scheme, u32) cmd" where
  "dispatched junk H trap p = (case trap of
     Undefined \<Rightarrow> bind (on_undefined H p) (\<lambda>_. ret p)
   | Svc \<Rightarrow> on_svc H p
   | Prefetch_abort \<Rightarrow> bind (on_abort H p) (\<lambda>_. ret p)
   | Data_abort \<Rightarrow> bind (on_abort H p) (\<lambda>_. ret p)
   | Irq \<Rightarrow> on_irq H p)"

lemma trap_frame_called:
  "length (gpr s) = 13 \<Longrightarrow>
   trap_frame_at (ram (called P trap s)) (exc_sp s - 88) = trap_frame_of trap (claimed_of P s) s"
  by (simp add: called_def frame_read trap_frame_of_def Let_def)

lemma framed_called:
  "framed (- 4) 4 0 0 (take_exception 0x1b 4 s) = called P Undefined s"
  "framed (- 3) 4 0 0 (take_exception 0x13 4 s) = called P Svc s"
  "framed (- 2) 4 (fault_status s) (fault_address s) (take_exception 0x17 4 s) = called P Prefetch_abort s"
  "framed (- 1) 8 (fault_status s) (fault_address s) (take_exception 0x17 8 s) = called P Data_abort s"
  "(framed (claimed_of P s) 4 0 0 (take_exception 0x12 4 s))\<lparr>dev := snd (reg_read P 0x10000008 (dev s)),
     io := io s @ [RegRead 0x10000008 (claimed_of P s)]\<rparr> = called P Irq s"
  by (simp_all add: framed_def called_def take_exception_def entry_frame_def trap_frame_of_def Let_def)

lemma taken_simps [simp]:
  "gpr (take_exception mode offset s) = gpr s" "dev (take_exception mode offset s) = dev s"
  "io (take_exception mode offset s) = io s" "exc_sp (take_exception mode offset s) = exc_sp s"
  "fault_status (take_exception mode offset s) = fault_status s"
  "fault_address (take_exception mode offset s) = fault_address s"
  by (simp_all add: take_exception_def)

lemma called_simps [simp]:
  "length (gpr (called P trap s)) = length (gpr s)"
  "gpr s \<noteq> [] \<Longrightarrow> gpr (called P trap s) ! 0 = exc_sp s - 88"
  "exc_sp (called P trap s) = exc_sp s - 88"
  by (simp_all add: called_def Let_def)

lemma bl_result:
  "f (gpr s ! 0) s = (Done q, t) \<Longrightarrow> bl junk f s = (Done (), t\<lparr>exc_lr := junk 14,
     gpr := (gpr t)[0 := q, 1 := junk 1, 2 := junk 2, 3 := junk 3, 12 := junk 12]\<rparr>)"
  by (simp add: bl_def bind_def gets_def modify_def)

lemma bl_void:
  "bind (f p) (\<lambda>_. ret p) s = (Done q, t) \<Longrightarrow> returns_nothing junk f p s = (Done (junk 0), t)"
  by (auto simp: returns_nothing_def bind_eq_Done ret_def)

lemma return_path:
  assumes "f (gpr s ! 0) s = (Done r, t)" and "length (gpr t) = 13"
  shows "block [bl junk f, mov_sp_r0, restore_frame offset] s = (Done (), resume offset r t)"
    and "block [bl junk f, restore_frame offset] s = (Done (), resume offset (exc_sp t) t)"
  using assms
  by (simp_all add: bind_Done [OF bl_result] bind_def [of "restore_frame offset"] restore_result
      resume_def Let_def ret_def mov_sp_r0_def bind_modify)

text \<open>
  The refinement: the trampoline of a vector builds the specified frame, calls the dispatcher on
  it, and resumes what the frame the dispatcher chose then holds.
\<close>

lemma deliver_result:
  assumes len: "length (gpr s) = 13"
    and run: "dispatched junk H trap (exc_sp s - 88) (called P trap s) = (Done q, t)"
    and kept: "length (gpr t) = 13"
    and sp: "trap \<in> {Undefined, Prefetch_abort, Data_abort} \<Longrightarrow> exc_sp t = q"
  shows "deliver P junk H trap s = (Done (), resume (return_offset trap) q t)"
proof -
  have ne: "gpr s \<noteq> []" using len by auto
  let ?s = "take_exception (trap_mode trap) (link_offset trap) s"
  note enter = framed_called [of s P]
  note saved = save_frames [of ?s, simplified taken_simps, OF len]
  show ?thesis
  proof (cases trap)
    case Svc
    have "on_svc H (gpr (called P trap s) ! 0) (called P trap s) = (Done q, t)"
      using Svc run ne by (simp add: dispatched_def)
    from return_path(1) [where f = "on_svc H" and s = "called P trap s" and junk = junk and offset = 0, OF this kept] show ?thesis
      using saved(1) [of "- 3" 4] enter Svc
      by (simp add: deliver_def minemu_svc_trampoline_def block_step del: block.simps)
  next
    case Irq
    have "on_irq H (gpr (called P trap s) ! 0) (called P trap s) = (Done q, t)"
      using Irq run ne by (simp add: dispatched_def)
    from return_path(1) [where f = "on_irq H" and s = "called P trap s" and junk = junk and offset = 4, OF this kept] show ?thesis
      using saved(3) [of P 4] enter Irq
      by (simp add: deliver_def minemu_irq_trampoline_def block_step split_def Let_def claimed_of_def del: block.simps)
  next
    case Undefined
    have "returns_nothing junk (on_undefined H) (gpr (called P trap s) ! 0) (called P trap s) =
        (Done (junk 0), t)"
      using Undefined run ne by (intro bl_void) (simp add: dispatched_def)
    from return_path(2) [where f = "returns_nothing junk (on_undefined H)" and s = "called P trap s" and junk = junk and offset = 0, OF this kept] show ?thesis
      using saved(1) [of "- 4" 4] enter sp Undefined
      by (simp add: deliver_def minemu_undefined_entry_def block_step del: block.simps)
  next
    case Prefetch_abort
    have "returns_nothing junk (on_abort H) (gpr (called P trap s) ! 0) (called P trap s) =
        (Done (junk 0), t)"
      using Prefetch_abort run ne by (intro bl_void) (simp add: dispatched_def)
    from return_path(2) [where f = "returns_nothing junk (on_abort H)" and s = "called P trap s" and junk = junk and offset = 4, OF this kept] show ?thesis
      using saved(2) [of "- 2" 4] enter sp Prefetch_abort
      by (simp add: deliver_def minemu_prefetch_abort_entry_def block_step del: block.simps)
  next
    case Data_abort
    have "returns_nothing junk (on_abort H) (gpr (called P trap s) ! 0) (called P trap s) =
        (Done (junk 0), t)"
      using Data_abort run ne by (intro bl_void) (simp add: dispatched_def)
    from return_path(2) [where f = "returns_nothing junk (on_abort H)" and s = "called P trap s" and junk = junk and offset = 8, OF this kept] show ?thesis
      using saved(2) [of "- 1" 8] enter sp Data_abort
      by (simp add: deliver_def minemu_data_abort_entry_def block_step del: block.simps)
  qed
qed

lemma called_outside:
  "length (gpr s) = 13 \<Longrightarrow> \<not> in_frame (exc_sp s - 88) a \<Longrightarrow> ram (called P trap s) a = ram s a"
  by (simp add: called_def Let_def length_frame_words trap_frame_of_def frame_outside)

section \<open>The properties\<close>

definition quiet :: "unit platform" where
  "quiet = \<lparr> reg_read = (\<lambda>a d. (0, d)), reg_write = (\<lambda>a v d. d) \<rparr>"

definition sample_cpu :: "unit processor" where
  "sample_cpu = \<lparr> dev = (), cpsr = 0x1f, io = [], ram = (\<lambda>a. 0),
     gpr = [100, 101, 102, 103, 104, 105, 106, 107, 108, 109, 110, 111, 112], pc = 0xc0001000,
     exc_sp = 0xc0003000, exc_lr = 0, exc_spsr = 0, usr_sp = 0x7000, usr_lr = 0x44,
     fault_status = 0x203, fault_address = 0x20000000 \<rparr>"

definition returning :: "unit processor handlers" where
  "returning = \<lparr> on_undefined = (\<lambda>p. ret ()), on_svc = ret, on_abort = (\<lambda>p. ret ()), on_irq = ret \<rparr>"

lemma returning_run:
  "dispatched junk returning trap p s = (Done p, s)"
  by (cases trap) (simp_all add: dispatched_def returning_def bind_ret, simp_all add: ret_def)

text \<open>
  C15: every vector builds the trap frame of its exception below the banked stack pointer, changing
  no other memory, calls the dispatcher with the frame's address, and resumes the context in the
  frame the dispatcher answers, as it stands in memory then, with the stack above that frame.
\<close>

theorem trap_delivers:
  assumes "length (gpr s) = 13"
    and "dispatched junk H trap (exc_sp s - 88) (called P trap s) = (Done q, t)"
    and "length (gpr t) = 13"
    and "trap \<in> {Undefined, Prefetch_abort, Data_abort} \<Longrightarrow> exc_sp t = q"
  shows "trap_frame_at (ram (called P trap s)) (exc_sp s - 88) = trap_frame_of trap (claimed_of P s) s
    \<and> (\<forall>a. in_frame (exc_sp s - 88) a \<or> ram (called P trap s) a = ram s a)
    \<and> (\<exists>u. deliver P junk H trap s = (Done (), u) \<and> exc_sp u = q + 88 \<and> ram u = ram t
         \<and> running_context u = frame_context (return_offset trap) (trap_frame_at (ram t) q))"
  using deliver_result [OF assms] trap_frame_called [OF assms(1)] called_outside [OF assms(1), of _ P trap]
  by (auto simp: running_resume)

theorem trap_delivers_witness:
  "\<exists>u. deliver quiet (\<lambda>n. 7) returning Data_abort sample_cpu = (Done (), u) \<and> exc_sp u = 0xc0003000
    \<and> tf_dfar (trap_frame_at (ram u) 0xc0002fa8) = 0x20000000"
proof -
  have 1: "length (gpr sample_cpu) = 13" by (simp add: sample_cpu_def)
  let ?t = "called quiet Data_abort sample_cpu"
  have 3: "length (gpr ?t) = 13" by (simp add: sample_cpu_def)
  have 4: "exc_sp ?t = exc_sp sample_cpu - 88" by simp
  from trap_delivers [OF 1 returning_run 3 4, of "\<lambda>n. 7"] show ?thesis
    by (auto simp: trap_frame_of_def sample_cpu_def)
qed

text \<open>
  What the interrupted program can see of the processor: its context, and when it runs in the mode
  of the exception itself, as a kernel that executes \<^verbatim>\<open>svc\<close> in supervisor mode does, also the
  stack pointer, the link register and the saved status of that mode.
\<close>

definition program_view :: "trap \<Rightarrow> ('d, 'z) processor_scheme \<Rightarrow> task_context \<times> (u32 \<times> u32 \<times> u32) option" where
  "program_view trap s = (running_context s,
     if cpsr s AND 0x1f = trap_mode trap then Some (exc_sp s, exc_lr s, exc_spsr s) else None)"

text \<open>
  C16: what an exception whose dispatcher leaves the frame alone does to the interrupted program. The
  program continues with its registers, status word and user stack, at the interrupted
  instruction, or after it for a system call and an undefined instruction; the exception stack is
  as before. To a program that runs in another mode than the exception's that is all it sees. A
  program in the exception's own mode finds two registers changed: its link register holds the
  return address of the exception and the saved status its own status word.
\<close>

theorem trap_round_trip:
  assumes "length (gpr s) = 13"
    and "dispatched junk H trap (exc_sp s - 88) (called P trap s) = (Done (exc_sp s - 88), t)"
    and "length (gpr t) = 13"
    and "trap \<in> {Undefined, Prefetch_abort, Data_abort} \<Longrightarrow> exc_sp t = exc_sp s - 88"
    and "trap_frame_at (ram t) (exc_sp s - 88) = trap_frame_at (ram (called P trap s)) (exc_sp s - 88)"
  shows "\<exists>u. deliver P junk H trap s = (Done (), u) \<and> exc_sp u = exc_sp s
    \<and> program_view trap u =
        ((running_context s)\<lparr>cx_pc := pc s + (if trap \<in> {Svc, Undefined} then 4 else 0)\<rparr>,
         if cpsr s AND 0x1f = trap_mode trap then Some (exc_sp s, pc s + link_offset trap, cpsr s) else None)"
proof -
  let ?u = "resume (return_offset trap) (exc_sp s - 88) t"
  have frame: "trap_frame_at (ram t) (exc_sp s - 88) = trap_frame_of trap (claimed_of P s) s"
    using assms(5) trap_frame_called [OF assms(1)] by simp
  have "running_context ?u = (running_context s)\<lparr>cx_pc := pc s + (if trap \<in> {Svc, Undefined} then 4 else 0)\<rparr>"
    unfolding running_resume frame
    by (cases trap) (simp_all add: running_context_def trap_frame_of_def frame_context_def)
  moreover have "cpsr ?u = cpsr s" "exc_sp ?u = exc_sp s" "exc_lr ?u = pc s + link_offset trap"
    "exc_spsr ?u = cpsr s"
    by (simp_all add: resume_def frame Let_def) (simp_all add: trap_frame_of_def)
  ultimately show ?thesis
    using deliver_result [OF assms(1-4)] by (intro exI [of _ ?u]) (simp add: program_view_def)
qed

text \<open>A system call from system mode, and one from supervisor mode.\<close>

theorem trap_round_trip_witness:
  "\<exists>u v. deliver quiet (\<lambda>n. 7) returning Svc sample_cpu = (Done (), u)
    \<and> program_view Svc u = ((running_context sample_cpu)\<lparr>cx_pc := 0xc0001004\<rparr>, None)
    \<and> deliver quiet (\<lambda>n. 7) returning Svc (sample_cpu\<lparr>cpsr := 0x13\<rparr>) = (Done (), v)
    \<and> snd (program_view Svc v) = Some (0xc0003000, 0xc0001004, 0x13)"
proof -
  have round: "\<exists>u. deliver quiet (\<lambda>n. 7) returning Svc s = (Done (), u)
      \<and> program_view Svc u = ((running_context s)\<lparr>cx_pc := pc s + 4\<rparr>,
          if cpsr s AND 0x1f = 0x13 then Some (exc_sp s, pc s + 4, cpsr s) else None)"
    if "length (gpr s) = 13" for s :: "unit processor"
  proof -
    have 3: "length (gpr (called quiet Svc s)) = 13" using that by simp
    have 4: "Svc \<in> {Undefined, Prefetch_abort, Data_abort} \<Longrightarrow>
        exc_sp (called quiet Svc s) = exc_sp s - 88" by simp
    from trap_round_trip [OF that returning_run 3 4 refl, of "\<lambda>n. 7"] show ?thesis by auto
  qed
  from round [of sample_cpu] round [of "sample_cpu\<lparr>cpsr := 0x13\<rparr>"] show ?thesis
    by (auto simp: sample_cpu_def)
qed

end
