(* ===== verification/ContextSwitch.thy ===== *)
theory ContextSwitch
  imports Trap
begin

text \<open>
  The two context-switch examples (\<^verbatim>\<open>examples/irq-context-switch/main.c\<close> and
  \<^verbatim>\<open>examples/svc-context-switch/main.c\<close>): a dispatcher that keeps a frame pointer for each of two
  tasks and answers the frame of the task to go on with, on the trampolines of \<open>Trap\<close>. Both
  keep the contract of the locale \<open>switcher\<close>, in which the behaviour over many exceptions is
  proved once.
\<close>

section \<open>The dispatchers\<close>

record 'd switch_state = "'d processor" +
  interrupt_count :: u32
  task_a_frame :: u32
  task_b_frame :: u32

text \<open>
  What the linker decides: the address of \<^verbatim>\<open>task_b_storage\<close> (or of \<^verbatim>\<open>task_b_stack\<close>) and of the
  function \<^verbatim>\<open>task_b\<close>.
\<close>

record switch_symbols =
  sym_task_b_storage :: u32
  sym_task_b :: u32

text \<open>Acknowledge the device that raised the interrupt.\<close>

definition acknowledge :: "'d platform \<Rightarrow> u32 \<Rightarrow> (('d, 'z) machine_scheme, unit) cmd" where
  "acknowledge P source =
     (if source = MINEMU_IRQ_SYSTICK then
        MINEMU_MMIO_WRITE32 P (MINEMU_SYSTICK ''ack'') MINEMU_SYSTICK_ACK
      else if source = MINEMU_IRQ_UART0 then
        bind (MINEMU_MMIO_READ32 P (MINEMU_UART0 ''rx_data'')) (\<lambda>_. ret ())
      else if source = MINEMU_IRQ_UART1 then
        bind (MINEMU_MMIO_READ32 P (MINEMU_UART1 ''rx_data'')) (\<lambda>_. ret ())
      else if source = MINEMU_IRQ_BLOCK then
        MINEMU_MMIO_WRITE32 P (MINEMU_BLOCK ''ack'') MINEMU_BLOCK_ACK
      else ret ())"

definition irq_dispatch :: "'d platform \<Rightarrow> switch_symbols \<Rightarrow> u32 \<Rightarrow> ('d switch_state, u32) cmd" where
  "irq_dispatch P S frame =
     bind (gets (\<lambda>s. ram s (frame + 60))) (\<lambda>source.
     bind (modify (\<lambda>s. s\<lparr>interrupt_count := interrupt_count s + 1\<rparr>)) (\<lambda>_.
     bind (acknowledge P source) (\<lambda>_.
     bind (MINEMU_MMIO_WRITE32 P (MINEMU_INTERRUPT ''eoi'') source) (\<lambda>_.
     bind (gets task_b_frame) (\<lambda>b.
     if b = 0 then
       bind (modify (\<lambda>s. s\<lparr>task_a_frame := frame\<rparr>)) (\<lambda>_.
       bind (modify (\<lambda>s. s\<lparr>task_b_frame := sym_task_b_storage S\<rparr>)) (\<lambda>_.
       bind (gets task_b_frame) (\<lambda>b.
       bind (modify (\<lambda>s. s\<lparr>ram := stmia b (replicate 22 0) (ram s)\<rparr>)) (\<lambda>_.
       bind (store_field (b + 52) (\<lambda>s. sym_task_b S + 4)) (\<lambda>_.
       bind (store_field (b + 56) (\<lambda>s. ram s (frame + 56))) (\<lambda>_.
       bind (store_field (b + 60) (\<lambda>s. source)) (\<lambda>_.
       ret b)))))))
     else
       bind (modify (\<lambda>s. s\<lparr>task_b_frame := frame\<rparr>)) (\<lambda>_.
       gets task_a_frame))))))"

definition svc_dispatch :: "switch_symbols \<Rightarrow> u32 \<Rightarrow> ('d switch_state, u32) cmd" where
  "svc_dispatch S current_frame =
     bind (gets task_b_frame) (\<lambda>b.
     if b = 0 then
       bind (modify (\<lambda>s. s\<lparr>task_a_frame := current_frame\<rparr>)) (\<lambda>_.
       bind (modify (\<lambda>s. s\<lparr>task_b_frame := sym_task_b_storage S + 4 * 256 - 4 * 22\<rparr>)) (\<lambda>_.
       bind (gets task_b_frame) (\<lambda>b.
       bind (modify (\<lambda>s. s\<lparr>ram := for_u32 (\<lambda>index m. m(b + 4 * index := 0)) 0 22 (ram s)\<rparr>)) (\<lambda>_.
       bind (store_field (b + 4 * 13) (\<lambda>s. sym_task_b S)) (\<lambda>_.
       bind (store_field (b + 4 * 14) (\<lambda>s. ram s (current_frame + 56))) (\<lambda>_.
       bind (store_field (b + 4 * 15) (\<lambda>s. MINEMU_EXCEPTION_SVC)) (\<lambda>_.
       ret b)))))))
     else
       bind (modify (\<lambda>s. s\<lparr>task_b_frame := current_frame\<rparr>)) (\<lambda>_.
       gets task_a_frame))"

text \<open>
  The main of the IRQ example up to its idle loop, which is task A. The SVC example has no set-up:
  its main is the loop of system calls.
\<close>

definition irq_kernel_main :: "'d platform \<Rightarrow> ('d switch_state, unit) cmd" where
  "irq_kernel_main P = block
     [MINEMU_MMIO_WRITE32 P (MINEMU_INTERRUPT ''enable'') (push_bit (unat MINEMU_IRQ_SYSTICK) 1),
      MINEMU_MMIO_WRITE32 P (MINEMU_SYSTICK ''period'') 100,
      MINEMU_MMIO_WRITE32 P (MINEMU_SYSTICK ''control'') (MINEMU_SYSTICK_CONTROL_ENABLE
        OR MINEMU_SYSTICK_CONTROL_PERIODIC OR MINEMU_SYSTICK_CONTROL_IRQ_ENABLE),
      minemu_irq_enable]"

text \<open>The dispatchers linked with the vector table; the other hooks stay weak and stop.\<close>

definition irq_handlers :: "'d platform \<Rightarrow> switch_symbols \<Rightarrow> 'd switch_state handlers" where
  "irq_handlers P S = \<lparr> on_undefined = (\<lambda>p. minemu_fail_stop), on_svc = (\<lambda>p. minemu_fail_stop),
     on_abort = (\<lambda>p. minemu_fail_stop), on_irq = irq_dispatch P S \<rparr>"

definition svc_handlers :: "switch_symbols \<Rightarrow> 'd switch_state handlers" where
  "svc_handlers S = \<lparr> on_undefined = (\<lambda>p. minemu_fail_stop), on_svc = svc_dispatch S,
     on_abort = (\<lambda>p. minemu_fail_stop), on_irq = (\<lambda>p. minemu_fail_stop) \<rparr>"

section \<open>Two tasks and their exceptions\<close>

text \<open>Two frames that do not overlap.\<close>

definition frames_apart :: "u32 \<Rightarrow> u32 \<Rightarrow> bool" where
  "frames_apart p q \<longleftrightarrow> 88 \<le> p - q \<and> 88 \<le> q - p"

text \<open>
  A task runs: it may change its registers, its memory and the devices, but not the two frames,
  the dispatcher's variables or the exception stack pointer.
\<close>

definition task_runs :: "u32 \<Rightarrow> u32 \<Rightarrow> 'd switch_state \<Rightarrow> 'd switch_state \<Rightarrow> bool" where
  "task_runs a_frame b_frame s t \<longleftrightarrow>
     length (gpr t) = 13 \<and> exc_sp t = exc_sp s \<and> task_a_frame t = task_a_frame s
     \<and> task_b_frame t = task_b_frame s
     \<and> (\<forall>a. in_frame a_frame a \<or> in_frame b_frame a \<longrightarrow> ram t a = ram s a)"

inductive switch_step :: "'d platform \<Rightarrow> (nat \<Rightarrow> u32) \<Rightarrow> 'd switch_state handlers \<Rightarrow> trap \<Rightarrow> u32 \<Rightarrow> u32
    \<Rightarrow> 'd switch_state \<Rightarrow> 'd switch_state \<Rightarrow> bool"
  for P junk H trap a_frame b_frame where
    run: "task_runs a_frame b_frame s t \<Longrightarrow> switch_step P junk H trap a_frame b_frame s t"
  | enter: "deliver P junk H trap s = (Done (), t) \<Longrightarrow> (trap = Irq \<longrightarrow> cpsr s AND 0x80 = 0) \<Longrightarrow>
      switch_step P junk H trap a_frame b_frame s t"

inductive_simps switch_step_iff: "switch_step P junk H trap a_frame b_frame s t"

abbreviation (input) "switch_steps P junk H trap a_frame b_frame \<equiv>
  (switch_step P junk H trap a_frame b_frame)\<^sup>*\<^sup>*"

text \<open>
  The states between exceptions: task A before the first one, task B after it, and task A again
  from the second one on.
\<close>

definition first_turn :: "u32 \<Rightarrow> u32 \<Rightarrow> 'd switch_state \<Rightarrow> bool" where
  "first_turn a_frame b_frame s \<longleftrightarrow>
     length (gpr s) = 13 \<and> task_b_frame s = 0 \<and> exc_sp s = a_frame + 88"

definition b_turn :: "u32 \<Rightarrow> u32 \<Rightarrow> 'd switch_state \<Rightarrow> bool" where
  "b_turn a_frame b_frame s \<longleftrightarrow>
     length (gpr s) = 13 \<and> task_a_frame s = a_frame \<and> task_b_frame s = b_frame \<and> exc_sp s = b_frame + 88"

definition a_turn :: "u32 \<Rightarrow> u32 \<Rightarrow> 'd switch_state \<Rightarrow> bool" where
  "a_turn a_frame b_frame s \<longleftrightarrow>
     length (gpr s) = 13 \<and> task_a_frame s = a_frame \<and> task_b_frame s \<in> {a_frame, b_frame}
     \<and> exc_sp s = a_frame + 88"

lemmas turn_defs = first_turn_def b_turn_def a_turn_def

lemma switch_fields [simp]:
  "task_a_frame (resume offset q s) = task_a_frame s"
  "task_b_frame (resume offset q s) = task_b_frame s"
  "task_a_frame (called P trap s) = task_a_frame s"
  "task_b_frame (called P trap s) = task_b_frame s"
  by (simp_all add: resume_def called_def take_exception_def Let_def)

lemma apart_frames:
  assumes "frames_apart p q" and "in_frame p a"
  shows "\<not> in_frame q a"
proof
  assume "in_frame q a"
  define x y where "x = a - p" and "y = a - q"
  have lt: "x < 88" "y < 88"
    using assms(2) \<open>in_frame q a\<close> by (simp_all add: in_frame_def in_range_def x_def y_def)
  show False
  proof (cases "x \<le> y")
    case True
    then have "y - x \<le> y" by (simp add: word_le_nat_alt unat_sub_u32)
    moreover have "y - x = p - q" by (simp add: x_def y_def)
    ultimately show False using lt assms(1)
      by (simp add: frames_apart_def word_le_nat_alt word_less_nat_alt)
  next
    case False
    then have "x - y \<le> x" by (simp add: word_le_nat_alt unat_sub_u32)
    moreover have "x - y = q - p" by (simp add: x_def y_def)
    ultimately show False using lt assms(1)
      by (simp add: frames_apart_def word_le_nat_alt word_less_nat_alt)
  qed
qed

section \<open>The contract of a switching dispatcher\<close>

text \<open>
  The first exception saves A's frame pointer and answers a fresh frame for B; every later one
  stores the interrupted frame as B's and answers A's.
\<close>

locale switcher =
  fixes P :: "'d platform" and junk :: "nat \<Rightarrow> u32" and H :: "'d switch_state handlers"
    and trap :: trap and b_frame :: u32
    and start :: "minemu_trap_frame \<Rightarrow> minemu_trap_frame"
  assumes switching: "trap = Svc \<or> trap = Irq"
    and first: "task_b_frame s = 0 \<Longrightarrow> frames_apart f b_frame \<Longrightarrow>
      \<exists>t. dispatched junk H trap f s = (Done b_frame, t) \<and> gpr t = gpr s
        \<and> task_a_frame t = f \<and> task_b_frame t = b_frame
        \<and> trap_frame_at (ram t) b_frame = start (trap_frame_at (ram s) f)
        \<and> (\<forall>a. in_frame b_frame a \<or> ram t a = ram s a)"
    and later: "task_b_frame s \<noteq> 0 \<Longrightarrow>
      \<exists>t. dispatched junk H trap f s = (Done (task_a_frame s), t) \<and> gpr t = gpr s
        \<and> task_a_frame t = task_a_frame s \<and> task_b_frame t = f \<and> ram t = ram s"
begin

lemma first_switch:
  assumes "first_turn a_frame b_frame s" and "frames_apart a_frame b_frame"
  shows "\<exists>t. deliver P junk H trap s = (Done (), t) \<and> b_turn a_frame b_frame t
    \<and> running_context t = frame_context (return_offset trap) (start (trap_frame_of trap (claimed_of P s) s))
    \<and> trap_frame_at (ram t) a_frame = trap_frame_of trap (claimed_of P s) s"
proof -
  let ?c = "called P trap s"
  have s: "length (gpr s) = 13" "exc_sp s - 88 = a_frame" "task_b_frame ?c = 0"
    using assms(1) by (simp_all add: first_turn_def called_def take_exception_def Let_def)
  from first [OF s(3) assms(2)] obtain t where
    t: "dispatched junk H trap a_frame ?c = (Done b_frame, t)" "gpr t = gpr ?c"
      "task_a_frame t = a_frame" "task_b_frame t = b_frame"
      "trap_frame_at (ram t) b_frame = start (trap_frame_at (ram ?c) a_frame)"
      "\<forall>a. in_frame b_frame a \<or> ram t a = ram ?c a" by blast
  have fr: "trap_frame_at (ram ?c) a_frame = trap_frame_of trap (claimed_of P s) s"
    using trap_frame_called [OF s(1), of P trap] s(2) by simp
  have "trap_frame_at (ram t) a_frame = trap_frame_at (ram ?c) a_frame"
    by (rule trap_frame_cong) (use t(6) apart_frames [OF assms(2)] in blast)
  moreover have "deliver P junk H trap s = (Done (), resume (return_offset trap) b_frame t)"
    using switching t(1,2) s by (intro deliver_result) auto
  ultimately show ?thesis
    using t fr by (auto simp: running_resume b_turn_def)
qed

lemma later_switch:
  assumes "task_b_frame s \<noteq> 0" and "length (gpr s) = 13"
  shows "\<exists>t. deliver P junk H trap s = (Done (), t) \<and> length (gpr t) = 13
    \<and> task_a_frame t = task_a_frame s \<and> task_b_frame t = exc_sp s - 88
    \<and> exc_sp t = task_a_frame s + 88 \<and> ram t = ram (called P trap s)
    \<and> running_context t = frame_context (return_offset trap)
        (trap_frame_at (ram (called P trap s)) (task_a_frame s))"
proof -
  let ?c = "called P trap s"
  have c: "task_b_frame ?c \<noteq> 0" "task_a_frame ?c = task_a_frame s"
    using assms(1) by (simp_all add: called_def take_exception_def Let_def)
  from later [OF c(1), of "exc_sp s - 88"] c(2) obtain t where
    t: "dispatched junk H trap (exc_sp s - 88) ?c = (Done (task_a_frame s), t)" "gpr t = gpr ?c"
      "task_a_frame t = task_a_frame s" "task_b_frame t = exc_sp s - 88" "ram t = ram ?c" by auto
  have "deliver P junk H trap s = (Done (), resume (return_offset trap) (task_a_frame s) t)"
    using switching t(1,2) assms(2) by (intro deliver_result) auto
  with t show ?thesis
    by (auto simp: running_resume)
qed

text \<open>Task A gets back exactly the context it was interrupted with, whatever task B did.\<close>

lemma switch_round:
  assumes "first_turn a_frame b_frame s" and "frames_apart a_frame b_frame"
    and "a_frame \<noteq> 0" and "b_frame \<noteq> 0"
  shows "\<exists>t. deliver P junk H trap s = (Done (), t) \<and> b_turn a_frame b_frame t
    \<and> running_context t = frame_context (return_offset trap) (start (trap_frame_of trap (claimed_of P s) s))
    \<and> (\<forall>u. task_runs a_frame b_frame t u \<longrightarrow>
        (\<exists>v. deliver P junk H trap u = (Done (), v) \<and> a_turn a_frame b_frame v
          \<and> running_context v =
              frame_context (return_offset trap) (trap_frame_of trap (claimed_of P s) s)))"
proof -
  from first_switch [OF assms(1,2)] obtain t where t: "deliver P junk H trap s = (Done (), t)"
    "b_turn a_frame b_frame t"
    "running_context t = frame_context (return_offset trap) (start (trap_frame_of trap (claimed_of P s) s))"
    "trap_frame_at (ram t) a_frame = trap_frame_of trap (claimed_of P s) s" by blast
  have "\<exists>v. deliver P junk H trap u = (Done (), v) \<and> a_turn a_frame b_frame v
      \<and> running_context v = frame_context (return_offset trap) (trap_frame_of trap (claimed_of P s) s)"
    if u: "task_runs a_frame b_frame t u" for u
  proof -
    have b: "task_b_frame u \<noteq> 0" "length (gpr u) = 13" "task_a_frame u = a_frame" "exc_sp u - 88 = b_frame"
      using t(2) u assms(4) by (simp_all add: b_turn_def task_runs_def)
    from later_switch [OF b(1,2)] b obtain v where
      v: "deliver P junk H trap u = (Done (), v)" "a_turn a_frame b_frame v"
        "running_context v = frame_context (return_offset trap)
          (trap_frame_at (ram (called P trap u)) a_frame)"
      by (auto simp: a_turn_def)
    have "trap_frame_at (ram (called P trap u)) a_frame = trap_frame_at (ram t) a_frame"
    proof (rule trap_frame_cong)
      fix a assume a: "in_frame a_frame a"
      then have "\<not> in_frame (exc_sp u - 88) a" using apart_frames [OF assms(2)] b(4) by simp
      with called_outside [OF b(2)] have "ram (called P trap u) a = ram u a" by simp
      also have "\<dots> = ram t a" using u a by (simp add: task_runs_def)
      finally show "ram (called P trap u) a = ram t a" .
    qed
    with v t(4) show ?thesis by auto
  qed
  with t show ?thesis by blast
qed

text \<open>From then on every exception answers task A's own frame: no other context is resumed.\<close>

lemma a_turn_stays:
  assumes "a_turn a_frame b_frame s" and "a_frame \<noteq> 0" and "b_frame \<noteq> 0"
  shows "\<exists>t. deliver P junk H trap s = (Done (), t) \<and> a_turn a_frame b_frame t
    \<and> task_b_frame t = a_frame
    \<and> running_context t = frame_context (return_offset trap) (trap_frame_of trap (claimed_of P s) s)"
proof -
  have s: "task_b_frame s \<noteq> 0" "length (gpr s) = 13" "exc_sp s - 88 = a_frame" "task_a_frame s = a_frame"
    using assms by (auto simp: a_turn_def)
  from later_switch [OF s(1,2)] s(3,4) trap_frame_called [OF s(2), of P trap] show ?thesis
    by (auto simp: a_turn_def)
qed

lemma step_turns:
  assumes "switch_step P junk H trap a_frame b_frame s t"
    and "frames_apart a_frame b_frame" and "a_frame \<noteq> 0" and "b_frame \<noteq> 0"
  shows "first_turn a_frame b_frame s \<Longrightarrow> first_turn a_frame b_frame t \<or> b_turn a_frame b_frame t"
    and "b_turn a_frame b_frame s \<Longrightarrow> b_turn a_frame b_frame t \<or> a_turn a_frame b_frame t"
    and "a_turn a_frame b_frame s \<Longrightarrow> a_turn a_frame b_frame t"
proof -
  show "first_turn a_frame b_frame t \<or> b_turn a_frame b_frame t" if "first_turn a_frame b_frame s"
    using assms(1) that first_switch [OF that assms(2)]
    by (auto simp: switch_step_iff task_runs_def first_turn_def)
  show "b_turn a_frame b_frame t \<or> a_turn a_frame b_frame t" if "b_turn a_frame b_frame s"
    using assms(1,4) that later_switch [of s]
    by (auto simp: switch_step_iff task_runs_def b_turn_def a_turn_def)
  show "a_turn a_frame b_frame t" if "a_turn a_frame b_frame s"
    using assms(1) that a_turn_stays [OF that assms(3,4)]
    by (auto simp: switch_step_iff task_runs_def a_turn_def)
qed

lemma reachable_turns:
  assumes "switch_steps P junk H trap a_frame b_frame s t" and "first_turn a_frame b_frame s"
    and "frames_apart a_frame b_frame" and "a_frame \<noteq> 0" and "b_frame \<noteq> 0"
  shows "first_turn a_frame b_frame t \<or> b_turn a_frame b_frame t \<or> a_turn a_frame b_frame t"
  using assms(1)
proof (induction rule: rtranclp_induct)
  case base
  with assms(2) show ?case by blast
next
  case (step t u)
  with step_turns [OF step.hyps(2) assms(3-5)] show ?case by blast
qed

lemma a_turn_reachable:
  assumes "switch_steps P junk H trap a_frame b_frame s t" and "a_turn a_frame b_frame s"
    and "frames_apart a_frame b_frame" and "a_frame \<noteq> 0" and "b_frame \<noteq> 0"
  shows "a_turn a_frame b_frame t"
  using assms(1)
proof (induction rule: rtranclp_induct)
  case base
  show ?case by (rule assms(2))
next
  case (step t u)
  with step_turns(3) [OF step.hyps(2) assms(3-5)] show ?case by blast
qed

end

section \<open>Both examples keep the contract\<close>

text \<open>The frame task B starts from.\<close>

definition fresh_frame :: "u32 \<Rightarrow> u32 \<Rightarrow> u32 \<Rightarrow> minemu_trap_frame" where
  "fresh_frame lr psr source = \<lparr> tf_r = replicate 13 0, tf_return_lr = lr, tf_spsr = psr,
     tf_exception_id = source, tf_fault_pc = 0, tf_dfsr = 0, tf_dfar = 0, tf_user_sp = 0,
     tf_user_lr = 0, tf_reserved = 0 \<rparr>"

lemma fresh_ram:
  "(stmia b (replicate 22 0) m)(b + 52 := lr, b + 56 := psr, b + 60 := source) =
   stmia b (frame_words (fresh_frame lr psr source)) m"
proof -
  have upd: "(stmia b vs m)(b + 4 * of_nat k := w) = stmia b (vs[k := w]) m"
    if "k < 22" "length vs = 22" for k vs w using that by (intro stmia_update) simp_all
  have "frame_words (fresh_frame lr psr source) =
      (replicate 22 0)[13 := lr, 14 := psr, 15 := source]"
    by (simp add: fresh_frame_def frame_words_def numeral_eq_Suc)
  then show ?thesis
    using upd [of 13 "replicate 22 0" lr] upd [of 14 "(replicate 22 0)[13 := lr]" psr]
      upd [of 15 "(replicate 22 0)[13 := lr, 14 := psr]" source]
    by (simp del: replicate.simps stmia.simps)
qed

lemma fresh_frame_stored:
  "trap_frame_at (stmia b (frame_words (fresh_frame lr psr source)) m) b = fresh_frame lr psr source"
  "in_frame b a \<or> stmia b (frame_words (fresh_frame lr psr source)) m a = m a"
  using frame_outside [of "frame_words (fresh_frame lr psr source)" b a m]
  by (auto simp: frame_read fresh_frame_def length_frame_words)

lemma acknowledge_result: "\<exists>d l. acknowledge P source s = (Done (), s\<lparr>dev := d, io := io s @ l\<rparr>)"
  by (auto simp: acknowledge_def cmd_simps MINEMU_MMIO_WRITE32_def)
    (metis append_Nil2 machine.surjective machine.update_convs(1,3))

lemma frame_field: "k < 22 \<Longrightarrow> in_frame p (p + 4 * of_nat k)"
  using word4_unat [of k] by (simp add: in_frame_def in_range_def word_less_nat_alt)

text \<open>The field \<^verbatim>\<open>spsr\<close> of A's frame is not one of the words of B's frame.\<close>

lemma spsr_kept:
  assumes "frames_apart f b" and "k < 22"
  shows "f + 56 \<noteq> b + 4 * of_nat k"
    and "stmia b (replicate 22 0) m (f + 56) = m (f + 56)"
proof -
  have "in_frame f (f + 56)" using frame_field [of 14 f] by simp
  then have out: "\<not> in_frame b (f + 56)" using assms(1) apart_frames by blast
  then show "f + 56 \<noteq> b + 4 * of_nat k" using frame_field [OF assms(2), of b] by auto
  show "stmia b (replicate 22 0) m (f + 56) = m (f + 56)"
    using out by (intro frame_outside) simp_all
qed

lemma irq_first:
  assumes "task_b_frame s = 0" and "frames_apart f (sym_task_b_storage S)"
  shows "\<exists>d l. irq_dispatch P S f s = (Done (sym_task_b_storage S), s\<lparr>dev := d, io := io s @ l,
      interrupt_count := interrupt_count s + 1, task_a_frame := f, task_b_frame := sym_task_b_storage S,
      ram := stmia (sym_task_b_storage S) (frame_words (fresh_frame (sym_task_b S + 4)
        (ram s (f + 56)) (ram s (f + 60)))) (ram s)\<rparr>)"
proof -
  let ?s = "s\<lparr>interrupt_count := interrupt_count s + 1\<rparr>"
  obtain d l where a: "acknowledge P (ram s (f + 60)) ?s = (Done (), ?s\<lparr>dev := d, io := io s @ l\<rparr>)"
    using acknowledge_result [of P "ram s (f + 60)" ?s] by auto
  show ?thesis
    using assms(1) spsr_kept [OF assms(2), of 13] spsr_kept(2) [OF assms(2), of 0]
    by (intro exI [of _ "reg_write P 0x1000000c (ram s (f + 60)) d"]
        exI [of _ "l @ [RegWrite 0x1000000c (ram s (f + 60))]"])
      (simp add: irq_dispatch_def cmd_simps bind_def [of "acknowledge P (ram s (f + 60))"] a
        reg_addrs store_field_def fresh_ram [symmetric] del: stmia.simps replicate.simps)
qed

lemma irq_later:
  assumes "task_b_frame s \<noteq> 0"
  shows "\<exists>d l. irq_dispatch P S f s = (Done (task_a_frame s), s\<lparr>dev := d, io := io s @ l,
      interrupt_count := interrupt_count s + 1, task_b_frame := f\<rparr>)"
proof -
  let ?s = "s\<lparr>interrupt_count := interrupt_count s + 1\<rparr>"
  obtain d l where a: "acknowledge P (ram s (f + 60)) ?s = (Done (), ?s\<lparr>dev := d, io := io s @ l\<rparr>)"
    using acknowledge_result [of P "ram s (f + 60)" ?s] by auto
  show ?thesis
    using assms
    by (intro exI [of _ "reg_write P 0x1000000c (ram s (f + 60)) d"]
        exI [of _ "l @ [RegWrite 0x1000000c (ram s (f + 60))]"])
      (simp add: irq_dispatch_def cmd_simps bind_def [of "acknowledge P (ram s (f + 60))"] a reg_addrs)
qed

lemma zeroed_frame:
  "for_u32 (\<lambda>index m. m(b + 4 * index := 0)) 0 22 m = stmia b (replicate 22 0) (m :: u32 \<Rightarrow> u32)"
proof -
  let ?f = "\<lambda>i m. m(b + 4 * of_nat i := 0)"
  have "fold ?f [0..<n] m = stmia b (replicate n 0) m" for n
  proof (induction n)
    case 0
    show ?case by simp
  next
    case (Suc n)
    have "fold ?f [0..<Suc n] m = (fold ?f [0..<n] m)(b + 4 * of_nat n := 0)"
      by (simp only: upt_Suc_append fold_append comp_def fold_simps id_apply le0)
    also have "\<dots> = stmia b (replicate n 0 @ [0]) m"
      unfolding Suc by (simp only: stmia_append stmia.simps length_replicate)
    also have "replicate n (0 :: u32) @ [0] = replicate (Suc n) 0" by (simp add: replicate_append_same)
    finally show ?case .
  qed
  from this [of 22] show ?thesis by (simp add: for_u32_fold del: upt.simps replicate.simps stmia.simps)
qed

lemma svc_first:
  assumes "task_b_frame s = 0" and "frames_apart f b" and b: "b = sym_task_b_storage S + 4 * 256 - 4 * 22"
  shows "svc_dispatch S f s = (Done b, s\<lparr>task_a_frame := f, task_b_frame := b,
      ram := stmia b (frame_words (fresh_frame (sym_task_b S) (ram s (f + 56)) (- 3))) (ram s)\<rparr>)"
  using assms(1) spsr_kept [OF assms(2), of 13] spsr_kept(2) [OF assms(2), of 0]
  unfolding svc_dispatch_def b [symmetric]
  by (simp add: cmd_simps zeroed_frame store_field_def fresh_ram [symmetric]
      del: stmia.simps replicate.simps)

lemma svc_later:
  "task_b_frame s \<noteq> 0 \<Longrightarrow> svc_dispatch S f s = (Done (task_a_frame s), s\<lparr>task_b_frame := f\<rparr>)"
  by (simp add: svc_dispatch_def cmd_simps)

lemma fresh_from_frame: "ram s (f + 56) = tf_spsr (trap_frame_at (ram s) f)"
  "ram s (f + 60) = tf_exception_id (trap_frame_at (ram s) f)"
  by (simp_all add: trap_frame_at_def)

interpretation irq_switch: switcher P junk "irq_handlers P S" Irq "sym_task_b_storage S"
    "\<lambda>f. fresh_frame (sym_task_b S + 4) (tf_spsr f) (tf_exception_id f)" for P junk S
proof
  show "Irq = Svc \<or> Irq = Irq" by simp
  show "\<exists>t. dispatched junk (irq_handlers P S) Irq f s = (Done (sym_task_b_storage S), t)
      \<and> gpr t = gpr s \<and> task_a_frame t = f \<and> task_b_frame t = sym_task_b_storage S
      \<and> trap_frame_at (ram t) (sym_task_b_storage S) = fresh_frame (sym_task_b S + 4)
          (tf_spsr (trap_frame_at (ram s) f)) (tf_exception_id (trap_frame_at (ram s) f))
      \<and> (\<forall>a. in_frame (sym_task_b_storage S) a \<or> ram t a = ram s a)"
    if "task_b_frame s = 0" "frames_apart f (sym_task_b_storage S)" for s :: "'a switch_state" and f
    using irq_first [OF that, of P] fresh_frame_stored
    by (fastforce simp: dispatched_def irq_handlers_def fresh_from_frame)
  show "\<exists>t. dispatched junk (irq_handlers P S) Irq f s = (Done (task_a_frame s), t)
      \<and> gpr t = gpr s \<and> task_a_frame t = task_a_frame s \<and> task_b_frame t = f \<and> ram t = ram s"
    if "task_b_frame s \<noteq> 0" for s :: "'a switch_state" and f
    using irq_later [OF that, of P S f] by (auto simp: dispatched_def irq_handlers_def)
qed

interpretation svc_switch: switcher P junk "svc_handlers S" Svc "sym_task_b_storage S + 936"
    "\<lambda>f. fresh_frame (sym_task_b S) (tf_spsr f) (- 3)" for P junk S
proof
  show "Svc = Svc \<or> Svc = Irq" by simp
  show "\<exists>t. dispatched junk (svc_handlers S) Svc f s = (Done (sym_task_b_storage S + 936), t)
      \<and> gpr t = gpr s \<and> task_a_frame t = f \<and> task_b_frame t = sym_task_b_storage S + 936
      \<and> trap_frame_at (ram t) (sym_task_b_storage S + 936) = fresh_frame (sym_task_b S)
          (tf_spsr (trap_frame_at (ram s) f)) (- 3)
      \<and> (\<forall>a. in_frame (sym_task_b_storage S + 936) a \<or> ram t a = ram s a)"
    if "task_b_frame s = 0" "frames_apart f (sym_task_b_storage S + 936)"
    for s :: "'a switch_state" and f
    using svc_first [OF that, of S] fresh_frame_stored
    by (fastforce simp: dispatched_def svc_handlers_def fresh_from_frame)
  show "\<exists>t. dispatched junk (svc_handlers S) Svc f s = (Done (task_a_frame s), t)
      \<and> gpr t = gpr s \<and> task_a_frame t = task_a_frame s \<and> task_b_frame t = f \<and> ram t = ram s"
    if "task_b_frame s \<noteq> 0" for s :: "'a switch_state" and f
    using svc_later [OF that, of S f] by (auto simp: dispatched_def svc_handlers_def)
qed

section \<open>The properties\<close>

definition sample_switch :: switch_symbols where
  "sample_switch = \<lparr> sym_task_b_storage = 0xc0020000, sym_task_b = 0xc0001200 \<rparr>"

definition sample_tasks :: "unit switch_state" where
  "sample_tasks = \<lparr> dev = (), cpsr = 0x13, io = [], ram = (\<lambda>a. 0),
     gpr = [100, 101, 102, 103, 104, 105, 106, 107, 108, 109, 110, 111, 112], pc = 0xc0001000,
     exc_sp = 0xc0003000, exc_lr = 0, exc_spsr = 0, usr_sp = 0x7000, usr_lr = 0x44,
     fault_status = 0, fault_address = 0, interrupt_count = 0, task_a_frame = 0, task_b_frame = 0 \<rparr>"

lemma sample_turns:
  "first_turn 0xc0002fa8 0xc0020000 sample_tasks" "frames_apart 0xc0002fa8 0xc0020000"
  "first_turn 0xc0002fa8 0xc00203a8 sample_tasks" "frames_apart 0xc0002fa8 0xc00203a8"
  by (simp_all add: sample_tasks_def first_turn_def frames_apart_def)

lemma irq_main_result:
  "irq_kernel_main P s = (Done (), s\<lparr>dev := reg_write P 0x10001004 7 (reg_write P 0x10001000 100
      (reg_write P 0x10000004 1 (dev s))), cpsr := cpsr s AND NOT 0x80,
     io := io s @ [RegWrite 0x10000004 1, RegWrite 0x10001000 100, RegWrite 0x10001004 7, IrqEnable]\<rparr>)"
  by (simp add: irq_kernel_main_def cmd_simps reg_addrs)

text \<open>
  C18: in the IRQ example the first interrupt starts task B with cleared registers and A's status
  word, and the second one resumes task A exactly where and as it was interrupted, whatever task B
  did to the registers in between.
\<close>

theorem irq_switch_resumes:
  assumes "first_turn a_frame (sym_task_b_storage S) s"
    and "frames_apart a_frame (sym_task_b_storage S)"
    and "a_frame \<noteq> 0" and "sym_task_b_storage S \<noteq> 0"
  shows "\<exists>t. deliver P junk (irq_handlers P S) Irq s = (Done (), t)
    \<and> running_context t = \<lparr> cx_r = replicate 13 0, cx_pc = sym_task_b S, cx_psr = cpsr s,
        cx_sp = 0, cx_lr = 0 \<rparr>
    \<and> (\<forall>u. task_runs a_frame (sym_task_b_storage S) t u \<longrightarrow>
        (\<exists>v. deliver P junk (irq_handlers P S) Irq u = (Done (), v)
          \<and> running_context v = running_context s))"
  using irq_switch.switch_round [OF assms, of P junk]
  by (simp add: frame_context_def trap_frame_of_def fresh_frame_def running_context_def) blast

theorem irq_switch_resumes_witness:
  "\<exists>t. deliver quiet (\<lambda>n. 7) (irq_handlers quiet sample_switch) Irq sample_tasks = (Done (), t)
    \<and> cx_pc (running_context t) = 0xc0001200"
  using irq_switch_resumes [of "0xc0002fa8" sample_switch sample_tasks quiet "\<lambda>n. 7"] sample_turns
  by (auto simp: sample_switch_def)

text \<open>
  C17: what holds in every state the IRQ example reaches from its main, whatever the tasks do and
  whenever interrupts arrive: either no switch has happened yet, or task B runs on the stack above
  its own frame, or task A runs on the interrupt stack and its frame pointer is in place.
\<close>

theorem irq_switch_reachable:
  assumes "first_turn a_frame (sym_task_b_storage S) s"
    and "frames_apart a_frame (sym_task_b_storage S)"
    and "a_frame \<noteq> 0" and "sym_task_b_storage S \<noteq> 0"
  shows "\<exists>s'. irq_kernel_main P s = (Done (), s') \<and> cpsr s' AND 0x80 = 0
    \<and> io s' = io s @ [RegWrite 0x10000004 1, RegWrite 0x10001000 100, RegWrite 0x10001004 7, IrqEnable]
    \<and> (\<forall>t. switch_steps P junk (irq_handlers P S) Irq a_frame (sym_task_b_storage S) s' t \<longrightarrow>
        first_turn a_frame (sym_task_b_storage S) t
        \<or> b_turn a_frame (sym_task_b_storage S) t \<or> a_turn a_frame (sym_task_b_storage S) t)"
proof -
  let ?s = "snd (irq_kernel_main P s)"
  have first: "first_turn a_frame (sym_task_b_storage S) ?s"
    using assms(1) by (simp add: irq_main_result first_turn_def)
  have "\<forall>t. switch_steps P junk (irq_handlers P S) Irq a_frame (sym_task_b_storage S) ?s t \<longrightarrow>
        first_turn a_frame (sym_task_b_storage S) t
        \<or> b_turn a_frame (sym_task_b_storage S) t \<or> a_turn a_frame (sym_task_b_storage S) t"
    using irq_switch.reachable_turns [OF _ first assms(2-4)] by blast
  moreover have "cpsr ?s AND 0x80 = 0"
    by (simp add: irq_main_result) (simp add: and.assoc)
  ultimately show ?thesis by (simp add: irq_main_result)
qed

theorem irq_switch_reachable_witness:
  "\<exists>s'. irq_kernel_main quiet sample_tasks = (Done (), s')
    \<and> switch_steps quiet (\<lambda>n. 7) (irq_handlers quiet sample_switch) Irq 0xc0002fa8 0xc0020000 s' s'
    \<and> (first_turn 0xc0002fa8 0xc0020000 s' \<or> b_turn 0xc0002fa8 0xc0020000 s'
       \<or> a_turn 0xc0002fa8 0xc0020000 s')"
  using irq_switch_reachable [of "0xc0002fa8" sample_switch sample_tasks quiet "\<lambda>n. 7"] sample_turns
  by (auto simp: sample_switch_def)

text \<open>
  C19: after its second interrupt the IRQ example never switches again. In every later state task A
  is interrupted and resumed with its own context, and the pointer to task B's frame is overwritten
  by task A's: task B, which was interrupted once, does not run any more.
\<close>

theorem irq_switch_ends:
  assumes "a_turn a_frame (sym_task_b_storage S) s"
    and "frames_apart a_frame (sym_task_b_storage S)"
    and "a_frame \<noteq> 0" and "sym_task_b_storage S \<noteq> 0"
    and "switch_steps P junk (irq_handlers P S) Irq a_frame (sym_task_b_storage S) s t"
  shows "\<exists>u. deliver P junk (irq_handlers P S) Irq t = (Done (), u)
    \<and> running_context u = running_context t \<and> task_b_frame u = a_frame
    \<and> a_turn a_frame (sym_task_b_storage S) u"
  using irq_switch.a_turn_stays [OF irq_switch.a_turn_reachable [OF assms(5,1-4)] assms(3,4), of P junk]
  by (auto simp: frame_context_def trap_frame_of_def running_context_def)

theorem irq_switch_ends_witness:
  "\<exists>u. deliver quiet (\<lambda>n. 7) (irq_handlers quiet sample_switch) Irq
      (sample_tasks\<lparr>task_a_frame := 0xc0002fa8, task_b_frame := 0xc0020000\<rparr>) = (Done (), u)
    \<and> task_b_frame u = 0xc0002fa8"
  using irq_switch_ends [of "0xc0002fa8" sample_switch
      "sample_tasks\<lparr>task_a_frame := 0xc0002fa8, task_b_frame := 0xc0020000\<rparr>" quiet "\<lambda>n. 7"
      "sample_tasks\<lparr>task_a_frame := 0xc0002fa8, task_b_frame := 0xc0020000\<rparr>"] sample_turns(2)
  by (auto simp: sample_switch_def a_turn_def sample_tasks_def)

text \<open>
  C20: the SVC example: the first system call of task A starts task B, the one of task B resumes
  task A after its call, with its registers; every further call of task A returns to task A.
\<close>

theorem svc_switch_resumes:
  assumes "first_turn a_frame (sym_task_b_storage S + 936) s"
    and "frames_apart a_frame (sym_task_b_storage S + 936)"
    and "a_frame \<noteq> 0" and "sym_task_b_storage S + 936 \<noteq> 0"
  shows "\<exists>t. deliver P junk (svc_handlers S) Svc s = (Done (), t)
    \<and> running_context t = \<lparr> cx_r = replicate 13 0, cx_pc = sym_task_b S, cx_psr = cpsr s,
        cx_sp = 0, cx_lr = 0 \<rparr>
    \<and> (\<forall>u. task_runs a_frame (sym_task_b_storage S + 936) t u \<longrightarrow>
        (\<exists>v. deliver P junk (svc_handlers S) Svc u = (Done (), v)
          \<and> running_context v = (running_context s)\<lparr>cx_pc := pc s + 4\<rparr>
          \<and> (\<forall>w. switch_steps P junk (svc_handlers S) Svc a_frame (sym_task_b_storage S + 936) v w \<longrightarrow>
              (\<exists>x. deliver P junk (svc_handlers S) Svc w = (Done (), x)
                \<and> running_context x = (running_context w)\<lparr>cx_pc := pc w + 4\<rparr>))))"
proof -
  let ?b = "sym_task_b_storage S + 936"
  have after: "\<exists>x. deliver P junk (svc_handlers S) Svc w = (Done (), x)
      \<and> running_context x = (running_context w)\<lparr>cx_pc := pc w + 4\<rparr>"
    if "a_turn a_frame ?b v" "switch_steps P junk (svc_handlers S) Svc a_frame ?b v w" for v w
    using svc_switch.a_turn_stays [OF svc_switch.a_turn_reachable [OF that(2,1) assms(2-4)] assms(3,4),
        of P junk]
    by (auto simp: frame_context_def trap_frame_of_def running_context_def)
  from svc_switch.switch_round [OF assms, of P junk] obtain t where
    t: "deliver P junk (svc_handlers S) Svc s = (Done (), t)"
      "running_context t = frame_context 0 (fresh_frame (sym_task_b S) (cpsr s) (- 3))"
      "\<And>u. task_runs a_frame ?b t u \<Longrightarrow>
        \<exists>v. deliver P junk (svc_handlers S) Svc u = (Done (), v) \<and> a_turn a_frame ?b v
          \<and> running_context v = frame_context 0 (trap_frame_of Svc (claimed_of P s) s)"
    by (auto simp: trap_frame_of_def)
  have "running_context t = \<lparr> cx_r = replicate 13 0, cx_pc = sym_task_b S, cx_psr = cpsr s,
      cx_sp = 0, cx_lr = 0 \<rparr>"
    unfolding t(2) by (simp add: frame_context_def fresh_frame_def)
  moreover have "frame_context 0 (trap_frame_of Svc (claimed_of P s) s) =
      (running_context s)\<lparr>cx_pc := pc s + 4\<rparr>"
    by (simp add: frame_context_def trap_frame_of_def running_context_def)
  ultimately show ?thesis using t(1,3) after by metis
qed

theorem svc_switch_resumes_witness:
  "\<exists>t. deliver quiet (\<lambda>n. 7) (svc_handlers sample_switch) Svc sample_tasks = (Done (), t)
    \<and> cx_pc (running_context t) = 0xc0001200"
  using svc_switch_resumes [of "0xc0002fa8" sample_switch sample_tasks quiet "\<lambda>n. 7"] sample_turns
  by (auto simp: sample_switch_def)

end
