(* ===== verification/Bootstrap.thy ===== *)
theory Bootstrap
  imports Trap
begin

text \<open>
  The kernel's start-up code (\<^verbatim>\<open>kernel/src/startup/boot.S\<close>): the page tables it builds in physical
  memory with the MMU off, and the sequence that sets the stacks, turns the MMU on and enters
  \<^verbatim>\<open>minemu_kernel_main\<close>.
\<close>

section \<open>The page tables\<close>

text \<open>
  A filling loop: \<^verbatim>\<open>str r1, [r0], #4\<close>, then \<^verbatim>\<open>add r1, r1, #d\<close> (0 where the code has no addition),
  then \<^verbatim>\<open>subs r2, r2, #1\<close> and the branch back while it is not zero. The counts are not zero.
\<close>

definition fill_table :: "u32 \<Rightarrow> u32 \<Rightarrow> u32 \<times> u32 \<times> (u32 \<Rightarrow> u32) \<Rightarrow> u32 \<times> u32 \<times> (u32 \<Rightarrow> u32)" where
  "fill_table d count = down_u32 (\<lambda>_ (r0, r1, m). (r0 + 4, r1 + d, m(r0 := r1))) count"

text \<open>One direct-map table: its directory entry at \<^verbatim>\<open>r3\<close>, then its 1024 entries at \<^verbatim>\<open>r0\<close>.\<close>

definition direct_table :: "u32 \<times> u32 \<times> u32 \<times> (u32 \<Rightarrow> u32) \<Rightarrow> u32 \<times> u32 \<times> u32 \<times> (u32 \<Rightarrow> u32)" where
  "direct_table = (\<lambda>(r3, r0, r1, m). (r3 + 4, fill_table 4096 1024 (r0, r1, m(r3 := r0 OR 1))))"

definition minemu_bootstrap_map :: "(u32 \<Rightarrow> u32) \<Rightarrow> (u32 \<Rightarrow> u32)" where
  "minemu_bootstrap_map m =
     (let (_, _, m) = fill_table 0 1024 (0x40010000, 0, m);
          (_, _, m) = fill_table 4096 1024 (0x40011000, 0x4000001b, m);
          m = m(0x40010400 := 0x40011001);
          (_, _, _, m) = down_u32 (\<lambda>_. direct_table) 16 (0x40010c00, 0x40012000, 0x4000001b, m);
          (_, _, m) = fill_table 0 1024 (0x40022000, 0, m);
          (_, _, m) = fill_table 4096 16 (0x40022000, 0x10000013, m)
      in m(0x40010100 := 0x40022001))"

section \<open>The start-up sequence\<close>

text \<open>The stack pointers of the modes, by mode number, and the symbols of the linker script.\<close>

record 'd bootstrap_state = "'d processor" +
  banked_sp :: "u32 \<Rightarrow> u32"

record stack_tops =
  svc_top :: u32
  irq_top :: u32
  abt_top :: u32
  und_top :: u32

definition set_mode :: "u32 \<Rightarrow> (('d, 'z) bootstrap_state_scheme, unit) cmd" where
  "set_mode c = modify (\<lambda>s. s\<lparr>cpsr := (cpsr s AND NOT 0xff) OR c\<rparr>)"

definition set_sp :: "u32 \<Rightarrow> ('d bootstrap_state, unit) cmd" where
  "set_sp sp = modify (\<lambda>s. s\<lparr>banked_sp := (banked_sp s)(cpsr s AND 0x1f := sp)\<rparr>)"

definition set_stacks :: "stack_tops \<Rightarrow> ('d bootstrap_state, unit) cmd" where
  "set_stacks K = block
     [set_mode 0xd3, set_sp (svc_top K), set_mode 0xd2, set_sp (irq_top K),
      set_mode 0xd7, set_sp (abt_top K), set_mode 0xdb, set_sp (und_top K), set_mode 0xd3]"

definition minemu_bootstrap_high :: "stack_tops \<Rightarrow> (u32 \<Rightarrow> ('d bootstrap_state, unit) cmd) \<Rightarrow> u32
    \<Rightarrow> ('d bootstrap_state, unit) cmd" where
  "minemu_bootstrap_high K minemu_kernel_main r8 = block
     [set_stacks K, minemu_kernel_main r8, minemu_fail_stop]"

definition minemu_bootstrap :: "stack_tops \<Rightarrow> stack_tops \<Rightarrow> u32 \<Rightarrow> (u32 \<Rightarrow> ('d bootstrap_state, unit) cmd)
    \<Rightarrow> u32 \<Rightarrow> ('d bootstrap_state, unit) cmd" where
  "minemu_bootstrap low high vectors minemu_kernel_main r0 = block
     [modify (\<lambda>s. s\<lparr>cpsr := cpsr s OR 0xc0, io := io s @ [IrqDisable]\<rparr>),
      set_stacks low,
      modify (\<lambda>s. s\<lparr>ram := minemu_bootstrap_map (ram s)\<rparr>),
      minemu_mmu_set_ttbr0 0x40010000, minemu_mmu_tlbiall, minemu_mmu_set_enabled 1,
      minemu_mmu_set_vbar vectors,
      minemu_bootstrap_high high minemu_kernel_main r0]"

section \<open>What the MMU makes of the tables\<close>

text \<open>
  The two-level walk by the bits of \<^verbatim>\<open>mmu.h\<close>: 10 bits of directory index, 10 bits of table index,
  entry valid in bit 0, page address and flag bits.
\<close>

definition walk :: "(u32 \<Rightarrow> u32) \<Rightarrow> u32 \<Rightarrow> u32 \<Rightarrow> (u32 \<times> u32) option" where
  "walk m root va =
     (let pde = m (root + 4 * drop_bit 22 va) in
      if pde AND 1 = 0 then None
      else let pte = m (page_of pde + 4 * (drop_bit 12 va AND 0x3ff)) in
        if pte AND 1 = 0 then None else Some (page_of pte + page_off va, page_off pte))"

text \<open>
  The mapping the start-up code means to build: the first four megabytes of RAM at their physical
  address and all 64 megabytes at the kernel base, readable, writable and executable; the 16
  device pages readable and writable but not executable; nothing else, and nothing for user mode.
\<close>

definition boot_mapping :: "u32 \<Rightarrow> (u32 \<times> u32) option" where
  "boot_mapping va =
     (if 0x40000000 \<le> va \<and> va < 0x40400000 then Some (va, 0x1b)
      else if 0xc0000000 \<le> va \<and> va < 0xc4000000 then Some (va - 0x80000000, 0x1b)
      else if 0x10000000 \<le> va \<and> va < 0x10010000 then Some (va, 0x13)
      else None)"

text \<open>What a filling loop leaves, in closed form.\<close>

definition table_fill :: "u32 \<Rightarrow> u32 \<Rightarrow> u32 \<Rightarrow> nat \<Rightarrow> (u32 \<Rightarrow> u32) \<Rightarrow> (u32 \<Rightarrow> u32)" where
  "table_fill p v d n m = (\<lambda>a. let x = unat (a - p) in
     if x < 4 * n \<and> x mod 4 = 0 then v + d * of_nat (x div 4) else m a)"

lemma table_fill_0 [simp]: "table_fill p v d 0 m = m"
  by (simp add: table_fill_def)

lemma table_fill_first:
  assumes "n < 0x3fffffff"
  shows "table_fill (p + 4) (v + d) d n (m(p := v)) = table_fill p v d (Suc n) m"
proof
  fix a
  define x where "x = unat (a - p)"
  have wrap: "unat (a - (p + 4)) = (if 4 \<le> x then x - 4 else x + 4294967292)"
  proof -
    have "unat (y - 4) = (if 4 \<le> unat y then unat y - 4 else unat y + 4294967292)" for y :: u32
      by (simp add: unat_sub_if_size word_size)
    from this [of "a - p"] show ?thesis by (simp add: x_def diff_diff_eq)
  qed
  show "table_fill (p + 4) (v + d) d n (m(p := v)) a = table_fill p v d (Suc n) m a"
  proof (cases "4 \<le> x")
    case True
    then obtain y where y: "x = y + 4" by (metis add.commute le_Suc_ex)
    then have "a \<noteq> p" and "x div 4 = Suc (y div 4)" and "x mod 4 = y mod 4"
      by (auto simp: x_def)
    with y show ?thesis
      by (simp add: table_fill_def wrap x_def [symmetric] Let_def distrib_left)
  next
    case False
    then have "x \<noteq> 0 \<Longrightarrow> x mod 4 \<noteq> 0" by (cases "x = 0") simp_all
    moreover have "x = 0 \<longleftrightarrow> a = p" by (simp add: x_def unat_eq_0)
    ultimately show ?thesis
      using False assms by (auto simp: table_fill_def wrap x_def [symmetric] Let_def)
  qed
qed

lemma fill_table_result:
  assumes "n < 0x3fffffff"
  shows "fill_table d (of_nat n) (p, v, m) = (p + 4 * of_nat n, v + d * of_nat n, table_fill p v d n m)"
  using assms
proof (induction n arbitrary: p v m)
  case 0
  then show ?case by (simp add: fill_table_def)
next
  case (Suc n)
  have "unat (of_nat (Suc n) :: u32) = Suc n" using Suc.prems by (subst unat_of_nat) simp
  then have "(of_nat (Suc n) :: u32) \<noteq> 0" by (metis unat_0 nat.distinct(1))
  then have "fill_table d (of_nat (Suc n)) (p, v, m) = fill_table d (of_nat n) (p + 4, v + d, m(p := v))"
    by (simp add: fill_table_def down_u32_step)
  also have "\<dots> = (p + 4 + 4 * of_nat n, v + d + d * of_nat n,
      table_fill (p + 4) (v + d) d n (m(p := v)))"
    using Suc.prems by (intro Suc.IH) simp
  also have "table_fill (p + 4) (v + d) d n (m(p := v)) = table_fill p v d (Suc n) m"
    using Suc.prems by (intro table_fill_first) simp
  finally show ?case by (simp add: algebra_simps)
qed

lemma table_fill_in:
  "unat a = unat p + 4 * k \<Longrightarrow> k < n \<Longrightarrow> table_fill p v d n m a = v + d * of_nat k"
proof -
  assume a: "unat a = unat p + 4 * k" and k: "k < n"
  then have "unat (a - p) = 4 * k" by (simp add: unat_sub_u32 word_le_nat_alt)
  with k show ?thesis by (simp add: table_fill_def)
qed

lemma table_fill_out:
  assumes "unat a < unat p \<or> unat p + 4 * n \<le> unat a" and "unat p + 4 * n \<le> 4294967296"
  shows "table_fill p v d n m a = m a"
proof -
  have "\<not> unat (a - p) < 4 * n"
    using assms unat_u32_bound [of a] by (auto simp: unat_sub_if_size word_size)
  then show ?thesis by (simp add: table_fill_def)
qed

lemma table_fill_last:
  assumes "unat p + 4 * n < 4294967296"
  shows "(table_fill p v d n m)(p + 4 * of_nat n := v + d * of_nat n) = table_fill p v d (Suc n) m"
proof
  fix a
  define x where "x = unat (a - p)"
  have "unat (4 * of_nat n :: u32) = 4 * n" using assms by (simp add: unat_word_ariths unat_of_nat)
  then have "x = 4 * n \<longleftrightarrow> a - p = 4 * of_nat n" unfolding x_def by (metis word_unat_eq_iff)
  then have eq: "x = 4 * n \<longleftrightarrow> a = p + 4 * of_nat n" by (auto simp: algebra_simps)
  show "((table_fill p v d n m)(p + 4 * of_nat n := v + d * of_nat n)) a = table_fill p v d (Suc n) m a"
  proof (cases "x = 4 * n")
    case True
    then have "table_fill p v d (Suc n) m a = v + d * of_nat n"
      by (simp add: table_fill_def x_def [symmetric] Let_def)
    moreover have "a = p + 4 * of_nat n" using True eq by blast
    ultimately show ?thesis by simp
  next
    case False
    have "x < 4 * n \<and> x mod 4 = 0 \<longleftrightarrow> x < 4 * Suc n \<and> x mod 4 = 0"
    proof (cases "x mod 4 = 0")
      case True
      then obtain q where "x = 4 * q" by (auto simp: mod_eq_0_iff_dvd)
      with \<open>x \<noteq> 4 * n\<close> show ?thesis by auto
    qed simp
    with False eq show ?thesis by (simp add: table_fill_def x_def [symmetric] Let_def)
  qed
qed

text \<open>A table after another one, and a store elsewhere.\<close>

lemma table_fill_append:
  assumes "unat p + 4 * (n + k) < 4294967296"
  shows "table_fill (p + 4 * of_nat n) (v + d * of_nat n) d k (table_fill p v d n m) =
         table_fill p v d (n + k) m"
  using assms
proof (induction k arbitrary: n)
  case 0
  then show ?case by simp
next
  case (Suc k)
  have "table_fill (p + 4 * of_nat n) (v + d * of_nat n) d (Suc k) (table_fill p v d n m) =
      table_fill (p + 4 * of_nat (Suc n)) (v + d * of_nat (Suc n)) d k
        ((table_fill p v d n m)(p + 4 * of_nat n := v + d * of_nat n))"
    using table_fill_first [of k "p + 4 * of_nat n" "v + d * of_nat n" d "table_fill p v d n m"] Suc.prems
    by (simp add: algebra_simps)
  also have "\<dots> = table_fill (p + 4 * of_nat (Suc n)) (v + d * of_nat (Suc n)) d k (table_fill p v d (Suc n) m)"
    using table_fill_last [of p n v d m] Suc.prems by simp
  also have "\<dots> = table_fill p v d (Suc n + k) m" using Suc.prems by (intro Suc.IH) simp
  finally show ?case by simp
qed

lemma table_fill_upd:
  assumes "unat a < unat p \<or> unat p + 4 * n \<le> unat a" and "unat p + 4 * n \<le> 4294967296"
  shows "(table_fill p v d n m)(a := w) = table_fill p v d n (m(a := w))"
proof
  fix b
  have "table_fill p v d n (m(a := w)) a = w" using table_fill_out [OF assms] by simp
  then show "((table_fill p v d n m)(a := w)) b = table_fill p v d n (m(a := w)) b"
    by (cases "b = a") (simp_all add: table_fill_def Let_def)
qed

text \<open>The sixteen direct-map tables: one run of entries, and one run of directory entries.\<close>

lemma direct_tables:
  assumes "n \<le> 16"
  shows "((direct_table ^^ n) (0x40010c00, 0x40012000, 0x4000001b, m)) =
    (0x40010c00 + 4 * of_nat n, 0x40012000 + 4 * of_nat (1024 * n), 0x4000001b + 4096 * of_nat (1024 * n),
     table_fill 0x40012000 0x4000001b 4096 (1024 * n) (table_fill 0x40010c00 0x40012001 4096 n m))"
  using assms
proof (induction n)
  case 0
  then show ?case by simp
next
  case (Suc n)
  let ?D = "table_fill 0x40010c00 0x40012001 4096 n m"
  let ?r0 = "0x40012000 + 4 * of_nat (1024 * n) :: u32"
  have n: "n < 16" using Suc.prems by simp
  have "even ?r0" by simp
  then have or1: "?r0 OR 1 = 0x40012001 + 4096 * of_nat n" by (simp add: or_one_eq)
  have "unat (4 * of_nat n :: u32) = 4 * n" using n by (simp add: unat_word_ariths unat_of_nat)
  then have r3: "unat (0x40010c00 + 4 * of_nat n :: u32) = 0x40010c00 + 4 * n"
    using n by (subst unat_add_u32) simp_all
  have dir: "(table_fill 0x40012000 0x4000001b 4096 (1024 * n) ?D)(0x40010c00 + 4 * of_nat n := ?r0 OR 1) =
      table_fill 0x40012000 0x4000001b 4096 (1024 * n) (table_fill 0x40010c00 0x40012001 4096 (Suc n) m)"
    unfolding or1 using r3 n table_fill_last [of "0x40010c00" n "0x40012001" 4096 m]
    by (subst table_fill_upd) simp_all
  let ?r1 = "0x4000001b + 4096 * of_nat (1024 * n) :: u32"
  let ?r3 = "0x40010c00 + 4 * of_nat n :: u32"
  let ?M = "table_fill 0x40012000 0x4000001b 4096 (1024 * n) ?D"
  let ?N = "table_fill 0x40010c00 0x40012001 4096 (Suc n) m"
  have "(direct_table ^^ Suc n) (0x40010c00, 0x40012000, 0x4000001b, m) = direct_table (?r3, ?r0, ?r1, ?M)"
    using Suc n by (simp only: funpow.simps comp_def)
  also have "\<dots> = (?r3 + 4, fill_table 4096 (of_nat 1024) (?r0, ?r1, ?M(?r3 := ?r0 OR 1)))"
    by (simp add: direct_table_def)
  also have "\<dots> = (?r3 + 4, ?r0 + 4 * of_nat 1024, ?r1 + 4096 * of_nat 1024,
      table_fill ?r0 ?r1 4096 1024 (table_fill 0x40012000 0x4000001b 4096 (1024 * n) ?N))"
    unfolding dir by (subst fill_table_result) simp_all
  also have "table_fill ?r0 ?r1 4096 1024 (table_fill 0x40012000 0x4000001b 4096 (1024 * n) ?N) =
      table_fill 0x40012000 0x4000001b 4096 (1024 * n + 1024) ?N"
    using n by (intro table_fill_append) simp
  finally show ?case by (simp add: algebra_simps)
qed

lemma down_funpow: "n < 4294967296 \<Longrightarrow> down_u32 (\<lambda>_. f) (of_nat n) x = (f ^^ n) x"
proof (induction n arbitrary: x)
  case 0
  then show ?case by simp
next
  case (Suc n)
  have "unat (of_nat (Suc n) :: u32) = Suc n" using Suc.prems by (subst unat_of_nat) simp
  then have "(of_nat (Suc n) :: u32) \<noteq> 0" by (metis unat_0 nat.distinct(1))
  then have "down_u32 (\<lambda>_. f) (of_nat (Suc n)) x = down_u32 (\<lambda>_. f) (of_nat n) (f x)"
    by (simp add: down_u32_step)
  with Suc show ?case by (simp add: funpow_swap1)
qed

definition boot_tables :: "(u32 \<Rightarrow> u32) \<Rightarrow> (u32 \<Rightarrow> u32)" where
  "boot_tables m =
     (table_fill 0x40022000 0x10000013 4096 16 (table_fill 0x40022000 0 0 1024
       (table_fill 0x40012000 0x4000001b 4096 16384 (table_fill 0x40010c00 0x40012001 4096 16
         ((table_fill 0x40011000 0x4000001b 4096 1024 (table_fill 0x40010000 0 0 1024 m))
            (0x40010400 := 0x40011001))))))(0x40010100 := 0x40022001)"

lemma bootstrap_map_result: "minemu_bootstrap_map m = boot_tables m"
proof -
  have fill: "fill_table d 1024 (p, v, n) = (p + 4096, v + d * 1024, table_fill p v d 1024 n)"
    "fill_table d 16 (p, v, n) = (p + 64, v + d * 16, table_fill p v d 16 n)" for d p v n
    using fill_table_result [of 1024 d p v n] fill_table_result [of 16 d p v n] by simp_all
  have "down_u32 (\<lambda>_. direct_table) 16 (0x40010c00, 0x40012000, 0x4000001b, n) =
      (0x40010c40, 0x40022000, 0x4400001b,
       table_fill 0x40012000 0x4000001b 4096 16384 (table_fill 0x40010c00 0x40012001 4096 16 n))" for n
    using down_funpow [of 16 direct_table "(0x40010c00, 0x40012000, 0x4000001b, n)"]
      direct_tables [of 16 n] by simp
  then show ?thesis by (simp add: minemu_bootstrap_map_def boot_tables_def fill Let_def)
qed

text \<open>Reading the tables back.\<close>

lemma unat_of_nat_u32: "n < 4294967296 \<Longrightarrow> unat (of_nat n :: u32) = n"
  by (subst unat_of_nat) simp

lemma tables_outside:
  assumes "unat a < 0x40010000 \<or> 0x40023000 \<le> unat a"
  shows "boot_tables m a = m a"
proof -
  have "a \<noteq> 0x40010100" "a \<noteq> 0x40010400" using assms by auto
  with assms show ?thesis by (auto simp: boot_tables_def table_fill_out)
qed

lemma directory_entry:
  assumes "i < 1024"
  shows "boot_tables m (of_nat (0x40010000 + 4 * i)) =
    (if i = 256 then 0x40011001 else if 768 \<le> i \<and> i < 784 then of_nat (0x40012001 + 4096 * (i - 768))
     else if i = 64 then 0x40022001 else 0)"
proof -
  let ?a = "of_nat (0x40010000 + 4 * i) :: u32"
  have a: "unat ?a = 0x40010000 + 4 * i" using assms by (intro unat_of_nat_u32) simp
  have neq: "?a = 0x40010100 \<longleftrightarrow> i = 64" "?a = 0x40010400 \<longleftrightarrow> i = 256"
    unfolding word_unat_eq_iff a by auto
  have dir: "table_fill 0x40010c00 0x40012001 4096 16 n ?a =
      (if 768 \<le> i \<and> i < 784 then of_nat (0x40012001 + 4096 * (i - 768)) else n ?a)" for n
  proof (cases "768 \<le> i \<and> i < 784")
    case True
    then obtain j where j: "i = 768 + j" by (auto simp: le_iff_add)
    with True a table_fill_in [of ?a "0x40010c00" j 16] show ?thesis by simp
  next
    case False
    with a assms show ?thesis by (auto simp: table_fill_out)
  qed
  have "boot_tables m ?a = (if i = 64 then 0x40022001 else
      if 768 \<le> i \<and> i < 784 then of_nat (0x40012001 + 4096 * (i - 768)) else
      if i = 256 then 0x40011001 else 0)"
    using a assms table_fill_in [of ?a "0x40010000" i 1024 0 0 m]
    unfolding boot_tables_def
    by (simp add: neq dir table_fill_out del: of_nat_add of_nat_mult)
  then show ?thesis by auto
qed

lemma table_entries:
  "k < 1024 \<Longrightarrow> boot_tables m (of_nat (0x40011000 + 4 * k)) = of_nat (0x4000001b + 4096 * k)"
  "k < 16384 \<Longrightarrow> boot_tables m (of_nat (0x40012000 + 4 * k)) = of_nat (0x4000001b + 4096 * k)"
  "k < 1024 \<Longrightarrow> boot_tables m (of_nat (0x40022000 + 4 * k)) =
     (if k < 16 then of_nat (0x10000013 + 4096 * k) else 0)"
proof -
  show "boot_tables m (of_nat (0x40011000 + 4 * k)) = of_nat (0x4000001b + 4096 * k)" if "k < 1024"
  proof -
    let ?a = "of_nat (0x40011000 + 4 * k) :: u32"
    have a: "unat ?a = 0x40011000 + 4 * k" using that by (intro unat_of_nat_u32) simp
    then have "?a \<noteq> 0x40010100" "?a \<noteq> 0x40010400" unfolding word_unat_eq_iff by auto
    with a that table_fill_in [of ?a "0x40011000" k 1024 "0x4000001b" 4096] show ?thesis
      by (simp add: boot_tables_def table_fill_out del: of_nat_add of_nat_mult) simp
  qed
  show "boot_tables m (of_nat (0x40012000 + 4 * k)) = of_nat (0x4000001b + 4096 * k)" if "k < 16384"
  proof -
    let ?a = "of_nat (0x40012000 + 4 * k) :: u32"
    have a: "unat ?a = 0x40012000 + 4 * k" using that by (intro unat_of_nat_u32) simp
    then have "?a \<noteq> 0x40010100" unfolding word_unat_eq_iff by auto
    with a that table_fill_in [of ?a "0x40012000" k 16384 "0x4000001b" 4096] show ?thesis
      by (simp add: boot_tables_def table_fill_out del: of_nat_add of_nat_mult) simp
  qed
  show "boot_tables m (of_nat (0x40022000 + 4 * k)) =
     (if k < 16 then of_nat (0x10000013 + 4096 * k) else 0)" if "k < 1024"
  proof -
    let ?a = "of_nat (0x40022000 + 4 * k) :: u32"
    have a: "unat ?a = 0x40022000 + 4 * k" using that by (intro unat_of_nat_u32) simp
    then have "?a \<noteq> 0x40010100" unfolding word_unat_eq_iff by auto
    with a that table_fill_in [of ?a "0x40022000" k 1024 0 0]
      table_fill_in [of ?a "0x40022000" k 16 "0x10000013" 4096] show ?thesis
      by (simp add: boot_tables_def table_fill_out del: of_nat_add of_nat_mult) auto
  qed
qed

lemma entry_parts:
  assumes "4096 * q + r < 4294967296" and "r < 4096"
  shows "page_of (of_nat (4096 * q + r)) = of_nat (4096 * q)"
    and "page_off (of_nat (4096 * q + r)) = of_nat r"
proof -
  have a: "unat (of_nat (4096 * q + r) :: u32) = 4096 * q + r" using assms by (intro unat_of_nat_u32)
  have p: "unat (of_nat (4096 * q) :: u32) = 4096 * q" using assms by (intro unat_of_nat_u32) simp
  show "page_of (of_nat (4096 * q + r)) = of_nat (4096 * q)"
    unfolding word_unat_eq_iff unat_page_of a p using assms by simp
  have "unat (of_nat r :: u32) = r" using assms by (intro unat_of_nat_u32) simp
  then show "page_off (of_nat (4096 * q + r)) = of_nat r"
    unfolding word_unat_eq_iff unat_page_off a using assms by simp
qed

lemma walk_indices:
  "drop_bit 22 va = (of_nat (unat va div 4194304) :: u32)"
  "drop_bit 12 va AND 0x3ff = (of_nat (unat va div 4096 mod 1024) :: u32)"
proof -
  have "unat va div 4194304 < 4294967296" using unat_u32_bound [of va] by linarith
  then show "drop_bit 22 va = (of_nat (unat va div 4194304) :: u32)"
    unfolding word_unat_eq_iff by (simp add: unat_of_nat_u32 drop_bit_eq_div unat_div)
  have m: "(0x3ff :: u32) = mask 10" by (simp add: mask_eq_exp_minus_1)
  have "drop_bit 12 va AND 0x3ff = take_bit 10 (drop_bit 12 va)"
    unfolding m by (rule take_bit_eq_mask [symmetric])
  moreover have "unat va div 4096 mod 1024 < 4294967296" by (rule less_trans [of _ 1024]) simp_all
  ultimately show "drop_bit 12 va AND 0x3ff = (of_nat (unat va div 4096 mod 1024) :: u32)"
    unfolding word_unat_eq_iff
    by (simp add: unat_of_nat_u32 drop_bit_eq_div unat_div take_bit_eq_mod unat_mod_distrib)
qed

text \<open>A walk that reaches a table of consecutive pages.\<close>

lemma walk_hit:
  assumes "boot_tables m (of_nat (0x40010000 + 4 * (unat va div 4194304))) = of_nat (4096 * t + 1)"
    and "boot_tables m (of_nat (4096 * t + 4 * (unat va div 4096 mod 1024))) = of_nat (4096 * q + r)"
    and "4096 * t + 1 < 4294967296" and "4096 * q + r < 4294967296" and "r < 4096" and "odd r"
  shows "walk (boot_tables m) 0x40010000 va = Some (of_nat (4096 * q) + page_off va, of_nat r)"
proof -
  have pde: "boot_tables m (0x40010000 + 4 * drop_bit 22 va) = of_nat (4096 * t + 1)"
    using assms(1) by (simp add: walk_indices)
  have pte: "boot_tables m (of_nat (4096 * t) + 4 * (drop_bit 12 va AND 0x3ff)) = of_nat (4096 * q + r)"
    using assms(2) by (simp add: walk_indices)
  have tp: "page_of (of_nat (4096 * t + 1)) = of_nat (4096 * t)" using assms(3) by (intro entry_parts) simp_all
  have valid: "(of_nat n :: u32) AND 1 \<noteq> 0" if "odd n" for n
    using that by (auto simp: and_one_eq mod_2_eq_odd elim!: oddE)
  have "(of_nat (4096 * t + 1) :: u32) AND 1 \<noteq> 0" "(of_nat (4096 * q + r) :: u32) AND 1 \<noteq> 0"
    using assms(6) by (intro valid; simp)+
  then show ?thesis
    unfolding walk_def Let_def pde tp pte using entry_parts [OF assms(4,5)] by simp
qed

lemma walk_miss:
  "boot_tables m (of_nat (0x40010000 + 4 * (unat va div 4194304))) = 0 \<Longrightarrow>
   walk (boot_tables m) 0x40010000 va = None"
  by (simp add: walk_def walk_indices)

lemma page_address:
  assumes "4096 * (unat va div 4096) + c = 4096 * q + e" and "e + 4096 * q < 8589934592"
  shows "of_nat (4096 * q) + page_off va = va + of_nat c - of_nat e"
proof -
  have "of_nat (4096 * (unat va div 4096) + c) = (of_nat (4096 * q + e) :: u32)" using assms(1) by simp
  moreover have "of_nat (4096 * (unat va div 4096)) = page_of va"
    using unat_page_of [of va] by (metis of_nat_unat ucast_id)
  ultimately have "page_of va + of_nat c = of_nat (4096 * q) + of_nat e" by simp
  moreover have "Q + f = v + x - y" if "P + x = Q + y" "P + f = v" for P Q x y f v :: u32
  proof -
    have "Q = P + x - y" using that(1) by (simp only: eq_diff_eq)
    with that(2) [symmetric] show ?thesis by simp
  qed
  ultimately show ?thesis using page_split [of va] by blast
qed

lemma boot_walk: "walk (boot_tables m) 0x40010000 va = boot_mapping va"
proof -
  define i where "i = unat va div 4194304"
  define k where "k = unat va div 4096 mod 1024"
  have "i = unat va div 4096 div 1024" by (simp add: i_def div_mult2_eq [symmetric])
  then have pages: "unat va div 4096 = 1024 * i + k" by (simp add: k_def)
  have page: "4096 * (1024 * i + k) \<le> unat va" "unat va < 4096 * (1024 * i + k) + 4096"
    unfolding pages [symmetric] by simp_all
  have i: "i < 1024" using unat_u32_bound [of va] by (simp add: i_def)
  have k: "k < 1024" by (simp add: k_def)
  note dir = directory_entry [OF i, of m]
  note hit = walk_hit [of m va, folded i_def k_def]
  note map_def = boot_mapping_def word_le_nat_alt word_less_nat_alt
  consider "i = 256" | "768 \<le> i" "i < 784" | "i = 64" "k < 16" | "i = 64" "16 \<le> k"
    | "i \<noteq> 256" "i \<noteq> 64" "i < 768 \<or> 784 \<le> i" by linarith
  then show ?thesis
  proof cases
    case 1
    have "walk (boot_tables m) 0x40010000 va = Some (of_nat (4096 * (0x40000 + k)) + page_off va, of_nat 27)"
      using 1 k dir table_entries(1) [OF k, of m] by (intro hit [of "0x40011"]) simp_all
    moreover have "of_nat (4096 * (0x40000 + k)) + page_off va = va + of_nat 0 - of_nat 0"
      using 1 k pages by (intro page_address) simp_all
    moreover have "boot_mapping va = Some (va, 0x1b)" using 1 k page by (simp add: map_def)
    ultimately show ?thesis by simp
  next
    case 2
    then obtain j where j: "i = 768 + j" "j < 16" by (auto simp: le_iff_add)
    have "walk (boot_tables m) 0x40010000 va =
        Some (of_nat (4096 * (0x40000 + 1024 * j + k)) + page_off va, of_nat 27)"
      using j k dir table_entries(2) [of "1024 * j + k" m]
      by (intro hit [of "0x40012 + j"]) (simp_all add: algebra_simps)
    moreover have "of_nat (4096 * (0x40000 + 1024 * j + k)) + page_off va = va + of_nat 0 - of_nat 0x80000000"
      using j k pages by (intro page_address) simp_all
    moreover have "boot_mapping va = Some (va - 0x80000000, 0x1b)" using j k page by (simp add: map_def)
    ultimately show ?thesis by simp
  next
    case 3
    have "walk (boot_tables m) 0x40010000 va = Some (of_nat (4096 * (0x10000 + k)) + page_off va, of_nat 19)"
      using 3 dir table_entries(3) [OF k, of m] by (intro hit [of "0x40022"]) simp_all
    moreover have "of_nat (4096 * (0x10000 + k)) + page_off va = va + of_nat 0 - of_nat 0"
      using 3 pages by (intro page_address) simp_all
    moreover have "boot_mapping va = Some (va, 0x13)" using 3 page by (simp add: map_def)
    ultimately show ?thesis by simp
  next
    case 4
    have "page_of (of_nat (4096 * 0x40022 + 1)) = (of_nat (4096 * 0x40022) :: u32)"
      by (rule entry_parts) simp_all
    then have "walk (boot_tables m) 0x40010000 va = None"
      using 4 dir table_entries(3) [OF k, of m] by (simp add: walk_def walk_indices i_def k_def)
    moreover have "boot_mapping va = None" using 4 k page by (simp add: map_def)
    ultimately show ?thesis by simp
  next
    case 5
    then have "walk (boot_tables m) 0x40010000 va = None"
      using dir by (intro walk_miss) (auto simp: i_def [symmetric])
    moreover have "boot_mapping va = None" using 5 k page by (auto simp: map_def)
    ultimately show ?thesis by simp
  qed
qed

section \<open>The properties\<close>

lemma mode_bits:
  "((x AND - 256) OR 0xd3) AND 0x1f = (0x13 :: u32)" "((x AND - 256) OR 0xd2) AND 0x1f = (0x12 :: u32)"
  "((x AND - 256) OR 0xd7) AND 0x1f = (0x17 :: u32)" "((x AND - 256) OR 0xdb) AND 0x1f = (0x1b :: u32)"
  "((x AND - 256) OR c) AND - 256 = (x AND - 256) OR (c AND - 256 :: u32)"
  "((x AND - 256) OR 0xd3) AND 0x9f = (0x93 :: u32)"
  by (simp_all add: bit.conj_disj_distrib2 and.assoc)

lemma fail_stop_ends: "bind minemu_fail_stop f = minemu_fail_stop"
  by (rule ext) (simp add: bind_fail_stop minemu_fail_stop_def)

lemma set_stacks_result:
  "set_stacks K s = (Done (), s\<lparr>cpsr := (cpsr s AND NOT 0xff) OR 0xd3,
     banked_sp := (banked_sp s)(0x13 := svc_top K, 0x12 := irq_top K, 0x17 := abt_top K, 0x1b := und_top K)\<rparr>)"
  by (simp add: set_stacks_def set_mode_def set_sp_def cmd_simps mode_bits)

text \<open>
  C23: the start-up code enters \<^verbatim>\<open>minemu_kernel_main\<close> with the pointer it got from the Boot ROM, in
  supervisor mode with IRQ masked, the stack of each mode set, the root register and then the MMU
  and the vector base set in this order, and page tables that translate every address as
  \<open>boot_mapping\<close> says; no word outside the tables is written. When the kernel returns, it stops.
\<close>

theorem bootstrap_enters_kernel:
  "\<exists>t. minemu_bootstrap low high vectors kernel_main r0 s =
      bind (kernel_main r0) (\<lambda>_. minemu_fail_stop) t
    \<and> (\<forall>va. walk (ram t) 0x40010000 va = boot_mapping va)
    \<and> (\<forall>a. 0x40010000 \<le> a \<and> a < 0x40023000 \<or> ram t a = ram s a)
    \<and> io t = io s @ [IrqDisable, SetTtbr0 0x40010000, TlbInvalidateAll, SetMmuEnabled 1, SetVbar vectors]
    \<and> cpsr t AND 0x9f = 0x93
    \<and> map (banked_sp t) [0x13, 0x12, 0x17, 0x1b] = [svc_top high, irq_top high, abt_top high, und_top high]"
proof -
  have out: "0x40010000 \<le> a \<and> a < 0x40023000 \<or> boot_tables (ram s) a = ram s a" for a
    using tables_outside [of a "ram s"] by (simp add: word_le_nat_alt word_less_nat_alt) linarith
  let ?t = "s\<lparr>ram := boot_tables (ram s),
    io := io s @ [IrqDisable, SetTtbr0 0x40010000, TlbInvalidateAll, SetMmuEnabled 1, SetVbar vectors],
    cpsr := (((cpsr s OR 0xc0) AND NOT 0xff) OR 0xd3) AND NOT 0xff OR 0xd3,
    banked_sp := (banked_sp s)(0x13 := svc_top low, 0x12 := irq_top low, 0x17 := abt_top low,
      0x1b := und_top low, 0x13 := svc_top high, 0x12 := irq_top high, 0x17 := abt_top high,
      0x1b := und_top high)\<rparr>"
  have "minemu_bootstrap low high vectors kernel_main r0 s = bind (kernel_main r0) (\<lambda>_. minemu_fail_stop) ?t"
    by (simp add: minemu_bootstrap_def minemu_bootstrap_high_def cmd_simps set_stacks_result
        bind_def [of "set_stacks K" for K] minemu_mmu_set_ttbr0_def minemu_mmu_tlbiall_def
        minemu_mmu_set_enabled_def minemu_mmu_set_vbar_def bootstrap_map_result fail_stop_ends)
  then show ?thesis using boot_walk [of "ram s"] out by (intro exI [of _ ?t]) (simp add: mode_bits)
qed

end
