(* ===== verification/Conformance.thy ===== *)
theory Conformance
  imports Runtime
begin

text \<open>
  The device-level conformance cases \<^verbatim>\<open>headless/uart\<close>, \<^verbatim>\<open>headless/rng-trace\<close> and
  \<^verbatim>\<open>headless/block-unattached\<close> and the example \<^verbatim>\<open>examples/mmio-basics\<close>: guest programs that read
  and write device registers, check the answers and report on the trace port. The devices stay a
  parameter; what a case decides about them is stated for every device, or for every device that
  keeps a register contract.
\<close>

section \<open>The cases\<close>

text \<open>\<^verbatim>\<open>MINEMU_REQUIRE(reg ... , code)\<close>: a check of one register read.\<close>

definition require_read :: "'d platform \<Rightarrow> u32 \<Rightarrow> (u32 \<Rightarrow> bool) \<Rightarrow> u32 \<Rightarrow> (('d, 'z) machine_scheme, unit) cmd" where
  "require_read P reg condition code =
     bind (MINEMU_MMIO_READ32 P reg) (\<lambda>v. MINEMU_REQUIRE P (condition v) code)"

definition receive :: "'d platform \<Rightarrow> nat \<Rightarrow> (string \<Rightarrow> u32) \<Rightarrow> (('d, 'z) machine_scheme, u32) cmd" where
  "receive P fuel uart =
     bind (poll_while fuel (bind (MINEMU_MMIO_READ32 P (uart ''status'')) (\<lambda>status.
       ret (status AND MINEMU_UART_STATUS_RX_READY = 0)))) (\<lambda>_.
     MINEMU_MMIO_READ32 P (uart ''rx_data''))"

definition uart_kernel_main :: "'d platform \<Rightarrow> nat \<Rightarrow> (('d, 'z) machine_scheme, unit) cmd" where
  "uart_kernel_main P fuel =
     bind (require_read P (MINEMU_UART0 ''status'') (\<lambda>v. v AND MINEMU_UART_STATUS_TX_READY \<noteq> 0) 1) (\<lambda>_.
     bind (require_read P (MINEMU_UART1 ''status'') (\<lambda>v. v AND MINEMU_UART_STATUS_TX_READY \<noteq> 0) 2) (\<lambda>_.
     bind (receive P fuel MINEMU_UART0) (\<lambda>uart0.
     bind (receive P fuel MINEMU_UART1) (\<lambda>uart1.
     bind (MINEMU_REQUIRE P (uart0 = 65) 3) (\<lambda>_.
     bind (MINEMU_REQUIRE P (uart1 = 66) 4) (\<lambda>_.
     bind (require_read P (MINEMU_UART0 ''status'') (\<lambda>v. v AND MINEMU_UART_STATUS_RX_READY = 0) 5) (\<lambda>_.
     bind (require_read P (MINEMU_UART1 ''status'') (\<lambda>v. v AND MINEMU_UART_STATUS_RX_READY = 0) 6) (\<lambda>_.
     bind (MINEMU_MMIO_WRITE32 P (MINEMU_UART0 ''tx_data'') uart0) (\<lambda>_.
     bind (MINEMU_MMIO_WRITE32 P (MINEMU_UART1 ''tx_data'') uart1) (\<lambda>_.
     bind (minemu_trace_event P 0x20010001) (\<lambda>_.
     minemu_fail_stop)))))))))))"

definition rng_kernel_main :: "'d platform \<Rightarrow> (('d, 'z) machine_scheme, unit) cmd" where
  "rng_kernel_main P = block
     [require_read P (MINEMU_RNG ''seed'') (\<lambda>v. v = 0x4d454d55) 1,
      require_read P (MINEMU_RNG ''state'') (\<lambda>v. v = 0x4d454d55) 2,
      require_read P (MINEMU_RNG ''data'') (\<lambda>v. v = 0x791c7b62) 3,
      require_read P (MINEMU_RNG ''data'') (\<lambda>v. v = 0x38784b1a) 4,
      require_read P (MINEMU_RNG ''seed'') (\<lambda>v. v = 0x4d454d55) 5,
      require_read P (MINEMU_RNG ''state'') (\<lambda>v. v = 0x38784b1a) 6,
      MINEMU_MMIO_WRITE32 P (MINEMU_RNG ''seed'') 0,
      require_read P (MINEMU_RNG ''seed'') (\<lambda>v. v = 0x4d454d55) 7,
      require_read P (MINEMU_RNG ''state'') (\<lambda>v. v = 0x4d454d55) 8,
      MINEMU_MMIO_WRITE32 P (MINEMU_RNG ''seed'') 0x12345678,
      require_read P (MINEMU_RNG ''seed'') (\<lambda>v. v = 0x12345678) 9,
      require_read P (MINEMU_RNG ''state'') (\<lambda>v. v = 0x12345678) 10,
      require_read P (MINEMU_RNG ''data'') (\<lambda>v. v = 0x87985aa5) 11,
      require_read P (MINEMU_RNG ''data'') (\<lambda>v. v = 0x155b24a3) 12,
      require_read P (MINEMU_RNG ''seed'') (\<lambda>v. v = 0x12345678) 13,
      require_read P (MINEMU_RNG ''state'') (\<lambda>v. v = 0x155b24a3) 14,
      minemu_trace_event P 0x20020001,
      minemu_trace_event P 0x20020002,
      minemu_trace_event P 0x20020003,
      minemu_fail_stop]"

text \<open>
  \<^verbatim>\<open>deadline.S\<close>: the command, 30 instructions in which only time passes (\<open>elapse\<close>, what they do
  to the devices), and two samples of the status register, as one 64-bit value.
\<close>

definition minemu_block_exact_32 ::
    "'d platform \<Rightarrow> (nat \<Rightarrow> 'd \<Rightarrow> 'd) \<Rightarrow> u32 \<Rightarrow> (('d, 'z) machine_scheme, 64 word) cmd" where
  "minemu_block_exact_32 P elapse operation =
     bind (MINEMU_MMIO_WRITE32 P (MINEMU_BLOCK ''command'') operation) (\<lambda>_.
     bind (modify (\<lambda>s. s\<lparr>dev := elapse 30 (dev s)\<rparr>)) (\<lambda>_.
     bind (MINEMU_MMIO_READ32 P (MINEMU_BLOCK ''status'')) (\<lambda>r0.
     bind (MINEMU_MMIO_READ32 P (MINEMU_BLOCK ''status'')) (\<lambda>r1.
     ret (ucast r0 OR push_bit 32 (ucast r1))))))"

definition low32 :: "64 word \<Rightarrow> u32" where
  "low32 samples = ucast samples"

definition high32 :: "64 word \<Rightarrow> u32" where
  "high32 samples = ucast (drop_bit 32 samples)"

lemma samples_parts:
  "low32 (ucast a OR push_bit 32 (ucast b)) = a" "high32 (ucast a OR push_bit 32 (ucast b)) = b"
  unfolding low32_def high32_def
  by (rule bit_word_eqI; auto simp: bit_simps dest: bit_imp_le_length)+

text \<open>\<open>dma\<close> is the address the linker gives the buffer.\<close>

definition unattached_kernel_main ::
    "'d platform \<Rightarrow> (nat \<Rightarrow> 'd \<Rightarrow> 'd) \<Rightarrow> u32 \<Rightarrow> (('d, 'z) machine_scheme, unit) cmd" where
  "unattached_kernel_main P elapse dma =
     bind (MINEMU_MMIO_WRITE32 P (MINEMU_BLOCK ''unit'') MINEMU_BLOCK_UNIT_SWAP) (\<lambda>_.
     bind (MINEMU_MMIO_WRITE32 P (MINEMU_BLOCK ''lba'') 0) (\<lambda>_.
     bind (MINEMU_MMIO_WRITE32 P (MINEMU_BLOCK ''sector_count'') 1) (\<lambda>_.
     bind (MINEMU_MMIO_WRITE32 P (MINEMU_BLOCK ''dma_paddr'') (minemu_test_paddr dma)) (\<lambda>_.
     bind (minemu_block_exact_32 P elapse MINEMU_BLOCK_COMMAND_READ) (\<lambda>samples.
     bind (MINEMU_REQUIRE P (low32 samples = MINEMU_BLOCK_STATUS_BUSY) 1) (\<lambda>_.
     bind (MINEMU_REQUIRE P (high32 samples AND MINEMU_BLOCK_STATUS_COMPLETE \<noteq> 0) 2) (\<lambda>_.
     bind (require_read P (MINEMU_BLOCK ''error'') (\<lambda>v. v = MINEMU_BLOCK_ERROR_NO_MEDIA) 3) (\<lambda>_.
     bind (MINEMU_MMIO_WRITE32 P (MINEMU_BLOCK ''ack'') MINEMU_BLOCK_ACK) (\<lambda>_.
     bind (minemu_trace_event P 0x20030002) (\<lambda>_.
     minemu_fail_stop))))))))))"

section \<open>The MMIO example\<close>

definition mmio_message :: "u8 list" where
  "mmio_message = [109, 105, 110, 101, 109, 117, 32, 114, 97, 119, 32, 77, 77, 73, 79, 32,
     101, 120, 97, 109, 112, 108, 101, 10, 0]"

definition mmio_kernel_main :: "'d platform \<Rightarrow> (('d, 'z) machine_scheme, unit) cmd" where
  "mmio_kernel_main P =
     bind (for_cmd (\<lambda>index.
       bind (MINEMU_MMIO_WRITE32 P (MINEMU_UART0 ''tx_data'') (ucast (mmio_message ! unat index))) (\<lambda>_.
       ret (None :: unit option))) 0 (of_nat (length mmio_message) - 1)) (\<lambda>_.
     bind (MINEMU_MMIO_WRITE32 P (MINEMU_RNG ''seed'') 0x12345678) (\<lambda>_.
     bind (MINEMU_MMIO_READ32 P (MINEMU_RNG ''data'')) (\<lambda>v.
     bind (MINEMU_MMIO_WRITE32 P (MINEMU_TRACE ''event'') v) (\<lambda>_.
     bind (MINEMU_MMIO_WRITE32 P (MINEMU_SYSTICK ''period'') 100) (\<lambda>_.
     bind (MINEMU_MMIO_WRITE32 P (MINEMU_SYSTICK ''control'') MINEMU_SYSTICK_CONTROL_ENABLE) (\<lambda>_.
     bind (MINEMU_MMIO_WRITE32 P (MINEMU_BLOCK ''control'') MINEMU_BLOCK_CONTROL_IRQ_ENABLE) (\<lambda>_.
     minemu_fail_stop)))))))"

section \<open>One verdict\<close>

text \<open>
  What a case may have traced when it ends: its success values, or one failure code, possibly
  after diagnostic values. A run that is still waiting has traced nothing.
\<close>

definition failure_trace :: "u32 list \<Rightarrow> bool" where
  "failure_trace vs \<longleftrightarrow> vs \<noteq> [] \<and> last vs AND 0xf0000000 = 0xf0000000
     \<and> (\<forall>v \<in> set (butlast vs). v AND 0xf0000000 \<noteq> 0x20000000)"

definition case_verdict :: "u32 list \<Rightarrow> 'a outcome \<Rightarrow> u32 list \<Rightarrow> bool" where
  "case_verdict pass r vs \<longleftrightarrow> (case r of
      FailStop \<Rightarrow> vs = pass \<or> failure_trace vs
    | OutOfFuel \<Rightarrow> vs = []
    | _ \<Rightarrow> False)"

text \<open>A part of a case: it goes on silently, fails with a failure trace, or waits.\<close>

definition checks :: "(('d, 'z) machine_scheme, 'a) cmd \<Rightarrow> bool" where
  "checks c \<longleftrightarrow> (\<forall>s. \<exists>vs. trace_values (io (snd (c s))) = trace_values (io s) @ vs
     \<and> (case fst (c s) of Done x \<Rightarrow> vs = [] | FailStop \<Rightarrow> failure_trace vs | OutOfFuel \<Rightarrow> vs = [] | Fault \<Rightarrow> False))"

definition concluding :: "u32 list \<Rightarrow> (('d, 'z) machine_scheme, 'a) cmd \<Rightarrow> bool" where
  "concluding pass c \<longleftrightarrow> (\<forall>s. \<exists>vs. trace_values (io (snd (c s))) = trace_values (io s) @ vs
     \<and> case_verdict pass (fst (c s)) vs)"

named_theorems verdict_intros \<open>composition of checks and concluding commands\<close>

lemma checks_bind [verdict_intros]:
  assumes "checks c" and "\<And>x. checks (f x)"
  shows "checks (bind c f)"
  unfolding checks_def
proof
  fix s
  obtain r t where c: "c s = (r, t)" by (cases "c s")
  from assms(1) [unfolded checks_def, rule_format, of s] obtain vs where
    vs: "trace_values (io t) = trace_values (io s) @ vs"
      "case r of Done x \<Rightarrow> vs = [] | FailStop \<Rightarrow> failure_trace vs | OutOfFuel \<Rightarrow> vs = [] | Fault \<Rightarrow> False"
    by (auto simp: c)
  show "\<exists>vs. trace_values (io (snd (bind c f s))) = trace_values (io s) @ vs
     \<and> (case fst (bind c f s) of Done x \<Rightarrow> vs = [] | FailStop \<Rightarrow> failure_trace vs
        | OutOfFuel \<Rightarrow> vs = [] | Fault \<Rightarrow> False)"
    using vs assms(2) [unfolded checks_def, rule_format, of _ t]
    by (cases r) (auto simp: bind_def c)
qed

lemma concluding_bind [verdict_intros]:
  assumes "checks c" and "\<And>x. concluding pass (f x)"
  shows "concluding pass (bind c f)"
  unfolding concluding_def
proof
  fix s
  obtain r t where c: "c s = (r, t)" by (cases "c s")
  from assms(1) [unfolded checks_def, rule_format, of s] obtain vs where
    vs: "trace_values (io t) = trace_values (io s) @ vs"
      "case r of Done x \<Rightarrow> vs = [] | FailStop \<Rightarrow> failure_trace vs | OutOfFuel \<Rightarrow> vs = [] | Fault \<Rightarrow> False"
    by (auto simp: c)
  show "\<exists>vs. trace_values (io (snd (bind c f s))) = trace_values (io s) @ vs
     \<and> case_verdict pass (fst (bind c f s)) vs"
    using vs assms(2) [unfolded concluding_def, rule_format, of _ t]
    by (cases r) (auto simp: bind_def c case_verdict_def)
qed

lemma checks_ret [verdict_intros]: "checks (ret x)"
  by (simp add: checks_def ret_def)

lemma checks_read [verdict_intros]: "checks (MINEMU_MMIO_READ32 P a)"
  by (simp add: checks_def MINEMU_MMIO_READ32_def split_def)

lemma checks_write: "a \<noteq> 0x1000f000 \<Longrightarrow> checks (MINEMU_MMIO_WRITE32 P a v)"
  by (simp add: checks_def MINEMU_MMIO_WRITE32_def)

lemma checks_modify [verdict_intros]:
  "(\<And>s. io (f s) = io s) \<Longrightarrow> checks (modify f)"
  by (simp add: checks_def modify_def)

lemma failure_code: "failure_trace [0xf0000000 OR (code AND 0x0fffffff)]"
proof -
  have "(0xf0000000 OR (code AND 0x0fffffff)) AND 0xf0000000 = (0xf0000000 :: u32)"
    by (rule bit_word_eqI) (auto simp: bit_simps)
  then show ?thesis by (simp add: failure_trace_def)
qed

lemma checks_require [verdict_intros]: "checks (MINEMU_REQUIRE P c code)"
  using failure_code [of code]
  by (simp add: checks_def MINEMU_REQUIRE_def minemu_conformance_fail_def cmd_simps bind_trace
      minemu_fail_stop_def)

lemma checks_if [verdict_intros]: "checks c \<Longrightarrow> checks d \<Longrightarrow> checks (if b then c else d)"
  by simp

lemma checks_poll [verdict_intros]:
  assumes "checks c"
  shows "checks (poll_while fuel c)"
proof (induction fuel)
  case 0
  show ?case by (simp add: checks_def)
next
  case (Suc fuel)
  have eq: "poll_while (Suc fuel) c = bind c (\<lambda>b. if b then poll_while fuel c else ret ())"
    by (rule ext) simp
  show ?case unfolding eq by (intro verdict_intros assms Suc)
qed

lemma checks_require_read [verdict_intros]: "checks (require_read P a c code)"
  unfolding require_read_def by (intro verdict_intros)

lemma checks_receive [verdict_intros]: "checks (receive P fuel uart)"
  unfolding receive_def by (intro verdict_intros)

lemma concluding_pass [verdict_intros]:
  "concluding [v] (bind (minemu_trace_event P v) (\<lambda>_. minemu_fail_stop))"
  by (simp add: concluding_def bind_trace minemu_fail_stop_def case_verdict_def)

lemma checks_exact [verdict_intros]: "checks (minemu_block_exact_32 P elapse operation)"
  unfolding minemu_block_exact_32_def by (intro verdict_intros checks_write) (simp_all add: reg_addrs)

lemma concluding_rng: "concluding [0x20020001, 0x20020002, 0x20020003] (rng_kernel_main P)"
proof -
  have last: "concluding [0x20020001, 0x20020002, 0x20020003]
      (bind (minemu_trace_event P 0x20020001) (\<lambda>_. bind (minemu_trace_event P 0x20020002) (\<lambda>_.
       bind (minemu_trace_event P 0x20020003) (\<lambda>_. bind minemu_fail_stop (\<lambda>_. ret ())))))"
    by (simp add: concluding_def bind_trace bind_fail_stop case_verdict_def)
  show ?thesis
    unfolding rng_kernel_main_def block.simps
    by (intro verdict_intros last checks_write) (simp_all add: reg_addrs)
qed

lemma concluding_uart: "concluding [0x20010001] (uart_kernel_main P fuel)"
  unfolding uart_kernel_main_def
  by (intro verdict_intros checks_write) (simp_all add: reg_addrs)

lemma concluding_unattached: "concluding [0x20030002] (unattached_kernel_main P elapse dma)"
  unfolding unattached_kernel_main_def
  by (intro verdict_intros checks_write) (simp_all add: reg_addrs)

section \<open>The random-number generator\<close>

record rng_view =
  rv_seed :: u32
  rv_state :: u32

text \<open>
  The register contract of a generator that steps with \<open>next\<close>: reading the data register steps it
  and returns the new state; writing the seed sets both, 0 standing for the default seed.
\<close>

definition rng_contract :: "'d platform \<Rightarrow> ('d \<Rightarrow> rng_view) \<Rightarrow> (u32 \<Rightarrow> u32) \<Rightarrow> bool" where
  "rng_contract P view next \<longleftrightarrow>
     (\<forall>d. fst (reg_read P 0x10003000 d) = rv_seed (view d) \<and> view (snd (reg_read P 0x10003000 d)) = view d
        \<and> fst (reg_read P 0x10003008 d) = rv_state (view d) \<and> view (snd (reg_read P 0x10003008 d)) = view d
        \<and> fst (reg_read P 0x10003004 d) = next (rv_state (view d))
        \<and> view (snd (reg_read P 0x10003004 d)) = (view d)\<lparr>rv_state := next (rv_state (view d))\<rparr>)
     \<and> (\<forall>d v. view (reg_write P 0x10003000 v d) =
          (let x = if v = 0 then 0x4d454d55 else v in \<lparr> rv_seed = x, rv_state = x \<rparr>))"

text \<open>The verdict the case gives on the generator.\<close>

definition rng_verdict :: "(u32 \<Rightarrow> u32) \<Rightarrow> u32 list" where
  "rng_verdict next =
     (if next 0x4d454d55 \<noteq> 0x791c7b62 then [0xf0000003]
      else if next 0x791c7b62 \<noteq> 0x38784b1a then [0xf0000004]
      else if next 0x12345678 \<noteq> 0x87985aa5 then [0xf000000b]
      else if next 0x87985aa5 \<noteq> 0x155b24a3 then [0xf000000c]
      else [0x20020001, 0x20020002, 0x20020003])"

text \<open>The generator with these values: shifts by 13, 17 and 5 with exclusive or.\<close>

definition xorshift :: "u32 \<Rightarrow> u32" where
  "xorshift x = (let x = x XOR push_bit 13 x; x = x XOR drop_bit 17 x in x XOR push_bit 5 x)"

definition sample_rng :: "rng_view platform" where
  "sample_rng = \<lparr>
     reg_read = (\<lambda>a d. if a = 0x10003000 then (rv_seed d, d) else if a = 0x10003008 then (rv_state d, d)
       else if a = 0x10003004 then (xorshift (rv_state d), d\<lparr>rv_state := xorshift (rv_state d)\<rparr>)
       else (0, d)),
     reg_write = (\<lambda>a v d. if a = 0x10003000
       then (let x = if v = 0 then 0x4d454d55 else v in \<lparr> rv_seed = x, rv_state = x \<rparr>) else d) \<rparr>"

lemma sample_rng_contract: "rng_contract sample_rng (\<lambda>d. d) xorshift"
  by (simp add: rng_contract_def sample_rng_def)

lemma rng_run:
  assumes c: "rng_contract P view next" and r: "view (dev s) = \<lparr> rv_seed = 0x4d454d55, rv_state = 0x4d454d55 \<rparr>"
  shows "\<exists>t. rng_kernel_main P s = (FailStop, t)
    \<and> trace_values (io t) = trace_values (io s) @ rng_verdict next"
proof -
  have rd: "fst (reg_read P 0x10003000 d) = rv_seed (view d)" "view (snd (reg_read P 0x10003000 d)) = view d"
    "fst (reg_read P 0x10003008 d) = rv_state (view d)" "view (snd (reg_read P 0x10003008 d)) = view d"
    "fst (reg_read P 0x10003004 d) = next (rv_state (view d))"
    "view (snd (reg_read P 0x10003004 d)) = (view d)\<lparr>rv_state := next (rv_state (view d))\<rparr>"
    "view (reg_write P 0x10003000 0 d) = \<lparr> rv_seed = 0x4d454d55, rv_state = 0x4d454d55 \<rparr>"
    "view (reg_write P 0x10003000 0x12345678 d) = \<lparr> rv_seed = 0x12345678, rv_state = 0x12345678 \<rparr>" for d
    using c by (simp_all add: rng_contract_def Let_def)
  show ?thesis
    by (simp add: rng_kernel_main_def require_read_def cmd_simps reg_addrs rd r bind_require)
      (auto simp: rng_verdict_def)
qed

section \<open>The UARTs\<close>

text \<open>
  A UART as the case sees it: a byte on its way, with a bound on the status reads until it shows,
  and what was sent. Index \<open>False\<close> is UART 0.
\<close>

record uart_view =
  uv_wait :: nat
  uv_byte :: "u32 option"
  uv_sent :: "u32 list"

definition uart_base :: "bool \<Rightarrow> u32" where
  "uart_base u = (if u then 0x10005000 else 0x10004000)"

text \<open>Time passing: the byte may come closer.\<close>

definition nearer :: "uart_view \<Rightarrow> uart_view \<Rightarrow> bool" where
  "nearer x y \<longleftrightarrow> y = x\<lparr>uv_wait := uv_wait y\<rparr> \<and> uv_wait y \<le> uv_wait x"

definition uart_contract :: "'d platform \<Rightarrow> (bool \<Rightarrow> 'd \<Rightarrow> uart_view) \<Rightarrow> bool" where
  "uart_contract P view \<longleftrightarrow> (\<forall>u d.
     (let (v, d') = reg_read P (uart_base u + 8) d in
        v AND 2 \<noteq> 0 \<and> (v AND 1 \<noteq> 0 \<longleftrightarrow> uv_byte (view u d) \<noteq> None \<and> uv_wait (view u d) = 0)
        \<and> nearer (view u d) (view u d') \<and> nearer (view (\<not> u) d) (view (\<not> u) d')
        \<and> (0 < uv_wait (view u d) \<longrightarrow> uv_wait (view u d') < uv_wait (view u d)))
     \<and> (\<forall>b. uv_byte (view u d) = Some b \<and> uv_wait (view u d) = 0 \<longrightarrow>
        (let (v, d') = reg_read P (uart_base u) d in
           v = b \<and> view u d' = (view u d)\<lparr>uv_byte := None\<rparr> \<and> nearer (view (\<not> u) d) (view (\<not> u) d')))
     \<and> (\<forall>v. uv_sent (view u (reg_write P (uart_base u + 4) v d)) = uv_sent (view u d) @ [v]
        \<and> uv_sent (view (\<not> u) (reg_write P (uart_base u + 4) v d)) = uv_sent (view (\<not> u) d)
        \<and> uv_sent (view u (reg_write P 0x1000f000 v d)) = uv_sent (view u d)))"

lemma nearer_trans: "nearer x y \<Longrightarrow> nearer y z \<Longrightarrow> nearer x z"
  by (cases x; cases y; cases z) (auto simp: nearer_def)

lemma nearer_fields: "nearer x y \<Longrightarrow> uv_byte y = uv_byte x \<and> uv_sent y = uv_sent x \<and> uv_wait y \<le> uv_wait x"
  by (cases x; cases y) (auto simp: nearer_def)

definition uart_regs :: "bool \<Rightarrow> string \<Rightarrow> u32" where
  "uart_regs u = (if u then MINEMU_UART1 else MINEMU_UART0)"

lemma uart_reg_addrs:
  "uart_regs u ''status'' = uart_base u + 8" "uart_regs u ''rx_data'' = uart_base u"
  "uart_base u \<noteq> 0x1000f000" "uart_base u + 8 \<noteq> 0x1000f000"
  by (simp_all add: uart_regs_def uart_base_def reg_addrs)

lemma uart_status_read:
  assumes "uart_contract P view"
  shows "fst (reg_read P (uart_base u + 8) d) AND 2 \<noteq> 0"
    and "fst (reg_read P (uart_base u + 8) d) AND 1 \<noteq> 0 \<longleftrightarrow>
      uv_byte (view u d) \<noteq> None \<and> uv_wait (view u d) = 0"
    and "nearer (view w d) (view w (snd (reg_read P (uart_base u + 8) d)))"
    and "0 < uv_wait (view u d) \<Longrightarrow> uv_wait (view u (snd (reg_read P (uart_base u + 8) d))) < uv_wait (view u d)"
  using assms unfolding uart_contract_def Let_def split_def by (cases "w = u"; simp)+

lemma uart_data_read:
  assumes "uart_contract P view" and "uv_byte (view u d) = Some b" and "uv_wait (view u d) = 0"
  shows "fst (reg_read P (uart_base u) d) = b"
    and "view u (snd (reg_read P (uart_base u) d)) = (view u d)\<lparr>uv_byte := None\<rparr>"
    and "nearer (view (\<not> u) d) (view (\<not> u) (snd (reg_read P (uart_base u) d)))"
  using assms unfolding uart_contract_def Let_def split_def by simp_all

lemma uart_sent_write:
  assumes "uart_contract P view"
  shows "uv_sent (view w (reg_write P (uart_base u + 4) v d)) = uv_sent (view w d) @ (if w = u then [v] else [])"
    and "uv_sent (view w (reg_write P 0x1000f000 v d)) = uv_sent (view w d)"
  using assms unfolding uart_contract_def by (cases "w = u"; simp)+

lemma receive_byte:
  assumes c: "uart_contract P view" and b: "uv_byte (view u (dev s)) = Some b"
    and fuel: "uv_wait (view u (dev s)) < fuel"
  shows "\<exists>t. receive P fuel (uart_regs u) s = (Done b, t)
    \<and> trace_values (io t) = trace_values (io s)
    \<and> uv_byte (view u (dev t)) = None \<and> uv_sent (view u (dev t)) = uv_sent (view u (dev s))
    \<and> nearer (view (\<not> u) (dev s)) (view (\<not> u) (dev t))"
  using b fuel
proof (induction fuel arbitrary: s)
  case 0
  then show ?case by simp
next
  case (Suc fuel)
  define r where "r = reg_read P (uart_base u + 8) (dev s)"
  define s1 where "s1 = s\<lparr>dev := snd r, io := io s @ [RegRead (uart_base u + 8) (fst r)]\<rparr>"
  note st = uart_status_read [OF c, of u "dev s", folded r_def]
  note near = uart_status_read(3) [OF c, of _ "dev s" u, folded r_def]
  have run: "receive P (Suc fuel) (uart_regs u) s =
      (if fst r AND 1 = 0 then receive P fuel (uart_regs u) s1
       else MINEMU_MMIO_READ32 P (uart_base u) s1)"
    by (simp add: receive_def cmd_simps uart_reg_addrs r_def [symmetric] s1_def [symmetric]
        bind_def [of "poll_while f b" for f b])
  have b1: "uv_byte (view u (dev s1)) = Some b"
    using nearer_fields [OF near [of u]] Suc.prems(1) by (simp add: s1_def)
  show ?case
  proof (cases "uv_wait (view u (dev s)) = 0")
    case True
    then have ready: "fst r AND 1 \<noteq> 0" using st(2) Suc.prems(1) by simp
    have w1: "uv_wait (view u (dev s1)) = 0" using nearer_fields [OF near [of u]] True by (simp add: s1_def)
    note d = uart_data_read [OF c b1 w1]
    show ?thesis
      using run ready d nearer_fields [OF near [of u]] nearer_trans [OF near [of "\<not> u"]] uart_reg_addrs(3,4)
      by (simp add: MINEMU_MMIO_READ32_def split_def s1_def)
  next
    case False
    then have "fst r AND 1 = 0" using st(2) by simp
    moreover have "uv_wait (view u (dev s1)) < fuel"
      using st(4) False Suc.prems(2) by (simp add: s1_def)
    ultimately show ?thesis
      using run Suc.IH [OF b1] nearer_fields [OF near [of u]] nearer_trans [OF near [of "\<not> u"]]
      by (auto simp: s1_def)
  qed
qed

text \<open>A status check that the device passes.\<close>

lemma require_status:
  assumes "c (fst (reg_read P (uart_base u + 8) (dev s)))"
  shows "require_read P (uart_regs u ''status'') c code s =
    (Done (), s\<lparr>dev := snd (reg_read P (uart_base u + 8) (dev s)),
       io := io s @ [RegRead (uart_base u + 8) (fst (reg_read P (uart_base u + 8) (dev s)))]\<rparr>)"
  using assms by (simp add: require_read_def cmd_simps uart_reg_addrs MINEMU_REQUIRE_def)

lemma uart_regs_eq: "MINEMU_UART0 = uart_regs False" "MINEMU_UART1 = uart_regs True"
  by (simp_all add: uart_regs_def)

lemma uart_run:
  fixes s :: "('d, 'z) machine_scheme"
  assumes c: "uart_contract P view"
    and b0: "uv_byte (view False (dev s)) = Some a" and b1: "uv_byte (view True (dev s)) = Some b"
    and w0: "uv_wait (view False (dev s)) < fuel" and w1: "uv_wait (view True (dev s)) < fuel"
  shows "\<exists>t. uart_kernel_main P fuel s = (FailStop, t)
    \<and> trace_values (io t) = trace_values (io s) @
        [if a \<noteq> 65 then 0xf0000003 else if b \<noteq> 66 then 0xf0000004 else 0x20010001]
    \<and> (a = 65 \<and> b = 66 \<longrightarrow> uv_sent (view False (dev t)) = uv_sent (view False (dev s)) @ [65]
         \<and> uv_sent (view True (dev t)) = uv_sent (view True (dev s)) @ [66])"
proof -
  let ?st = "\<lambda>u (s :: ('d, 'z) machine_scheme). s\<lparr>dev := snd (reg_read P (uart_base u + 8) (dev s)),
       io := io s @ [RegRead (uart_base u + 8) (fst (reg_read P (uart_base u + 8) (dev s)))]\<rparr>"
  note near = uart_status_read(3) [OF c]
  define s1 where "s1 = ?st False s"
  define s2 where "s2 = ?st True s1"
  have tr2: "trace_values (io s2) = trace_values (io s)" by (simp add: s1_def s2_def)
  have step: "nearer (view u (dev t)) (view u (dev (?st w t)))" for u w and t :: "('d, 'z) machine_scheme"
    using near by simp
  have n2: "nearer (view u (dev s)) (view u (dev s2))" for u
    unfolding s2_def s1_def by (rule nearer_trans [OF step step])
  have r1: "require_read P (uart_regs False ''status'') (\<lambda>v. v AND 2 \<noteq> 0) 1 s = (Done (), s1)"
    and r2: "require_read P (uart_regs True ''status'') (\<lambda>v. v AND 2 \<noteq> 0) 2 s1 = (Done (), s2)"
    unfolding s1_def s2_def using uart_status_read(1) [OF c] by (intro require_status; blast)+
  have "uv_byte (view False (dev s2)) = Some a" "uv_wait (view False (dev s2)) < fuel"
    using nearer_fields [OF n2 [of False]] b0 w0 by auto
  from receive_byte [OF c this] obtain s3 where s3: "receive P fuel (uart_regs False) s2 = (Done a, s3)"
    "trace_values (io s3) = trace_values (io s2)" "uv_byte (view False (dev s3)) = None"
    "uv_sent (view False (dev s3)) = uv_sent (view False (dev s2))"
    "nearer (view True (dev s2)) (view True (dev s3))" by auto
  note n3 = nearer_fields [OF nearer_trans [OF n2 [of True] s3(5)]]
  have "uv_byte (view True (dev s3)) = Some b" "uv_wait (view True (dev s3)) < fuel"
    using n3 b1 w1 by auto
  from receive_byte [OF c this] obtain s4 where s4: "receive P fuel (uart_regs True) s3 = (Done b, s4)"
    "trace_values (io s4) = trace_values (io s3)" "uv_byte (view True (dev s4)) = None"
    "uv_sent (view True (dev s4)) = uv_sent (view True (dev s3))"
    "nearer (view False (dev s3)) (view False (dev s4))" by auto
  define s5 where "s5 = ?st False s4"
  define s6 where "s6 = ?st True s5"
  note n4 = nearer_fields [OF s4(5)]
  have "uv_byte (view False (dev s4)) = None" using n4 s3(3) by simp
  then have r5: "require_read P (uart_regs False ''status'') (\<lambda>v. v AND 1 = 0) 5 s4 = (Done (), s5)"
    unfolding s5_def using uart_status_read(2) [OF c, of False "dev s4"] by (intro require_status) auto
  have "uv_byte (view True (dev s5)) = None"
    using nearer_fields [OF step [of True s4 False]] s4(3) unfolding s5_def by simp
  then have r6: "require_read P (uart_regs True ''status'') (\<lambda>v. v AND 1 = 0) 6 s5 = (Done (), s6)"
    unfolding s6_def using uart_status_read(2) [OF c, of True "dev s5"] by (intro require_status) auto
  have sent: "uv_sent (view u (dev s6)) = uv_sent (view u (dev s4))" for u
    using nearer_fields [OF nearer_trans [OF step [of u s4 False] step [of u s5 True, unfolded s5_def]]]
    unfolding s6_def s5_def by simp
  have sent': "uv_sent (view False (dev s6)) = uv_sent (view False (dev s))"
    "uv_sent (view True (dev s6)) = uv_sent (view True (dev s))"
    using sent n4 s3(4) s4(4) n3 nearer_fields [OF n2 [of False]] by simp_all
  have tr6: "trace_values (io s6) = trace_values (io s)" "trace_values (io s4) = trace_values (io s)"
    using tr2 s3(2) s4(2) by (simp_all add: s5_def s6_def)
  have up: "uart_kernel_main P fuel s =
     bind (MINEMU_REQUIRE P (a = 65) 3) (\<lambda>_.
     bind (MINEMU_REQUIRE P (b = 66) 4) (\<lambda>_.
     bind (require_read P (uart_regs False ''status'') (\<lambda>v. v AND 1 = 0) 5) (\<lambda>_.
     bind (require_read P (uart_regs True ''status'') (\<lambda>v. v AND 1 = 0) 6) (\<lambda>_.
     bind (MINEMU_MMIO_WRITE32 P (uart_regs False ''tx_data'') a) (\<lambda>_.
     bind (MINEMU_MMIO_WRITE32 P (uart_regs True ''tx_data'') b) (\<lambda>_.
     bind (minemu_trace_event P 0x20010001) (\<lambda>_. minemu_fail_stop))))))) s4"
    unfolding uart_kernel_main_def uart_regs_eq
    by (simp add: bind_def [of "receive P fuel u" for u] bind_def [of "require_read P (uart_regs u r) c 1" for u r c]
        bind_def [of "require_read P (uart_regs u r) c 2" for u r c] r1 r2 s3(1) s4(1))
  have tx: "uart_regs u ''tx_data'' = uart_base u + 4" for u
    by (simp add: uart_regs_def uart_base_def reg_addrs)
  have ntx: "uart_base u + 4 \<noteq> 0x1000f000" for u by (simp add: uart_base_def)
  show ?thesis
    unfolding up
    by (simp add: bind_require bind_def [of "require_read P (uart_regs u r) c 5" for u r c]
        bind_def [of "require_read P (uart_regs u r) c 6" for u r c] r5 r6 tx ntx bind_write bind_trace
        minemu_fail_stop_def tr6 uart_sent_write [OF c] sent')
qed

section \<open>The properties\<close>

text \<open>A loop that writes one value after the other to a register.\<close>

lemma write_loop:
  fixes s :: "('d, 'z) machine_scheme"
  shows "for_cmd (\<lambda>i. bind (MINEMU_MMIO_WRITE32 P a (f i)) (\<lambda>_. ret (None :: unit option))) 0 n s =
    (Done None, s\<lparr>dev := fold (\<lambda>j. reg_write P a (f (of_nat j))) [0..<unat n] (dev s),
       io := io s @ map (\<lambda>j. RegWrite a (f (of_nat j))) [0..<unat n]\<rparr>)"
proof -
  let ?I = "\<lambda>(k :: u32) t. t = s\<lparr>dev := fold (\<lambda>j. reg_write P a (f (of_nat j))) [0..<unat k] (dev s),
       io := io s @ map (\<lambda>j. RegWrite a (f (of_nat j))) [0..<unat k]\<rparr>"
  have "\<exists>t. for_cmd (\<lambda>i. bind (MINEMU_MMIO_WRITE32 P a (f i)) (\<lambda>_. ret (None :: unit option))) 0 n s =
      (Done None, t) \<and> ?I n t"
    by (rule for_cmd_total [where I = ?I]) (auto simp: bind_write ret_def unat_Suc_u32)
  then show ?thesis by blast
qed

lemma message_chars:
  "map (\<lambda>j. RegWrite a (ucast (mmio_message ! unat (of_nat j :: u32)))) [0..<24] =
   map (\<lambda>c. RegWrite a (of_char c)) (''minemu raw MMIO example'' @ [CHR 0x0A])"
proof -
  have "map (\<lambda>j. unat (of_nat j :: u32)) [0..<24] = [0..<24]"
    by (rule map_idI) (subst unat_of_nat, simp)
  then have "map (\<lambda>j. RegWrite a (ucast (mmio_message ! unat (of_nat j :: u32)))) [0..<24] =
      map (\<lambda>j. RegWrite a (ucast (mmio_message ! j))) [0..<24]"
    by (metis (no_types, lifting) map_map comp_def map_eq_conv)
  also have "\<dots> = map (\<lambda>c. RegWrite a (of_char c)) (''minemu raw MMIO example'' @ [CHR 0x0A])"
  proof -
    have "map (\<lambda>j. ucast (mmio_message ! j) :: u32) [0..<24] =
        map of_char (''minemu raw MMIO example'' @ [CHR 0x0A])" by code_simp
    then have "map (RegWrite a) (map (\<lambda>j. ucast (mmio_message ! j)) [0..<24]) =
        map (RegWrite a) (map of_char (''minemu raw MMIO example'' @ [CHR 0x0A]))" by (rule arg_cong)
    then show ?thesis by (simp only: map_map comp_def)
  qed
  finally show ?thesis .
qed

text \<open>
  The MMIO example writes its message to UART 0 character by character, seeds the generator,
  traces the value the data register then answers, and programs the timer and the block device, in
  this order and with no other access, and stops.
\<close>

theorem mmio_main_log:
  "\<exists>t v. mmio_kernel_main P s = (FailStop, t) \<and> io t = io s
     @ map (\<lambda>c. RegWrite 0x10004004 (of_char c)) (''minemu raw MMIO example'' @ [CHR 0x0A])
     @ [RegWrite 0x10003000 0x12345678, RegRead 0x10003004 v, RegWrite 0x1000f000 v,
        RegWrite 0x10001000 100, RegWrite 0x10001004 1, RegWrite 0x1000201c 1]"
proof -
  have len: "(of_nat (length mmio_message) - 1 :: u32) = 24" by (simp add: mmio_message_def)
  show ?thesis
    by (simp add: mmio_kernel_main_def len bind_def [of "for_cmd b i n" for b i n] write_loop cmd_simps
        reg_addrs message_chars minemu_fail_stop_def del: upt_Suc)
qed

text \<open>
  On every generator that keeps the register contract the RNG case gives the verdict on its step
  function: it succeeds exactly when the four values it checks are those of the step function, and
  otherwise reports the first one that is not.
\<close>

theorem rng_case_decides:
  assumes "rng_contract P view next"
    and "view (dev s) = \<lparr> rv_seed = 0x4d454d55, rv_state = 0x4d454d55 \<rparr>"
  shows "\<exists>t. rng_kernel_main P s = (FailStop, t)
    \<and> trace_values (io t) = trace_values (io s) @ rng_verdict next"
  using rng_run [OF assms] .

theorem rng_case_decides_witness:
  "\<exists>t. rng_kernel_main sample_rng \<lparr> dev = \<lparr> rv_seed = 0x4d454d55, rv_state = 0x4d454d55 \<rparr>, cpsr = 0, io = [] \<rparr>
      = (FailStop, t) \<and> trace_values (io t) = [0x20020001, 0x20020002, 0x20020003]"
proof -
  have "rng_verdict xorshift = [0x20020001, 0x20020002, 0x20020003]" by code_simp
  with rng_case_decides [OF sample_rng_contract,
      of "\<lparr> dev = \<lparr> rv_seed = 0x4d454d55, rv_state = 0x4d454d55 \<rparr>, cpsr = 0, io = [] \<rparr>"]
  show ?thesis by simp
qed

text \<open>
  With a byte on its way to each UART, the UART case receives both however long they take within
  the fuel, and reports success exactly for \<^verbatim>\<open>A\<close> and \<^verbatim>\<open>B\<close>; then, and only then, it has sent each
  byte back on its own UART.
\<close>

theorem uart_case_decides:
  fixes s :: "('d, 'z) machine_scheme"
  assumes "uart_contract P view"
    and "uv_byte (view False (dev s)) = Some a" and "uv_byte (view True (dev s)) = Some b"
    and "uv_wait (view False (dev s)) < fuel" and "uv_wait (view True (dev s)) < fuel"
  shows "\<exists>t. uart_kernel_main P fuel s = (FailStop, t)
    \<and> trace_values (io t) = trace_values (io s) @
        [if a \<noteq> 65 then 0xf0000003 else if b \<noteq> 66 then 0xf0000004 else 0x20010001]
    \<and> (a = 65 \<and> b = 66 \<longrightarrow> uv_sent (view False (dev t)) = uv_sent (view False (dev s)) @ [65]
         \<and> uv_sent (view True (dev t)) = uv_sent (view True (dev s)) @ [66])"
  using uart_run [OF assms] .

text \<open>Two UARTs whose bytes show after a number of status reads.\<close>

definition poll_uart :: "uart_view \<Rightarrow> u32 \<times> uart_view" where
  "poll_uart x = (if uv_byte x \<noteq> None \<and> uv_wait x = 0 then 3 else 2, x\<lparr>uv_wait := uv_wait x - 1\<rparr>)"

definition sample_uarts :: "(uart_view \<times> uart_view) platform" where
  "sample_uarts = \<lparr>
     reg_read = (\<lambda>a (x, y).
       if a = 0x10004008 then (fst (poll_uart x), snd (poll_uart x), y)
       else if a = 0x10005008 then (fst (poll_uart y), x, snd (poll_uart y))
       else if a = 0x10004000 then (case uv_byte x of Some b \<Rightarrow> b | None \<Rightarrow> 0, x\<lparr>uv_byte := None\<rparr>, y)
       else if a = 0x10005000 then (case uv_byte y of Some b \<Rightarrow> b | None \<Rightarrow> 0, x, y\<lparr>uv_byte := None\<rparr>)
       else (0, x, y)),
     reg_write = (\<lambda>a v (x, y).
       if a = 0x10004004 then (x\<lparr>uv_sent := uv_sent x @ [v]\<rparr>, y)
       else if a = 0x10005004 then (x, y\<lparr>uv_sent := uv_sent y @ [v]\<rparr>) else (x, y)) \<rparr>"

lemma sample_uart_contract: "uart_contract sample_uarts (\<lambda>u d. if u then snd d else fst d)"
  unfolding uart_contract_def
  by (auto simp: sample_uarts_def uart_base_def nearer_def poll_uart_def split_def Let_def
      split: bool.splits)

theorem uart_case_decides_witness:
  "\<exists>t. uart_kernel_main sample_uarts 10 \<lparr> dev = (\<lparr> uv_wait = 3, uv_byte = Some 65, uv_sent = [] \<rparr>,
      \<lparr> uv_wait = 5, uv_byte = Some 66, uv_sent = [] \<rparr>), cpsr = 0, io = [] \<rparr> = (FailStop, t)
    \<and> trace_values (io t) = [0x20010001] \<and> uv_sent (fst (dev t)) = [65] \<and> uv_sent (snd (dev t)) = [66]"
  using uart_case_decides [OF sample_uart_contract, of "\<lparr> dev = (\<lparr> uv_wait = 3, uv_byte = Some 65,
      uv_sent = [] \<rparr>, \<lparr> uv_wait = 5, uv_byte = Some 66, uv_sent = [] \<rparr>), cpsr = 0, io = [] \<rparr>" 65 66 10]
  by simp

end
