(* ===== verification/BlockCase.thy ===== *)
theory BlockCase
  imports Block Conformance
begin

text \<open>
  The block-device conformance case (\<^verbatim>\<open>headless/block/main.c\<close>): it drives the controller directly
  and through the driver of \<open>Block\<close>, on two units, over every error code, a command while busy, and
  the interrupt line. The buffer the controller transfers to and from is part of the device side.
\<close>

section \<open>The case\<close>

text \<open>How the processor reads and writes byte \<open>i\<close> of the DMA buffer.\<close>

record 'd buffer_access =
  dma_get :: "nat \<Rightarrow> 'd \<Rightarrow> u8"
  dma_put :: "nat \<Rightarrow> u8 \<Rightarrow> 'd \<Rightarrow> 'd"

definition wait_complete :: "'d platform \<Rightarrow> nat \<Rightarrow> u32 \<Rightarrow> (('d, 'z) machine_scheme, unit) cmd" where
  "wait_complete P fuel expected_error =
     bind (poll_while fuel (poll_complete P)) (\<lambda>_.
     bind (MINEMU_MMIO_READ32 P (MINEMU_BLOCK ''error'')) (\<lambda>error.
     bind (only_if (error \<noteq> expected_error)
       (bind (MINEMU_MMIO_READ32 P (MINEMU_BLOCK ''error'')) (\<lambda>error.
        bind (minemu_trace_event P (0xe0030000 OR push_bit 8 expected_error OR error)) (\<lambda>_.
        minemu_conformance_fail P (10 + expected_error))))) (\<lambda>_.
     bind (require_read P (MINEMU_BLOCK ''status'')
       (\<lambda>v. (v AND MINEMU_BLOCK_STATUS_ERROR \<noteq> 0) = (expected_error \<noteq> MINEMU_BLOCK_ERROR_NONE))
       (20 + expected_error)) (\<lambda>_.
     MINEMU_MMIO_WRITE32 P (MINEMU_BLOCK ''ack'') MINEMU_BLOCK_ACK))))"

definition case_command :: "'d platform \<Rightarrow> u32 \<Rightarrow> u32 \<Rightarrow> u32 \<Rightarrow> u32 \<Rightarrow> u32 \<Rightarrow> (('d, 'z) machine_scheme, unit) cmd" where
  "case_command P unit operation lba sectors address = block
     [MINEMU_MMIO_WRITE32 P (MINEMU_BLOCK ''unit'') unit,
      MINEMU_MMIO_WRITE32 P (MINEMU_BLOCK ''lba'') lba,
      MINEMU_MMIO_WRITE32 P (MINEMU_BLOCK ''sector_count'') sectors,
      MINEMU_MMIO_WRITE32 P (MINEMU_BLOCK ''dma_paddr'') address,
      MINEMU_MMIO_WRITE32 P (MINEMU_BLOCK ''command'') operation]"

definition exact_command :: "'d platform \<Rightarrow> (nat \<Rightarrow> 'd \<Rightarrow> 'd) \<Rightarrow> nat
    \<Rightarrow> u32 \<Rightarrow> u32 \<Rightarrow> u32 \<Rightarrow> u32 \<Rightarrow> u32 \<Rightarrow> u32 \<Rightarrow> (('d, 'z) machine_scheme, unit) cmd" where
  "exact_command P elapse fuel unit operation lba sectors address expected_error =
     bind (MINEMU_MMIO_WRITE32 P (MINEMU_BLOCK ''unit'') unit) (\<lambda>_.
     bind (MINEMU_MMIO_WRITE32 P (MINEMU_BLOCK ''lba'') lba) (\<lambda>_.
     bind (MINEMU_MMIO_WRITE32 P (MINEMU_BLOCK ''sector_count'') sectors) (\<lambda>_.
     bind (MINEMU_MMIO_WRITE32 P (MINEMU_BLOCK ''dma_paddr'') address) (\<lambda>_.
     bind (minemu_block_exact_32 P elapse operation) (\<lambda>samples.
     bind (MINEMU_REQUIRE P (low32 samples = MINEMU_BLOCK_STATUS_BUSY) 6) (\<lambda>_.
     bind (MINEMU_REQUIRE P (high32 samples AND MINEMU_BLOCK_STATUS_BUSY = 0
         \<and> high32 samples AND MINEMU_BLOCK_STATUS_COMPLETE \<noteq> 0) 7) (\<lambda>_.
     wait_complete P fuel expected_error)))))))"

text \<open>The loops over the 512 bytes of the buffer: check, set, and check-and-set.\<close>

definition buffer_check :: "'d platform \<Rightarrow> 'd buffer_access \<Rightarrow> u8 \<Rightarrow> u32
    \<Rightarrow> u32 \<Rightarrow> (('d, 'z) machine_scheme, unit option) cmd" where
  "buffer_check P B expected code i =
     bind (gets (\<lambda>s. dma_get B (unat i) (dev s))) (\<lambda>v.
     bind (MINEMU_REQUIRE P (v = expected) code) (\<lambda>_. ret None))"

definition buffer_set :: "'d buffer_access \<Rightarrow> u8 \<Rightarrow> u32 \<Rightarrow> (('d, 'z) machine_scheme, unit option) cmd" where
  "buffer_set B v i = bind (modify (\<lambda>s. s\<lparr>dev := dma_put B (unat i) v (dev s)\<rparr>)) (\<lambda>_. ret None)"

definition over_buffer :: "(u32 \<Rightarrow> ('s, unit option) cmd) \<Rightarrow> ('s, unit) cmd" where
  "over_buffer body = bind (for_cmd body 0 512) (\<lambda>_. ret ())"

definition irq_round :: "'d platform \<Rightarrow> nat \<Rightarrow> u32 \<Rightarrow> u32 \<Rightarrow> (('d, 'z) machine_scheme, unit option) cmd" where
  "irq_round P fuel dma_paddr unit =
     bind (case_command P unit MINEMU_BLOCK_COMMAND_READ 0 1 dma_paddr) (\<lambda>_.
     bind (poll_while fuel (poll_complete P)) (\<lambda>_.
     bind (require_read P (MINEMU_INTERRUPT ''pending'')
       (\<lambda>v. v AND push_bit (unat MINEMU_IRQ_BLOCK) 1 \<noteq> 0) (30 + unit * 3)) (\<lambda>_.
     bind (require_read P (MINEMU_INTERRUPT ''claim'') (\<lambda>v. v = MINEMU_IRQ_BLOCK) (31 + unit * 3)) (\<lambda>_.
     bind (MINEMU_MMIO_WRITE32 P (MINEMU_BLOCK ''ack'') MINEMU_BLOCK_ACK) (\<lambda>_.
     bind (MINEMU_MMIO_WRITE32 P (MINEMU_INTERRUPT ''eoi'') MINEMU_IRQ_BLOCK) (\<lambda>_.
     bind (require_read P (MINEMU_INTERRUPT ''pending'')
       (\<lambda>v. v AND push_bit (unat MINEMU_IRQ_BLOCK) 1 = 0) (32 + unit * 3)) (\<lambda>_.
     ret None)))))))"

definition require_result :: "'d platform \<Rightarrow> (('d, 'z) machine_scheme, u32) cmd \<Rightarrow> u32 \<Rightarrow> u32
    \<Rightarrow> (('d, 'z) machine_scheme, unit) cmd" where
  "require_result P c expected code = bind c (\<lambda>v. MINEMU_REQUIRE P (v = expected) code)"

text \<open>The parts of \<^verbatim>\<open>minemu_kernel_main\<close>, in the order of the source.\<close>

definition case_media :: "'d platform \<Rightarrow> (nat \<Rightarrow> 'd \<Rightarrow> 'd) \<Rightarrow> nat \<Rightarrow> 'd buffer_access \<Rightarrow> u32
    \<Rightarrow> (('d, 'z) machine_scheme, unit) cmd" where
  "case_media P elapse fuel B dma_paddr = block
     [require_read P (MINEMU_BLOCK ''unit'') (\<lambda>v. v = 0) 1,
      exact_command P elapse fuel 0 MINEMU_BLOCK_COMMAND_READ 0 1 dma_paddr MINEMU_BLOCK_ERROR_NONE,
      over_buffer (\<lambda>i. bind (buffer_check P B 0 2 i) (\<lambda>_. buffer_set B 0xa5 i)),
      exact_command P elapse fuel 0 MINEMU_BLOCK_COMMAND_WRITE 1 1 dma_paddr MINEMU_BLOCK_ERROR_NONE,
      over_buffer (buffer_set B 0x5a),
      exact_command P elapse fuel 1 MINEMU_BLOCK_COMMAND_WRITE 1 1 dma_paddr MINEMU_BLOCK_ERROR_NONE,
      over_buffer (buffer_set B 0),
      exact_command P elapse fuel 0 MINEMU_BLOCK_COMMAND_READ 1 1 dma_paddr MINEMU_BLOCK_ERROR_NONE,
      over_buffer (buffer_check P B 0xa5 4),
      exact_command P elapse fuel 1 MINEMU_BLOCK_COMMAND_READ 1 1 dma_paddr MINEMU_BLOCK_ERROR_NONE,
      over_buffer (buffer_check P B 0x5a 8)]"

definition case_errors :: "'d platform \<Rightarrow> (nat \<Rightarrow> 'd \<Rightarrow> 'd) \<Rightarrow> nat \<Rightarrow> u32
    \<Rightarrow> (('d, 'z) machine_scheme, unit) cmd" where
  "case_errors P elapse fuel dma_paddr = block
     [exact_command P elapse fuel 0 99 0 1 dma_paddr 3,
      exact_command P elapse fuel 0 MINEMU_BLOCK_COMMAND_READ 0 1 (dma_paddr + 1) 4,
      exact_command P elapse fuel 0 MINEMU_BLOCK_COMMAND_READ 2 1 dma_paddr 5,
      exact_command P elapse fuel 2 MINEMU_BLOCK_COMMAND_READ 0 1 dma_paddr 7]"

definition case_busy :: "'d platform \<Rightarrow> nat \<Rightarrow> 'd buffer_access \<Rightarrow> u32
    \<Rightarrow> (('d, 'z) machine_scheme, unit) cmd" where
  "case_busy P fuel B dma_paddr = block
     [over_buffer (buffer_set B 0),
      case_command P 0 MINEMU_BLOCK_COMMAND_READ 1 1 dma_paddr,
      MINEMU_MMIO_WRITE32 P (MINEMU_BLOCK ''unit'') MINEMU_BLOCK_UNIT_SWAP,
      MINEMU_MMIO_WRITE32 P (MINEMU_BLOCK ''command'') MINEMU_BLOCK_COMMAND_READ,
      require_read P (MINEMU_BLOCK ''error'') (\<lambda>v. v = 2) 5,
      MINEMU_MMIO_WRITE32 P (MINEMU_BLOCK ''ack'') MINEMU_BLOCK_ACK,
      wait_complete P fuel MINEMU_BLOCK_ERROR_NONE,
      require_read P (MINEMU_BLOCK ''unit'') (\<lambda>v. v = MINEMU_BLOCK_UNIT_SWAP) 9,
      over_buffer (buffer_check P B 0xa5 11)]"

definition case_interrupts :: "'d platform \<Rightarrow> nat \<Rightarrow> u32 \<Rightarrow> (('d, 'z) machine_scheme, unit) cmd" where
  "case_interrupts P fuel dma_paddr = block
     [MINEMU_MMIO_WRITE32 P (MINEMU_INTERRUPT ''enable'') (push_bit (unat MINEMU_IRQ_BLOCK) 1),
      MINEMU_MMIO_WRITE32 P (MINEMU_BLOCK ''control'') MINEMU_BLOCK_CONTROL_IRQ_ENABLE,
      bind (for_cmd (irq_round P fuel dma_paddr) 0 (MINEMU_BLOCK_UNIT_SWAP + 1)) (\<lambda>_. ret ())]"

definition case_driver :: "'d platform \<Rightarrow> nat \<Rightarrow> 'd buffer_access \<Rightarrow> u32
    \<Rightarrow> (('d, 'z) machine_scheme, unit) cmd" where
  "case_driver P fuel B dma_paddr = block
     [over_buffer (buffer_set B 0x3c),
      require_result P (minemu_block_write P fuel MINEMU_BLOCK_UNIT_SWAP 0 1 dma_paddr) 0 40,
      over_buffer (buffer_set B 0),
      require_result P (minemu_block_read P fuel MINEMU_BLOCK_UNIT_SWAP 0 1 dma_paddr) 0 41,
      over_buffer (buffer_check P B 0x3c 42),
      require_result P (minemu_block_read P fuel 2 0 1 dma_paddr) 7 43,
      require_read P (MINEMU_BLOCK ''status'')
        (\<lambda>v. v AND (MINEMU_BLOCK_STATUS_COMPLETE OR MINEMU_BLOCK_STATUS_ERROR) = 0) 44]"

definition block_kernel_main :: "'d platform \<Rightarrow> (nat \<Rightarrow> 'd \<Rightarrow> 'd) \<Rightarrow> nat \<Rightarrow> 'd buffer_access \<Rightarrow> u32
    \<Rightarrow> (('d, 'z) machine_scheme, unit) cmd" where
  "block_kernel_main P elapse fuel B dma =
     (let dma_paddr = minemu_test_paddr dma in
      bind (case_media P elapse fuel B dma_paddr) (\<lambda>_.
      bind (case_errors P elapse fuel dma_paddr) (\<lambda>_.
      bind (case_busy P fuel B dma_paddr) (\<lambda>_.
      bind (case_interrupts P fuel dma_paddr) (\<lambda>_.
      bind (case_driver P fuel B dma_paddr) (\<lambda>_.
      bind (minemu_trace_event P 0x20030001) (\<lambda>_.
      minemu_fail_stop)))))))"

section \<open>One verdict\<close>

lemma checks_gets [verdict_intros]: "checks (gets f)"
  by (simp add: checks_def gets_def)

lemma checks_block [verdict_intros]: "(\<And>c. c \<in> set cs \<Longrightarrow> checks c) \<Longrightarrow> checks (block cs)"
proof (induction cs)
  case Nil
  show ?case unfolding block.simps by (rule checks_ret)
next
  case (Cons c cs)
  show ?case unfolding block.simps by (rule checks_bind) (simp_all add: Cons)
qed

lemma checks_for [verdict_intros]:
  fixes body :: "u32 \<Rightarrow> (('d, 'z) machine_scheme, 'r option) cmd"
  assumes "\<And>i. checks (body i)"
  shows "checks (for_cmd body i n)"
proof -
  let ?ok = "\<lambda>(r :: 'r option outcome) vs. case r of Done x \<Rightarrow> vs = [] | FailStop \<Rightarrow> failure_trace vs
      | OutOfFuel \<Rightarrow> vs = [] | Fault \<Rightarrow> False"
  have "\<exists>vs. trace_values (io (snd (for_cmd body i n s))) = trace_values (io s) @ vs
     \<and> ?ok (fst (for_cmd body i n s)) vs" for s
  proof (cases "i \<le> n")
    case True
    let ?Q = "\<lambda>r t. \<exists>vs. trace_values (io t) = trace_values (io s) @ vs \<and> ?ok r vs"
    have "case for_cmd body i n s of (r, t) \<Rightarrow> ?Q r t"
    proof (rule for_cmd_rule [where I = "\<lambda>k t. trace_values (io t) = trace_values (io s)", OF _ True])
      fix k and t :: "('d, 'z) machine_scheme"
      assume I: "trace_values (io t) = trace_values (io s)"
      obtain r u where b: "body k t = (r, u)" by (cases "body k t")
      from assms [of k, unfolded checks_def, rule_format, of t] I
      have "?Q r u" by (simp add: b)
      then show "case body k t of (Done None, u) \<Rightarrow> trace_values (io u) = trace_values (io s)
          | (r, u) \<Rightarrow> ?Q r u"
        unfolding b by (cases r) (auto split: option.splits)
    qed auto
    then show ?thesis by (simp add: split_def)
  next
    case False
    then have "\<not> i < n" by simp
    then show ?thesis by (simp add: for_cmd_done)
  qed
  then show ?thesis by (simp add: checks_def)
qed

lemma checks_diagnosed:
  assumes "d AND 0xf0000000 \<noteq> 0x20000000"
  shows "checks (bind (minemu_trace_event P d) (\<lambda>_. minemu_conformance_fail P code))"
  using assms failure_code [of code]
  by (simp add: checks_def bind_trace minemu_conformance_fail_def cmd_simps minemu_fail_stop_def
      failure_trace_def)

lemma block_diagnostic: "(0xe0030000 OR x) AND 0xf0000000 \<noteq> (0x20000000 :: u32)"
proof
  assume "(0xe0030000 OR x) AND 0xf0000000 = (0x20000000 :: u32)"
  then have "bit ((0xe0030000 OR x) AND 0xf0000000) 31 = bit (0x20000000 :: u32) 31" by (rule arg_cong)
  then show False by (simp add: bit_simps)
qed

lemma checks_only_if [verdict_intros]: "checks c \<Longrightarrow> checks (only_if b c)"
  by (simp add: only_if_def checks_ret)

lemma checks_wait_complete [verdict_intros]: "checks (wait_complete P fuel expected)"
  unfolding wait_complete_def poll_complete_def
  by (intro verdict_intros checks_write checks_diagnosed)
    (simp_all add: reg_addrs or.assoc block_diagnostic)

lemma checks_exact_command [verdict_intros]:
  "checks (exact_command P elapse fuel unit operation lba sectors address expected)"
  unfolding exact_command_def by (intro verdict_intros checks_write) (simp_all add: reg_addrs)

lemma checks_case_command [verdict_intros]: "checks (case_command P unit operation lba sectors address)"
  unfolding case_command_def block.simps
  by (intro verdict_intros checks_write) (simp_all add: reg_addrs)

lemma checks_buffer [verdict_intros]:
  "checks (buffer_check P B v code i)" "checks (buffer_set B v i)"
  unfolding buffer_check_def buffer_set_def by (intro verdict_intros; simp)+

lemma checks_over_buffer [verdict_intros]: "(\<And>i. checks (body i)) \<Longrightarrow> checks (over_buffer body)"
  unfolding over_buffer_def by (intro verdict_intros)

lemma checks_irq_mask [verdict_intros]: "checks minemu_irq_enable" "checks minemu_irq_disable"
  by (simp_all add: checks_def minemu_irq_enable_def minemu_irq_disable_def modify_def)

lemma checks_transfer [verdict_intros]:
  "checks (minemu_block_transfer P fuel command unit lba n dma)"
  "checks (minemu_block_read P fuel unit lba n dma)" "checks (minemu_block_write P fuel unit lba n dma)"
  unfolding minemu_block_read_def minemu_block_write_def minemu_block_transfer_def poll_complete_def
  by (intro verdict_intros checks_write; simp add: reg_addrs)+

lemma checks_require_result [verdict_intros]: "checks c \<Longrightarrow> checks (require_result P c v code)"
  unfolding require_result_def by (intro verdict_intros)

lemma checks_parts [verdict_intros]:
  "checks (case_media P elapse fuel B dma)" "checks (case_errors P elapse fuel dma)"
  "checks (case_busy P fuel B dma)" "checks (case_interrupts P fuel dma)" "checks (case_driver P fuel B dma)"
  unfolding case_media_def case_errors_def case_busy_def case_interrupts_def case_driver_def
    irq_round_def poll_complete_def block.simps
  by (intro verdict_intros checks_write; simp add: reg_addrs)+

lemma concluding_block: "concluding [0x20030001] (block_kernel_main P elapse fuel B dma)"
  unfolding block_kernel_main_def Let_def by (intro verdict_intros)

section \<open>The controller the case expects\<close>

text \<open>
  What the case can observe behind the controller: the sectors of each unit, the DMA buffer, whether
  the interrupt line is enabled, and whether a command was refused because one was running.
\<close>

record bench =
  bn_disk :: "u32 \<Rightarrow> u32 \<Rightarrow> nat \<Rightarrow> u8"
  bn_buffer :: "nat \<Rightarrow> u8"
  bn_irq :: bool
  bn_refused :: bool

text \<open>The service on one sector, with the error codes of \<^verbatim>\<open>platform.h\<close>.\<close>

definition disk_service :: "bench block_service \<Rightarrow> u32 \<Rightarrow> bool" where
  "disk_service exec dma \<longleftrightarrow> (\<forall>m.
     (\<forall>u l. u \<in> {0, 1} \<and> l \<in> {0, 1} \<longrightarrow>
        exec 1 u l 1 dma m = (0, m\<lparr>bn_buffer := bn_disk m u l\<rparr>)
        \<and> exec 2 u l 1 dma m = (0, m\<lparr>bn_disk := (bn_disk m)(u := (bn_disk m u)(l := bn_buffer m))\<rparr>))
     \<and> exec 99 0 0 1 dma m = (3, m) \<and> exec 1 0 0 1 (dma + 1) m = (4, m)
     \<and> exec 1 0 2 1 dma m = (5, m) \<and> exec 1 2 0 1 dma m = (7, m))"

text \<open>
  Beyond the protocol of \<open>block_contract\<close>: a command completes between the two samples that are
  30 instructions away, and is still running after four more accesses; a second command meanwhile
  is refused with its own error; the unit register can be read back; the interrupt line follows
  completion; the buffer is plain memory.
\<close>

definition bench_contract :: "'d platform \<Rightarrow> ('d \<Rightarrow> bench block_view) \<Rightarrow> bench block_service \<Rightarrow> nat
    \<Rightarrow> (nat \<Rightarrow> 'd \<Rightarrow> 'd) \<Rightarrow> 'd buffer_access \<Rightarrow> bool" where
  "bench_contract P view exec latency elapse B \<longleftrightarrow>
     block_contract P view exec latency
     \<and> (\<forall>d v. bv_phase (view d) = Idle \<longrightarrow>
        (let (a, d2) = reg_read P 0x10002010 (elapse 30 (reg_write P 0x10002000 v d));
             (b, d3) = reg_read P 0x10002010 d2;
             (e, m) = exec v (bv_unit (view d)) (bv_lba (view d)) (bv_count (view d)) (bv_dma (view d))
               (bv_media (view d))
         in a = 1 \<and> b AND 1 = 0 \<and> b AND 2 \<noteq> 0
            \<and> view d3 = (view d)\<lparr>bv_phase := Complete e, bv_media := m\<rparr>)
        \<and> (\<exists>w. 4 \<le> w \<and> w \<le> latency \<and> view (reg_write P 0x10002000 v d) = start_command exec w v (view d))
        \<and> view (reg_write P 0x10000004 8 d) = view d
        \<and> view (reg_write P 0x1000201c 1 d) = (view d)\<lparr>bv_media := (bv_media (view d))\<lparr>bn_irq := True\<rparr>\<rparr>
        \<and> fst (reg_read P 0x10002010 d) AND 6 = 0)
     \<and> (\<forall>d w e v. bv_phase (view d) = Busy (Suc w) e \<longrightarrow>
        view (reg_write P 0x10002020 v d) = (view d)\<lparr>bv_unit := v, bv_phase := Busy w e\<rparr>
        \<and> view (reg_write P 0x10002000 v d) =
            (view d)\<lparr>bv_phase := Busy w e, bv_media := (bv_media (view d))\<lparr>bn_refused := True\<rparr>\<rparr>
        \<and> (bn_refused (bv_media (view d)) \<longrightarrow>
            fst (reg_read P 0x10002014 d) = 2
            \<and> view (snd (reg_read P 0x10002014 d)) = (view d)\<lparr>bv_phase := Busy w e\<rparr>
            \<and> view (reg_write P 0x10002018 1 d) =
                (view d)\<lparr>bv_phase := Busy w e, bv_media := (bv_media (view d))\<lparr>bn_refused := False\<rparr>\<rparr>))
     \<and> (\<forall>d. (\<forall>w e. bv_phase (view d) \<noteq> Busy w e) \<longrightarrow>
        fst (reg_read P 0x10002020 d) = bv_unit (view d) \<and> view (snd (reg_read P 0x10002020 d)) = view d
        \<and> (fst (reg_read P 0x10000000 d) AND 8 \<noteq> 0 \<longleftrightarrow>
            bn_irq (bv_media (view d)) \<and> bv_phase (view d) \<noteq> Idle)
        \<and> view (snd (reg_read P 0x10000000 d)) = view d
        \<and> (bn_irq (bv_media (view d)) \<and> bv_phase (view d) \<noteq> Idle \<longrightarrow>
            fst (reg_read P 0x10000008 d) = 3 \<and> view (snd (reg_read P 0x10000008 d)) = view d)
        \<and> view (reg_write P 0x1000000c 3 d) = view d)
     \<and> (\<forall>d i v. dma_get B i d = bn_buffer (bv_media (view d)) i
        \<and> view (dma_put B i v d) = (view d)\<lparr>bv_media := (bv_media (view d))
            \<lparr>bn_buffer := (bn_buffer (bv_media (view d)))(i := v)\<rparr>\<rparr>)
     \<and> (\<forall>d v. view (reg_write P 0x1000f000 v d) = view d)"

text \<open>An idle controller with its unit register and what is behind it.\<close>

definition rests :: "('d \<Rightarrow> bench block_view) \<Rightarrow> u32 \<Rightarrow> bench \<Rightarrow> ('d, 'z) machine_scheme \<Rightarrow> bool" where
  "rests view u m s \<longleftrightarrow>
     bv_phase (view (dev s)) = Idle \<and> bv_unit (view (dev s)) = u \<and> bv_media (view (dev s)) = m"

definition keeps :: "('d, 'z) machine_scheme \<Rightarrow> ('d, 'z) machine_scheme \<Rightarrow> bool" where
  "keeps s t \<longleftrightarrow> trace_values (io t) = trace_values (io s)"

lemma poll_done:
  assumes c: "block_contract P view exec latency"
    and ph: "bv_phase (view (dev s)) = Busy w e \<or> (bv_phase (view (dev s)) = Complete e \<and> w = 0)"
    and fuel: "w < fuel"
  shows "\<exists>t. poll_while fuel (poll_complete P) s = (Done (), t) \<and> keeps s t
    \<and> view (dev t) = (view (dev s))\<lparr>bv_phase := Complete e\<rparr>"
proof -
  obtain k where k: "k \<le> w" "completes_at P k (dev s)"
    "view (polled P (Suc k) (dev s)) = (view (dev s))\<lparr>bv_phase := Complete e\<rparr>"
  proof (cases "bv_phase (view (dev s)) = Busy w e")
    case True
    with contract_completes [OF c, of "dev s"] that show ?thesis by blast
  next
    case False
    with ph have cp: "bv_phase (view (dev s)) = Complete e" "w = 0" by simp_all
    with contract_status [OF c, of "dev s"] have "completes_at P 0 (dev s)"
      "view (polled P (Suc 0) (dev s)) = (view (dev s))\<lparr>bv_phase := Complete e\<rparr>"
      by (auto simp: status_answer_def completes_at_def)
    with that [of 0] show ?thesis by simp
  qed
  have quiet: "trace_values (status_log P n d) = []" for n d
    by (induction n arbitrary: d) simp_all
  show ?thesis
    using poll_completes [OF k(2), of fuel] k(1,3) fuel
    by (simp add: keeps_def quiet del: polled.simps status_log.simps)
qed

lemma keeps_trans: "keeps s t \<Longrightarrow> keeps t u \<Longrightarrow> keeps s u"
  by (simp add: keeps_def)

lemma keeps_same [simp]: "keeps s (s\<lparr>dev := d\<rparr>)" "keeps s (s\<lparr>dev := d, io := io s @ [RegRead a v]\<rparr>)"
  by (simp_all add: keeps_def)

lemma keeps_write: "a \<noteq> 0x1000f000 \<Longrightarrow> keeps s (s\<lparr>dev := d, io := io s @ [RegWrite a v]\<rparr>)"
  by (simp add: keeps_def)

lemma complete_done:
  assumes "block_contract P view exec latency" and "bv_phase (view d) = Complete e"
  shows "fst (reg_read P 0x10002014 d) = e" and "view (snd (reg_read P 0x10002014 d)) = view d"
    and "view (reg_write P 0x10002018 1 d) = (view d)\<lparr>bv_phase := Idle\<rparr>"
    and "fst (reg_read P 0x10002010 d) AND 4 \<noteq> 0 \<longleftrightarrow> e \<noteq> 0"
    and "view (snd (reg_read P 0x10002010 d)) = view d"
  using assms contract_status [OF assms(1), of d]
  by (auto simp: block_contract_def status_answer_def status_at_def)

lemma wait_ok:
  assumes c: "block_contract P view exec latency"
    and ph: "bv_phase (view (dev s)) = Busy w e \<or> (bv_phase (view (dev s)) = Complete e \<and> w = 0)"
    and fuel: "w < fuel"
  shows "\<exists>t. wait_complete P fuel e s = (Done (), t) \<and> keeps s t
    \<and> view (dev t) = (view (dev s))\<lparr>bv_phase := Idle\<rparr>"
proof -
  from poll_done [OF assms] obtain s1 where s1: "poll_while fuel (poll_complete P) s = (Done (), s1)"
    "keeps s s1" "view (dev s1) = (view (dev s))\<lparr>bv_phase := Complete e\<rparr>" by blast
  define d2 where "d2 = snd (reg_read P 0x10002014 (dev s1))"
  define d3 where "d3 = snd (reg_read P 0x10002010 d2)"
  have ph1: "bv_phase (view (dev s1)) = Complete e" using s1(3) by simp
  note c1 = complete_done [OF c ph1, folded d2_def]
  have ph2: "bv_phase (view d2) = Complete e" using c1(2) ph1 by simp
  note c2 = complete_done [OF c ph2, folded d3_def]
  have ph3: "bv_phase (view d3) = Complete e" using c2(5) ph2 by simp
  note c3 = complete_done [OF c ph3]
  show ?thesis
    using c1 c2 c3(3) s1(2,3)
    by (simp add: wait_complete_def bind_def [of "poll_while f b" for f b] s1(1) cmd_simps reg_addrs
        require_read_def MINEMU_MMIO_WRITE32_def keeps_def d2_def d3_def)
qed

lemma programmed_view:
  assumes c: "block_contract P view exec latency" and idle: "bv_phase (view d) = Idle"
  shows "view (reg_write P 0x1000200c dma (reg_write P 0x10002008 n (reg_write P 0x10002004 lba
      (reg_write P 0x10002020 unit d)))) = (view d)\<lparr>bv_unit := unit, bv_lba := lba, bv_count := n, bv_dma := dma\<rparr>"
proof -
  have w: "view (reg_write P 0x10002020 v x) = (view x)\<lparr>bv_unit := v\<rparr>"
    "view (reg_write P 0x10002004 v x) = (view x)\<lparr>bv_lba := v\<rparr>"
    "view (reg_write P 0x10002008 v x) = (view x)\<lparr>bv_count := v\<rparr>"
    "view (reg_write P 0x1000200c v x) = (view x)\<lparr>bv_dma := v\<rparr>"
    if "bv_phase (view x) = Idle" for v x
    using c that by (auto simp: block_contract_def)
  show ?thesis using idle by (simp add: w)
qed

lemma exact_ok:
  assumes b: "bench_contract P view exec latency elapse B" and r: "rests view u m s"
    and e: "exec operation unit lba n dma m = (e, m')" and fuel: "0 < fuel"
  shows "\<exists>t. exact_command P elapse fuel unit operation lba n dma e s = (Done (), t) \<and> keeps s t
    \<and> rests view unit m' t"
proof -
  have c: "block_contract P view exec latency" using b by (simp add: bench_contract_def)
  have idle: "bv_phase (view (dev s)) = Idle" using r by (simp add: rests_def)
  define d where "d = reg_write P 0x1000200c dma (reg_write P 0x10002008 n (reg_write P 0x10002004 lba
      (reg_write P 0x10002020 unit (dev s))))"
  have vd: "view d = (view (dev s))\<lparr>bv_unit := unit, bv_lba := lba, bv_count := n, bv_dma := dma\<rparr>"
    unfolding d_def by (rule programmed_view [OF c idle])
  define r1 where "r1 = reg_read P 0x10002010 (elapse 30 (reg_write P 0x10002000 operation d))"
  define r2 where "r2 = reg_read P 0x10002010 (snd r1)"
  have "bv_phase (view d) = Idle" using vd idle by simp
  then have "let (a, d2) = r1; (b, d3) = reg_read P 0x10002010 d2;
      (e, m) = exec operation (bv_unit (view d)) (bv_lba (view d)) (bv_count (view d)) (bv_dma (view d))
        (bv_media (view d))
    in a = 1 \<and> b AND 1 = 0 \<and> b AND 2 \<noteq> 0 \<and> view d3 = (view d)\<lparr>bv_phase := Complete e, bv_media := m\<rparr>"
    using b unfolding bench_contract_def r1_def by blast
  then have st: "fst r1 = 1" "fst r2 AND 1 = 0" "fst r2 AND 2 \<noteq> 0"
    "view (snd r2) = (view d)\<lparr>bv_phase := Complete e, bv_media := m'\<rparr>"
    using r e by (simp_all add: split_def Let_def r2_def vd rests_def)
  define s2 where "s2 = s\<lparr>dev := snd r2, io := io s @ [RegWrite 0x10002020 unit, RegWrite 0x10002004 lba,
      RegWrite 0x10002008 n, RegWrite 0x1000200c dma, RegWrite 0x10002000 operation,
      RegRead 0x10002010 (fst r1), RegRead 0x10002010 (fst r2)]\<rparr>"
  have "exact_command P elapse fuel unit operation lba n dma e s = wait_complete P fuel e s2"
    by (simp add: exact_command_def minemu_block_exact_32_def cmd_simps reg_addrs samples_parts
        samples_parts [of 1, simplified] d_def [symmetric] r1_def [symmetric] r2_def [symmetric] st s2_def)
  moreover have "keeps s s2" by (simp add: s2_def keeps_def)
  moreover have "bv_phase (view (dev s2)) = Complete e" by (simp add: s2_def st)
  with wait_ok [OF c, of s2 0 e fuel] fuel obtain t where "wait_complete P fuel e s2 = (Done (), t)"
    "keeps s2 t" "view (dev t) = (view (dev s2))\<lparr>bv_phase := Idle\<rparr>" by blast
  ultimately show ?thesis
    using keeps_trans [of s s2] by (auto simp: rests_def s2_def st(4) vd)
qed

lemma command_ok:
  assumes b: "bench_contract P view exec latency elapse B" and r: "rests view u m s"
    and e: "exec operation unit lba n dma m = (e, m')"
  shows "\<exists>t w. case_command P unit operation lba n dma s = (Done (), t) \<and> keeps s t
    \<and> bv_phase (view (dev t)) = Busy w e \<and> 4 \<le> w \<and> w \<le> latency
    \<and> bv_unit (view (dev t)) = unit \<and> bv_media (view (dev t)) = m'"
proof -
  have c: "block_contract P view exec latency" using b by (simp add: bench_contract_def)
  have idle: "bv_phase (view (dev s)) = Idle" using r by (simp add: rests_def)
  define d where "d = reg_write P 0x1000200c dma (reg_write P 0x10002008 n (reg_write P 0x10002004 lba
      (reg_write P 0x10002020 unit (dev s))))"
  have vd: "view d = (view (dev s))\<lparr>bv_unit := unit, bv_lba := lba, bv_count := n, bv_dma := dma\<rparr>"
    unfolding d_def by (rule programmed_view [OF c idle])
  have "bv_phase (view d) = Idle" using vd idle by simp
  then obtain w where "4 \<le> w" "w \<le> latency"
    "view (reg_write P 0x10002000 operation d) = start_command exec w operation (view d)"
    using b unfolding bench_contract_def by blast
  then show ?thesis
    using r e by (auto simp: case_command_def cmd_simps reg_addrs d_def [symmetric] keeps_def vd rests_def
        start_command_def)
qed

text \<open>The buffer loops.\<close>

definition filled :: "u8 \<Rightarrow> (nat \<Rightarrow> u8) \<Rightarrow> nat \<Rightarrow> u8" where
  "filled v f i = (if i < 512 then v else f i)"

lemma buffer_access:
  assumes "bench_contract P view exec latency elapse B" and "rests view u m s"
  shows "dma_get B i (dev s) = bn_buffer m i"
    and "rests view u (m\<lparr>bn_buffer := (bn_buffer m)(i := v)\<rparr>) (s\<lparr>dev := dma_put B i v (dev s)\<rparr>)"
  using assms by (simp_all add: bench_contract_def rests_def)

lemma set_ok:
  assumes b: "bench_contract P view exec latency elapse B" and r: "rests view u m s"
  shows "\<exists>t. over_buffer (buffer_set B v) s = (Done (), t) \<and> keeps s t
    \<and> rests view u (m\<lparr>bn_buffer := filled v (bn_buffer m)\<rparr>) t"
proof -
  let ?f = "\<lambda>k i. if i < unat (k :: u32) then v else bn_buffer m i"
  let ?I = "\<lambda>k t. keeps s t \<and> rests view u (m\<lparr>bn_buffer := ?f k\<rparr>) t"
  have "\<exists>t. for_cmd (buffer_set B v) 0 512 s = (Done None, t) \<and> ?I 512 t"
  proof (rule for_cmd_total [where I = ?I])
    show "?I 0 s" using r by (simp add: keeps_def)
    fix k t assume k: "k < 512" and I: "?I k t"
    have "(?f k)(unat k := v) = ?f (k + 1)"
      using k by (auto simp: unat_Suc_u32 less_Suc_eq)
    with buffer_access(2) [OF b, of u "m\<lparr>bn_buffer := ?f k\<rparr>" t "unat k" v] I
    have "rests view u (m\<lparr>bn_buffer := ?f (k + 1)\<rparr>) (t\<lparr>dev := dma_put B (unat k) v (dev t)\<rparr>)" by simp
    with I keeps_trans [of s t] show "\<exists>w. buffer_set B v k t = (Done None, w) \<and> ?I (k + 1) w"
      by (simp add: buffer_set_def cmd_simps)
  qed simp
  moreover have "?f 512 = filled v (bn_buffer m)" by (rule ext) (simp add: filled_def)
  ultimately show ?thesis by (auto simp: over_buffer_def bind_def ret_def)
qed

lemma check_ok:
  assumes b: "bench_contract P view exec latency elapse B" and r: "rests view u m s"
    and v: "\<And>i. i < 512 \<Longrightarrow> bn_buffer m i = v"
  shows "over_buffer (buffer_check P B v code) s = (Done (), s)"
proof -
  have "\<exists>t. for_cmd (buffer_check P B v code) 0 512 s = (Done None, t) \<and> t = s"
  proof (rule for_cmd_total [where I = "\<lambda>k t. t = s"])
    fix k :: u32 and t assume k: "k < 512" and t: "t = s"
    then have "unat k < 512" by (simp add: word_less_nat_alt)
    then have "dma_get B (unat k) (dev s) = v" using buffer_access(1) [OF b r] v by simp
    with t show "\<exists>w. buffer_check P B v code k t = (Done None, w) \<and> w = s"
      by (simp add: buffer_check_def cmd_simps bind_require)
  qed simp_all
  then show ?thesis by (auto simp: over_buffer_def bind_def ret_def)
qed

lemma check_set_ok:
  assumes b: "bench_contract P view exec latency elapse B" and r: "rests view u m s"
    and v: "\<And>i. i < 512 \<Longrightarrow> bn_buffer m i = v"
  shows "\<exists>t. over_buffer (\<lambda>i. bind (buffer_check P B v code i) (\<lambda>_. buffer_set B w i)) s = (Done (), t)
    \<and> keeps s t \<and> rests view u (m\<lparr>bn_buffer := filled w (bn_buffer m)\<rparr>) t"
proof -
  let ?body = "\<lambda>i. bind (buffer_check P B v code i) (\<lambda>_. buffer_set B w i)"
  let ?f = "\<lambda>k i. if i < unat (k :: u32) then w else bn_buffer m i"
  let ?I = "\<lambda>k t. keeps s t \<and> rests view u (m\<lparr>bn_buffer := ?f k\<rparr>) t"
  have "\<exists>t. for_cmd ?body 0 512 s = (Done None, t) \<and> ?I 512 t"
  proof (rule for_cmd_total [where I = ?I])
    show "?I 0 s" using r by (simp add: keeps_def)
    fix k t assume k: "k < 512" and I: "?I k t"
    then have "unat k < 512" by (simp add: word_less_nat_alt)
    then have "dma_get B (unat k) (dev t) = v" 
      using buffer_access(1) [OF b, of u "m\<lparr>bn_buffer := ?f k\<rparr>" t "unat k"] I v by simp
    moreover have "(?f k)(unat k := w) = ?f (k + 1)"
      using k by (auto simp: unat_Suc_u32 less_Suc_eq)
    with buffer_access(2) [OF b, of u "m\<lparr>bn_buffer := ?f k\<rparr>" t "unat k" w] I
    have "rests view u (m\<lparr>bn_buffer := ?f (k + 1)\<rparr>) (t\<lparr>dev := dma_put B (unat k) w (dev t)\<rparr>)" by simp
    ultimately show "\<exists>x. ?body k t = (Done None, x) \<and> ?I (k + 1) x"
      using I keeps_trans [of s t] by (simp add: buffer_check_def buffer_set_def cmd_simps bind_require)
  qed simp
  moreover have "?f 512 = filled w (bn_buffer m)" by (rule ext) (simp add: filled_def)
  ultimately show ?thesis by (auto simp: over_buffer_def bind_def ret_def)
qed

lemma not_busy:
  assumes "bench_contract P view exec latency elapse B" and "\<forall>w e. bv_phase (view d) \<noteq> Busy w e"
  shows "fst (reg_read P 0x10002020 d) = bv_unit (view d)" "view (snd (reg_read P 0x10002020 d)) = view d"
    "fst (reg_read P 0x10000000 d) AND 8 \<noteq> 0 \<longleftrightarrow> bn_irq (bv_media (view d)) \<and> bv_phase (view d) \<noteq> Idle"
    "view (snd (reg_read P 0x10000000 d)) = view d"
    "bn_irq (bv_media (view d)) \<and> bv_phase (view d) \<noteq> Idle \<Longrightarrow> fst (reg_read P 0x10000008 d) = 3"
    "bn_irq (bv_media (view d)) \<and> bv_phase (view d) \<noteq> Idle \<Longrightarrow> view (snd (reg_read P 0x10000008 d)) = view d"
    "view (reg_write P 0x1000000c 3 d) = view d"
  using assms unfolding bench_contract_def by blast+

lemma irq_round_ok:
  assumes b: "bench_contract P view exec latency elapse B" and r: "rests view u m s"
    and e: "exec 1 unit 0 1 dma m = (e, m')" and irq: "bn_irq m'" and fuel: "latency < fuel"
  shows "\<exists>t. irq_round P fuel dma unit s = (Done None, t) \<and> keeps s t \<and> rests view unit m' t"
proof -
  have c: "block_contract P view exec latency" using b by (simp add: bench_contract_def)
  from command_ok [OF b r e] obtain s1 w where s1: "case_command P unit 1 0 1 dma s = (Done (), s1)"
    "keeps s s1" "bv_phase (view (dev s1)) = Busy w e" "w \<le> latency"
    "bv_unit (view (dev s1)) = unit" "bv_media (view (dev s1)) = m'" by blast
  from poll_done [OF c, of s1 w e fuel] s1(3,4) fuel obtain s2 where
    s2: "poll_while fuel (poll_complete P) s1 = (Done (), s2)" "keeps s1 s2"
      "view (dev s2) = (view (dev s1))\<lparr>bv_phase := Complete e\<rparr>" by auto
  define d3 where "d3 = snd (reg_read P 0x10000000 (dev s2))"
  define d4 where "d4 = snd (reg_read P 0x10000008 d3)"
  define d5 where "d5 = reg_write P 0x10002018 1 d4"
  define d6 where "d6 = reg_write P 0x1000000c 3 d5"
  have v2: "\<forall>w e. bv_phase (view (dev s2)) \<noteq> Busy w e" "bn_irq (bv_media (view (dev s2)))"
    "bv_phase (view (dev s2)) = Complete e" using s2(3) s1(6) irq by simp_all
  note n2 = not_busy [OF b v2(1), folded d3_def]
  have v3: "view d3 = view (dev s2)" by (rule n2(4))
  note n3 = not_busy [OF b, of d3, folded d4_def, unfolded v3, OF v2(1)]
  have v4: "view d4 = view (dev s2)" using n3(6) v2 by simp
  have v5: "view d5 = (view (dev s2))\<lparr>bv_phase := Idle\<rparr>"
    using complete_done(3) [OF c, of d4 e] v4 v2(3) by (simp add: d5_def)
  have idle5: "\<forall>w e. bv_phase (view d5) \<noteq> Busy w e" by (simp add: v5)
  have v6: "view d6 = view d5" unfolding d6_def by (rule not_busy(7) [OF b idle5])
  have n6: "fst (reg_read P 0x10000000 d6) AND 8 = 0" "view (snd (reg_read P 0x10000000 d6)) = view d6"
    using not_busy(3,4) [OF b, of d6] by (simp_all add: v6 v5)
  show ?thesis
    using n2(3) n3(5) n6 v2 s1(2,5,6) s2(2,3)
    by (simp add: irq_round_def bind_def [of "case_command P unit 1 0 1 dma"] s1(1)
        bind_def [of "poll_while fuel (poll_complete P)"] s2(1) require_read_def cmd_simps reg_addrs
        bind_require d3_def [symmetric] d4_def [symmetric] d5_def [symmetric] d6_def [symmetric] v6 v5
        keeps_def rests_def)
qed

text \<open>The parts of the case on such a controller.\<close>

lemma require_unit:
  assumes "bench_contract P view exec latency elapse B" and "rests view u m s"
  shows "\<exists>t. require_read P (MINEMU_BLOCK ''unit'') (\<lambda>v. v = u) code s = (Done (), t) \<and> keeps s t
    \<and> rests view u m t"
proof -
  have "\<forall>w e. bv_phase (view (dev s)) \<noteq> Busy w e" using assms(2) by (simp add: rests_def)
  from not_busy(1,2) [OF assms(1) this] assms(2) show ?thesis
    by (simp add: require_read_def cmd_simps reg_addrs MINEMU_REQUIRE_def rests_def keeps_def)
qed

lemma service_read:
  "disk_service exec dma \<Longrightarrow> u \<in> {0, 1} \<Longrightarrow> l \<in> {0, 1} \<Longrightarrow>
   exec 1 u l 1 dma m = (0, m\<lparr>bn_buffer := bn_disk m u l\<rparr>)"
  unfolding disk_service_def by blast

lemma service_write:
  "disk_service exec dma \<Longrightarrow> u \<in> {0, 1} \<Longrightarrow> l \<in> {0, 1} \<Longrightarrow>
   exec 2 u l 1 dma m = (0, m\<lparr>bn_disk := (bn_disk m)(u := (bn_disk m u)(l := bn_buffer m))\<rparr>)"
  unfolding disk_service_def by blast

lemma service_error:
  "disk_service exec dma \<Longrightarrow> exec 99 0 0 1 dma m = (3, m)"
  "disk_service exec dma \<Longrightarrow> exec 1 0 0 1 (dma + 1) m = (4, m)"
  "disk_service exec dma \<Longrightarrow> exec 1 0 2 1 dma m = (5, m)"
  "disk_service exec dma \<Longrightarrow> exec 1 2 0 1 dma m = (7, m)"
  unfolding disk_service_def by blast+

lemma media_ok:
  assumes b: "bench_contract P view exec latency elapse B" and v: "disk_service exec dma"
    and r: "rests view 0 m s" and zero: "\<And>i. i < 512 \<Longrightarrow> bn_disk m 0 0 i = 0" and fuel: "0 < fuel"
  shows "\<exists>t. case_media P elapse fuel B dma s = (Done (), t) \<and> keeps s t
    \<and> (\<exists>m'. rests view 1 m' t \<and> (\<forall>i < 512. bn_disk m' 0 1 i = 0xa5 \<and> bn_disk m' 1 1 i = 0x5a))"
proof -
  note exact = exact_ok [OF b _ _ fuel]
  let ?m1 = "m\<lparr>bn_buffer := bn_disk m 0 0\<rparr>"
  let ?m2 = "?m1\<lparr>bn_buffer := filled 0xa5 (bn_buffer ?m1)\<rparr>"
  let ?m3 = "?m2\<lparr>bn_disk := (bn_disk ?m2)(0 := (bn_disk ?m2 0)(1 := bn_buffer ?m2))\<rparr>"
  let ?m4 = "?m3\<lparr>bn_buffer := filled 0x5a (bn_buffer ?m3)\<rparr>"
  let ?m5 = "?m4\<lparr>bn_disk := (bn_disk ?m4)(1 := (bn_disk ?m4 1)(1 := bn_buffer ?m4))\<rparr>"
  let ?m6 = "?m5\<lparr>bn_buffer := filled 0 (bn_buffer ?m5)\<rparr>"
  let ?m7 = "?m6\<lparr>bn_buffer := bn_disk ?m6 0 1\<rparr>"
  let ?m8 = "?m7\<lparr>bn_buffer := bn_disk ?m7 1 1\<rparr>"
  from require_unit [OF b r] obtain s0 where
    0: "require_read P (MINEMU_BLOCK ''unit'') (\<lambda>v. v = 0) 1 s = (Done (), s0)" "keeps s s0" "rests view 0 m s0"
    by blast
  from exact [OF 0(3) service_read [OF v, of 0 0 m]] obtain s1 where
    1: "exact_command P elapse fuel 0 1 0 1 dma 0 s0 = (Done (), s1)" "keeps s0 s1" "rests view 0 ?m1 s1"
    by auto
  from check_set_ok [OF b 1(3), of 0 2 "0xa5"] zero obtain s2 where
    2: "over_buffer (\<lambda>i. bind (buffer_check P B 0 2 i) (\<lambda>_. buffer_set B 0xa5 i)) s1 = (Done (), s2)"
      "keeps s1 s2" "rests view 0 ?m2 s2" by auto
  from exact [OF 2(3) service_write [OF v, of 0 1 ?m2]] obtain s3 where
    3: "exact_command P elapse fuel 0 2 1 1 dma 0 s2 = (Done (), s3)" "keeps s2 s3" "rests view 0 ?m3 s3"
    by auto
  from set_ok [OF b 3(3), of "0x5a"] obtain s4 where
    4: "over_buffer (buffer_set B 0x5a) s3 = (Done (), s4)" "keeps s3 s4" "rests view 0 ?m4 s4" by auto
  from exact [OF 4(3) service_write [OF v, of 1 1 ?m4]] obtain s5 where
    5: "exact_command P elapse fuel 1 2 1 1 dma 0 s4 = (Done (), s5)" "keeps s4 s5" "rests view 1 ?m5 s5"
    by auto
  from set_ok [OF b 5(3), of 0] obtain s6 where
    6: "over_buffer (buffer_set B 0) s5 = (Done (), s6)" "keeps s5 s6" "rests view 1 ?m6 s6" by auto
  from exact [OF 6(3) service_read [OF v, of 0 1 ?m6]] obtain s7 where
    7: "exact_command P elapse fuel 0 1 1 1 dma 0 s6 = (Done (), s7)" "keeps s6 s7" "rests view 0 ?m7 s7"
    by auto
  have 8: "over_buffer (buffer_check P B 0xa5 4) s7 = (Done (), s7)"
    by (rule check_ok [OF b 7(3)]) (simp add: filled_def)
  from exact [OF 7(3) service_read [OF v, of 1 1 ?m7]] obtain s9 where
    9: "exact_command P elapse fuel 1 1 1 1 dma 0 s7 = (Done (), s9)" "keeps s7 s9" "rests view 1 ?m8 s9"
    by auto
  have 10: "over_buffer (buffer_check P B 0x5a 8) s9 = (Done (), s9)"
    by (rule check_ok [OF b 9(3)]) (simp add: filled_def)
  have "case_media P elapse fuel B dma s = (Done (), s9)"
    unfolding case_media_def
    by (simp add: block_step 0(1) 1(1) 2(1) 3(1) 4(1) 5(1) 6(1) 7(1) 8 9(1) 10 ret_def del: block.simps(2))
  moreover have "keeps s s9"
    using 0(2) 1(2) 2(2) 3(2) 4(2) 5(2) 6(2) 7(2) 9(2) by (simp add: keeps_def)
  moreover have "\<forall>i < 512. bn_disk ?m8 0 1 i = 0xa5 \<and> bn_disk ?m8 1 1 i = 0x5a" by (simp add: filled_def)
  ultimately show ?thesis using 9(3) by blast
qed

lemma errors_ok:
  assumes b: "bench_contract P view exec latency elapse B" and v: "disk_service exec dma"
    and r: "rests view u m s" and fuel: "0 < fuel"
  shows "\<exists>t. case_errors P elapse fuel dma s = (Done (), t) \<and> keeps s t \<and> rests view 2 m t"
proof -
  note exact = exact_ok [OF b _ _ fuel]
  from exact [OF r service_error(1) [OF v]] obtain s1 where
    1: "exact_command P elapse fuel 0 99 0 1 dma 3 s = (Done (), s1)" "keeps s s1" "rests view 0 m s1" by blast
  from exact [OF 1(3) service_error(2) [OF v]] obtain s2 where
    2: "exact_command P elapse fuel 0 1 0 1 (dma + 1) 4 s1 = (Done (), s2)" "keeps s1 s2" "rests view 0 m s2" by blast
  from exact [OF 2(3) service_error(3) [OF v]] obtain s3 where
    3: "exact_command P elapse fuel 0 1 2 1 dma 5 s2 = (Done (), s3)" "keeps s2 s3" "rests view 0 m s3" by blast
  from exact [OF 3(3) service_error(4) [OF v]] obtain s4 where
    4: "exact_command P elapse fuel 2 1 0 1 dma 7 s3 = (Done (), s4)" "keeps s3 s4" "rests view 2 m s4" by blast
  have "case_errors P elapse fuel dma s = (Done (), s4)"
    unfolding case_errors_def by (simp add: block_step 1(1) 2(1) 3(1) 4(1) ret_def del: block.simps(2))
  with 1(2) 2(2) 3(2) 4(2,3) show ?thesis by (auto simp: keeps_def)
qed

lemma require_read_ok:
  "c (fst (reg_read P a (dev s))) \<Longrightarrow> require_read P a c code s =
     (Done (), s\<lparr>dev := snd (reg_read P a (dev s)), io := io s @ [RegRead a (fst (reg_read P a (dev s)))]\<rparr>)"
  by (simp add: require_read_def bind_read MINEMU_REQUIRE_def ret_def)

lemma still_busy:
  assumes "bench_contract P view exec latency elapse B" and "bv_phase (view d) = Busy (Suc w) e"
  shows "view (reg_write P 0x10002020 v d) = (view d)\<lparr>bv_unit := v, bv_phase := Busy w e\<rparr>"
    "view (reg_write P 0x10002000 v d) =
       (view d)\<lparr>bv_phase := Busy w e, bv_media := (bv_media (view d))\<lparr>bn_refused := True\<rparr>\<rparr>"
    "bn_refused (bv_media (view d)) \<Longrightarrow> fst (reg_read P 0x10002014 d) = 2"
    "bn_refused (bv_media (view d)) \<Longrightarrow>
       view (snd (reg_read P 0x10002014 d)) = (view d)\<lparr>bv_phase := Busy w e\<rparr>"
    "bn_refused (bv_media (view d)) \<Longrightarrow> view (reg_write P 0x10002018 1 d) =
       (view d)\<lparr>bv_phase := Busy w e, bv_media := (bv_media (view d))\<lparr>bn_refused := False\<rparr>\<rparr>"
  using assms unfolding bench_contract_def by blast+

lemma busy_ok:
  assumes b: "bench_contract P view exec latency elapse B" and v: "disk_service exec dma"
    and r: "rests view u m s" and a5: "\<And>i. i < 512 \<Longrightarrow> bn_disk m 0 1 i = 0xa5" and fuel: "latency < fuel"
  shows "\<exists>t m'. case_busy P fuel B dma s = (Done (), t) \<and> keeps s t \<and> rests view 1 m' t
    \<and> bn_disk m' = bn_disk m"
proof -
  have c: "block_contract P view exec latency" using b by (simp add: bench_contract_def)
  let ?m1 = "m\<lparr>bn_buffer := filled 0 (bn_buffer m)\<rparr>"
  let ?m2 = "?m1\<lparr>bn_buffer := bn_disk ?m1 0 1\<rparr>"
  from set_ok [OF b r, of 0] obtain s1 where
    1: "over_buffer (buffer_set B 0) s = (Done (), s1)" "keeps s s1" "rests view u ?m1 s1" by auto
  from command_ok [OF b 1(3) service_read [OF v, of 0 1 ?m1]] obtain s2 w where
    2: "case_command P 0 1 1 1 dma s1 = (Done (), s2)" "keeps s1 s2" "bv_phase (view (dev s2)) = Busy w 0"
      "4 \<le> w" "w \<le> latency" "bv_media (view (dev s2)) = ?m2" by auto
  from 2(4) obtain w4 where "w = 4 + w4" using le_Suc_ex by blast
  then have w4: "w = Suc (Suc (Suc (Suc w4)))" by simp
  define d3 where "d3 = reg_write P 0x10002020 1 (dev s2)"
  define d4 where "d4 = reg_write P 0x10002000 1 d3"
  define d5 where "d5 = snd (reg_read P 0x10002014 d4)"
  define d6 where "d6 = reg_write P 0x10002018 1 d5"
  have 3: "view d3 = (view (dev s2))\<lparr>bv_unit := 1, bv_phase := Busy (Suc (Suc (Suc w4))) 0\<rparr>"
    unfolding d3_def using 2(3) w4 by (intro still_busy(1) [OF b]) simp
  have 4: "view d4 = (view d3)\<lparr>bv_phase := Busy (Suc (Suc w4)) 0,
      bv_media := (bv_media (view d3))\<lparr>bn_refused := True\<rparr>\<rparr>"
    unfolding d4_def by (rule still_busy(2) [OF b]) (simp add: 3)
  have 5: "fst (reg_read P 0x10002014 d4) = 2" "view d5 = (view d4)\<lparr>bv_phase := Busy (Suc w4) 0\<rparr>"
    using still_busy(3,4) [OF b, of d4 "Suc w4" 0] by (simp_all add: 4 d5_def)
  have 6: "view d6 = (view d5)\<lparr>bv_phase := Busy w4 0, bv_media := (bv_media (view d5))\<lparr>bn_refused := False\<rparr>\<rparr>"
    unfolding d6_def by (rule still_busy(5) [OF b]) (simp_all add: 5 4)
  define s6 where "s6 = s2\<lparr>dev := d6, io := io s2 @ [RegWrite 0x10002020 1, RegWrite 0x10002000 1,
      RegRead 0x10002014 2, RegWrite 0x10002018 1]\<rparr>"
  have k6: "keeps s s6" using 1(2) 2(2) by (simp add: s6_def keeps_def)
  have "bv_phase (view (dev s6)) = Busy w4 0 \<or> (bv_phase (view (dev s6)) = Complete 0 \<and> w4 = 0)"
    by (simp add: s6_def 6)
  moreover have "w4 < fuel" using 2(5) w4 fuel by simp
  ultimately obtain s7 where
    7: "wait_complete P fuel 0 s6 = (Done (), s7)" "keeps s6 s7"
      "view (dev s7) = (view (dev s6))\<lparr>bv_phase := Idle\<rparr>" using wait_ok [OF c] by blast
  let ?m7 = "?m2\<lparr>bn_refused := False\<rparr>"
  have r7: "rests view 1 ?m7 s7" using 2(6) by (simp add: rests_def 7(3) s6_def 6 5 4 3)
  from require_unit [OF b r7] obtain s8 where
    8: "require_read P (MINEMU_BLOCK ''unit'') (\<lambda>v. v = 1) 9 s7 = (Done (), s8)" "keeps s7 s8"
      "rests view 1 ?m7 s8" by blast
  have 9: "over_buffer (buffer_check P B 0xa5 11) s8 = (Done (), s8)"
    by (rule check_ok [OF b 8(3)]) (simp add: a5)
  have "case_busy P fuel B dma s = (Done (), s8)"
    unfolding case_busy_def
    by (simp add: block_step 1(1) 2(1) MINEMU_MMIO_WRITE32_def require_read_ok reg_addrs
        ret_def d3_def [symmetric] d4_def [symmetric] d5_def [symmetric] d6_def [symmetric]
        5(1) s6_def [symmetric] 7(1) 8(1) [unfolded reg_addrs] 9 del: block.simps(2))
  moreover have "keeps s s8" using k6 7(2) 8(2) by (simp add: keeps_def)
  moreover have "bn_disk ?m7 = bn_disk m" by simp
  ultimately show ?thesis using 8(3) by blast
qed

lemma interrupts_ok:
  assumes b: "bench_contract P view exec latency elapse B" and v: "disk_service exec dma"
    and r: "rests view u m s" and fuel: "latency < fuel"
  shows "\<exists>t m'. case_interrupts P fuel dma s = (Done (), t) \<and> keeps s t \<and> rests view 1 m' t
    \<and> bn_disk m' = bn_disk m"
proof -
  define s2 where "s2 = s\<lparr>dev := reg_write P 0x1000201c 1 (reg_write P 0x10000004 8 (dev s)),
      io := io s @ [RegWrite 0x10000004 8, RegWrite 0x1000201c 1]\<rparr>"
  have w: "bv_phase (view d) = Idle \<Longrightarrow> view (reg_write P 0x10000004 8 d) = view d"
    "bv_phase (view d) = Idle \<Longrightarrow>
       view (reg_write P 0x1000201c 1 d) = (view d)\<lparr>bv_media := (bv_media (view d))\<lparr>bn_irq := True\<rparr>\<rparr>" for d
    using b unfolding bench_contract_def by blast+
  let ?m2 = "m\<lparr>bn_irq := True\<rparr>"
  have r2: "rests view u ?m2 s2" using r by (simp add: rests_def s2_def w)
  let ?m3 = "?m2\<lparr>bn_buffer := bn_disk ?m2 0 0\<rparr>"
  let ?m4 = "?m3\<lparr>bn_buffer := bn_disk ?m3 1 0\<rparr>"
  from irq_round_ok [OF b r2 service_read [OF v, of 0 0 ?m2] _ fuel] obtain s3 where
    3: "irq_round P fuel dma 0 s2 = (Done None, s3)" "keeps s2 s3" "rests view 0 ?m3 s3" by auto
  from irq_round_ok [OF b 3(3) service_read [OF v, of 1 0 ?m3] _ fuel] obtain s4 where
    4: "irq_round P fuel dma 1 s3 = (Done None, s4)" "keeps s3 s4" "rests view 1 ?m4 s4" by auto
  have "for_cmd (irq_round P fuel dma) 0 2 s2 = (Done None, s4)"
    using for_cmd_step [of 0 2 "irq_round P fuel dma" s2 s3] for_cmd_step [of 1 2 "irq_round P fuel dma" s3 s4]
      3(1) 4(1) by (simp add: for_cmd_done)
  then have "case_interrupts P fuel dma s = (Done (), s4)"
    by (simp add: case_interrupts_def bind_write reg_addrs s2_def [symmetric]
        bind_def [of "for_cmd b i n" for b i n] ret_def bind_def [of "\<lambda>s. (Done x, s)" for x])
      (simp add: bind_def ret_def)
  moreover have "keeps s s4" using 3(2) 4(2) by (simp add: keeps_def s2_def)
  moreover have "bn_disk ?m4 = bn_disk m" by simp
  ultimately show ?thesis using 4(3) by blast
qed

text \<open>The driver on this controller, one call of the service.\<close>

lemma driver_ok:
  assumes b: "bench_contract P view exec latency elapse B" and r: "rests view u m s"
    and fuel: "latency < fuel"
  shows "\<exists>t. minemu_block_read P fuel unit lba n dma s = (Done (fst (exec 1 unit lba n dma m)), t)
      \<and> keeps s t \<and> rests view unit (snd (exec 1 unit lba n dma m)) t"
    and "\<exists>t. minemu_block_write P fuel unit lba n dma s = (Done (fst (exec 2 unit lba n dma m)), t)
      \<and> keeps s t \<and> rests view unit (snd (exec 2 unit lba n dma m)) t"
proof -
  have c: "block_contract P view exec latency" using b by (simp add: bench_contract_def)
  have st: "bv_phase (view (dev s)) = Idle" "bv_media (view (dev s)) = m" using r by (simp_all add: rests_def)
  have tr: "minemu_block_transfer P fuel command unit lba n dma s = (Done x, t) \<Longrightarrow> keeps s t" for command x t
    using checks_transfer(1) [of P fuel command unit lba n dma, unfolded checks_def, rule_format, of s]
    by (auto simp: keeps_def)
  show "\<exists>t. minemu_block_read P fuel unit lba n dma s = (Done (fst (exec 1 unit lba n dma m)), t)
      \<and> keeps s t \<and> rests view unit (snd (exec 1 unit lba n dma m)) t"
    unfolding minemu_block_read_def
    using transfer_serves [OF c st(1) fuel, of 1 unit lba n dma] st(2) tr by (auto simp: rests_def)
  show "\<exists>t. minemu_block_write P fuel unit lba n dma s = (Done (fst (exec 2 unit lba n dma m)), t)
      \<and> keeps s t \<and> rests view unit (snd (exec 2 unit lba n dma m)) t"
    unfolding minemu_block_write_def
    using transfer_serves [OF c st(1) fuel, of 2 unit lba n dma] st(2) tr by (auto simp: rests_def)
qed

lemma part_driver_ok:
  assumes b: "bench_contract P view exec latency elapse B" and v: "disk_service exec dma"
    and r: "rests view u m s" and fuel: "latency < fuel"
  shows "\<exists>t d. case_driver P fuel B dma s = (Done (), t) \<and> keeps s t
    \<and> bv_media (view (dev s)) = m \<and> view (dev t) = d
    \<and> bn_disk (bv_media d) = (bn_disk m)(1 := (bn_disk m 1)(0 := filled 0x3c (bn_buffer m)))"
proof -
  let ?m1 = "m\<lparr>bn_buffer := filled 0x3c (bn_buffer m)\<rparr>"
  let ?m2 = "?m1\<lparr>bn_disk := (bn_disk ?m1)(1 := (bn_disk ?m1 1)(0 := bn_buffer ?m1))\<rparr>"
  let ?m3 = "?m2\<lparr>bn_buffer := filled 0 (bn_buffer ?m2)\<rparr>"
  let ?m4 = "?m3\<lparr>bn_buffer := bn_disk ?m3 1 0\<rparr>"
  have ex: "exec 2 1 0 1 dma ?m1 = (0, ?m2)" "exec 1 1 0 1 dma ?m3 = (0, ?m4)" "exec 1 2 0 1 dma ?m4 = (7, ?m4)"
    using service_write [OF v, of 1 0 ?m1] service_read [OF v, of 1 0 ?m3] service_error(4) [OF v] by auto
  from set_ok [OF b r, of "0x3c"] obtain s1 where
    1: "over_buffer (buffer_set B 0x3c) s = (Done (), s1)" "keeps s s1" "rests view u ?m1 s1" by auto
  from driver_ok(2) [OF b 1(3) fuel, of 1 0 1 dma] obtain s2 where
    2: "minemu_block_write P fuel 1 0 1 dma s1 = (Done 0, s2)" "keeps s1 s2" "rests view 1 ?m2 s2"
    unfolding ex by auto
  from set_ok [OF b 2(3), of 0] obtain s3 where
    3: "over_buffer (buffer_set B 0) s2 = (Done (), s3)" "keeps s2 s3" "rests view 1 ?m3 s3" by auto
  from driver_ok(1) [OF b 3(3) fuel, of 1 0 1 dma] obtain s4 where
    4: "minemu_block_read P fuel 1 0 1 dma s3 = (Done 0, s4)" "keeps s3 s4" "rests view 1 ?m4 s4"
    unfolding ex by auto
  have 5: "over_buffer (buffer_check P B 0x3c 42) s4 = (Done (), s4)"
    by (rule check_ok [OF b 4(3)]) (simp add: filled_def)
  from driver_ok(1) [OF b 4(3) fuel, of 2 0 1 dma] obtain s6 where
    6: "minemu_block_read P fuel 2 0 1 dma s4 = (Done 7, s6)" "keeps s4 s6" "rests view 2 ?m4 s6"
    unfolding ex by auto
  have idle: "fst (reg_read P 0x10002010 (dev s6)) AND 6 = 0"
    using b 6(3) unfolding bench_contract_def rests_def by blast
  have c: "block_contract P view exec latency" using b by (simp add: bench_contract_def)
  define s7 where "s7 = s6\<lparr>dev := snd (reg_read P 0x10002010 (dev s6)),
      io := io s6 @ [RegRead 0x10002010 (fst (reg_read P 0x10002010 (dev s6)))]\<rparr>"
  have "bv_media (view (dev s7)) = ?m4"
    using contract_status(2) [OF c, of "dev s6"] 6(3)
    by (cases "view (dev s6)"; cases "view (dev s7)") (simp add: s7_def rests_def)
  moreover have "case_driver P fuel B dma s = (Done (), s7)"
    unfolding case_driver_def require_result_def
    by (simp add: block_step 1(1) 3(1) 5 bind_def [of "minemu_block_write P f a b c d" for f a b c d] 2(1)
        bind_def [of "minemu_block_read P f a b c d" for f a b c d] 4(1) 6(1) MINEMU_REQUIRE_def ret_def
        require_read_def bind_read reg_addrs idle s7_def del: block.simps(2))
  moreover have "keeps s s7"
    using 1(2) 2(2) 3(2) 4(2) 6(2) by (simp add: keeps_def s7_def)
  ultimately show ?thesis using r by (auto simp: rests_def)
qed

lemma block_case_run:
  assumes b: "bench_contract P view exec latency elapse B"
    and v: "disk_service exec (minemu_test_paddr dma)"
    and idle: "bv_phase (view (dev s)) = Idle" "bv_unit (view (dev s)) = 0"
    and zero: "\<And>i. i < 512 \<Longrightarrow> bn_disk (bv_media (view (dev s))) 0 0 i = 0"
    and fuel: "latency < fuel"
  shows "\<exists>t. block_kernel_main P elapse fuel B dma s = (FailStop, t)
    \<and> trace_values (io t) = trace_values (io s) @ [0x20030001]
    \<and> (\<forall>i < 512. bn_disk (bv_media (view (dev t))) 0 1 i = 0xa5
         \<and> bn_disk (bv_media (view (dev t))) 1 1 i = 0x5a \<and> bn_disk (bv_media (view (dev t))) 1 0 i = 0x3c)"
proof -
  let ?p = "minemu_test_paddr dma"
  have "rests view 0 (bv_media (view (dev s))) s" using idle by (simp add: rests_def)
  from media_ok [OF b v this zero, of fuel] fuel obtain s1 m1 where
    1: "case_media P elapse fuel B ?p s = (Done (), s1)" "keeps s s1" "rests view 1 m1 s1"
      "\<And>i. i < 512 \<Longrightarrow> bn_disk m1 0 1 i = 0xa5 \<and> bn_disk m1 1 1 i = 0x5a" by auto
  from errors_ok [OF b v 1(3), of fuel] fuel obtain s2 where
    2: "case_errors P elapse fuel ?p s1 = (Done (), s2)" "keeps s1 s2" "rests view 2 m1 s2" by auto
  from busy_ok [OF b v 2(3) _ fuel] 1(4) obtain s3 m3 where
    3: "case_busy P fuel B ?p s2 = (Done (), s3)" "keeps s2 s3" "rests view 1 m3 s3" "bn_disk m3 = bn_disk m1"
    by blast
  from interrupts_ok [OF b v 3(3) fuel] obtain s4 m4 where
    4: "case_interrupts P fuel ?p s3 = (Done (), s4)" "keeps s3 s4" "rests view 1 m4 s4"
      "bn_disk m4 = bn_disk m3" by blast
  from part_driver_ok [OF b v 4(3) fuel] obtain s5 where
    5: "case_driver P fuel B ?p s4 = (Done (), s5)" "keeps s4 s5"
      "bn_disk (bv_media (view (dev s5))) = (bn_disk m4)(1 := (bn_disk m4 1)(0 := filled 0x3c (bn_buffer m4)))"
    by blast
  have tr: "view (reg_write P 0x1000f000 w d) = view d" for w d using b by (simp add: bench_contract_def)
  have "block_kernel_main P elapse fuel B dma s =
      (FailStop, s5\<lparr>dev := reg_write P 0x1000f000 0x20030001 (dev s5), io := io s5 @ [RegWrite 0x1000f000 0x20030001]\<rparr>)"
    by (simp add: block_kernel_main_def Let_def bind_def [of "case_media a b c d e" for a b c d e] 1(1)
        bind_def [of "case_errors a b c d" for a b c d] 2(1) bind_def [of "case_busy a b c d" for a b c d] 3(1)
        bind_def [of "case_interrupts a b c" for a b c] 4(1) bind_def [of "case_driver a b c d" for a b c d] 5(1)
        bind_trace minemu_fail_stop_def)
  moreover have "trace_values (io s5) = trace_values (io s)"
    using 1(2) 2(2) 3(2) 4(2) 5(2) by (simp add: keeps_def)
  ultimately show ?thesis
    using 1(4) 3(4) 4(4) 5(3) by (simp add: tr filled_def)
qed

section \<open>The properties\<close>

text \<open>A controller as the contract asks for, with two disks of zeroes.\<close>

definition sample_service :: "bench block_service" where
  "sample_service command unit lba n dma m =
     (if 1 < unit then (7, m) else if command \<noteq> 1 \<and> command \<noteq> 2 then (3, m)
      else if odd dma then (4, m) else if 1 < lba then (5, m)
      else if command = 1 then (0, m\<lparr>bn_buffer := bn_disk m unit lba\<rparr>)
      else (0, m\<lparr>bn_disk := (bn_disk m)(unit := (bn_disk m unit)(lba := bn_buffer m))\<rparr>))"

definition bench_status :: "block_phase \<Rightarrow> u32" where
  "bench_status ph = (case ph of Idle \<Rightarrow> 0 | Busy w e \<Rightarrow> if w = 0 then sample_status e else 1
     | Complete e \<Rightarrow> sample_status e)"

definition bench_tick :: "block_phase \<Rightarrow> block_phase" where
  "bench_tick ph = (case ph of Busy w e \<Rightarrow> Busy (w - 1) e | _ \<Rightarrow> ph)"

definition sample_bench :: "bench block_view platform" where
  "sample_bench = \<lparr>
     reg_read = (\<lambda>a d.
       if a = 0x10002010 then (bench_status (bv_phase d),
         d\<lparr>bv_phase := (case bv_phase d of Busy w e \<Rightarrow> if w = 0 then Complete e else Busy (w - 1) e | ph \<Rightarrow> ph)\<rparr>)
       else if a = 0x10002014 then
         (case bv_phase d of Complete e \<Rightarrow> e | _ \<Rightarrow> if bn_refused (bv_media d) then 2 else 0,
          d\<lparr>bv_phase := bench_tick (bv_phase d)\<rparr>)
       else if a = 0x10002020 then (bv_unit d, d)
       else if a = 0x10000000 then (if bn_irq (bv_media d) \<and> bv_phase d \<noteq> Idle then 8 else 0, d)
       else if a = 0x10000008 then (3, d) else (0, d)),
     reg_write = (\<lambda>a v d.
       if a = 0x10002020 then d\<lparr>bv_unit := v, bv_phase := bench_tick (bv_phase d)\<rparr>
       else if a = 0x10002004 then d\<lparr>bv_lba := v\<rparr>
       else if a = 0x10002008 then d\<lparr>bv_count := v\<rparr>
       else if a = 0x1000200c then d\<lparr>bv_dma := v\<rparr>
       else if a = 0x10002000 then (case bv_phase d of
           Busy w e \<Rightarrow> d\<lparr>bv_phase := Busy (w - 1) e, bv_media := (bv_media d)\<lparr>bn_refused := True\<rparr>\<rparr>
         | _ \<Rightarrow> start_command sample_service 31 v d)
       else if a = 0x10002018 then (case bv_phase d of
           Busy w e \<Rightarrow> d\<lparr>bv_phase := Busy (w - 1) e, bv_media := (bv_media d)\<lparr>bn_refused := False\<rparr>\<rparr>
         | _ \<Rightarrow> d\<lparr>bv_phase := Idle\<rparr>)
       else if a = 0x1000201c then d\<lparr>bv_media := (bv_media d)\<lparr>bn_irq := True\<rparr>\<rparr>
       else d) \<rparr>"

definition bench_elapse :: "nat \<Rightarrow> bench block_view \<Rightarrow> bench block_view" where
  "bench_elapse n d = (case bv_phase d of Busy w e \<Rightarrow> d\<lparr>bv_phase := Busy (w - n) e\<rparr> | _ \<Rightarrow> d)"

definition bench_buffer :: "bench block_view buffer_access" where
  "bench_buffer = \<lparr> dma_get = (\<lambda>i d. bn_buffer (bv_media d) i),
     dma_put = (\<lambda>i v d. d\<lparr>bv_media := (bv_media d)\<lparr>bn_buffer := (bn_buffer (bv_media d))(i := v)\<rparr>\<rparr>) \<rparr>"

definition bench_start :: "bench block_view machine" where
  "bench_start = \<lparr> dev = \<lparr> bv_unit = 0, bv_lba = 0, bv_count = 0, bv_dma = 0, bv_phase = Idle,
     bv_media = \<lparr> bn_disk = (\<lambda>u l i. 0), bn_buffer = (\<lambda>i. 7), bn_irq = False, bn_refused = False \<rparr> \<rparr>,
     cpsr = 0x93, io = [] \<rparr>"

lemma bench_protocol: "block_contract sample_bench (\<lambda>d. d) sample_service 31"
  unfolding block_contract_def
  by (auto simp: sample_bench_def bench_status_def bench_tick_def sample_status_def status_answer_def
      start_command_def split_def Let_def split: block_phase.splits)

lemma sample_bench_contract:
  "bench_contract sample_bench (\<lambda>d. d) sample_service 31 bench_elapse bench_buffer"
  unfolding bench_contract_def
proof (intro conjI allI impI bench_protocol)
  fix d :: "bench block_view" and v :: u32
  assume idle: "bv_phase d = Idle"
  show "let (a, d2) = reg_read sample_bench 0x10002010 (bench_elapse 30 (reg_write sample_bench 0x10002000 v d));
             (b, d3) = reg_read sample_bench 0x10002010 d2;
             (e, m) = sample_service v (bv_unit d) (bv_lba d) (bv_count d) (bv_dma d) (bv_media d)
         in a = 1 \<and> b AND 1 = 0 \<and> b AND 2 \<noteq> 0 \<and> d3 = d\<lparr>bv_phase := Complete e, bv_media := m\<rparr>"
    using idle by (simp add: sample_bench_def start_command_def bench_elapse_def bench_status_def
        sample_status_def split_def Let_def)
  show "\<exists>w. 4 \<le> w \<and> w \<le> 31 \<and> reg_write sample_bench 0x10002000 v d = start_command sample_service w v d"
    using idle by (intro exI [of _ 31]) (simp add: sample_bench_def)
qed (auto simp: sample_bench_def bench_buffer_def bench_status_def bench_tick_def split: block_phase.splits)

lemma sample_disk_service: "disk_service sample_service 0x40020000"
  by (auto simp: disk_service_def sample_service_def)

text \<open>
  C24: on a controller that serves two units of zeroed media as the contract says, the block case
  succeeds: it ends with its one success value, and leaves on the media what it wrote, through the
  registers and through the driver.
\<close>

theorem block_case_passes:
  fixes s :: "('d, 'z) machine_scheme"
  assumes "bench_contract P view exec latency elapse B" and "disk_service exec (minemu_test_paddr dma)"
    and "bv_phase (view (dev s)) = Idle" and "bv_unit (view (dev s)) = 0"
    and "\<And>i. i < 512 \<Longrightarrow> bn_disk (bv_media (view (dev s))) 0 0 i = 0"
    and "latency < fuel"
  shows "\<exists>t. block_kernel_main P elapse fuel B dma s = (FailStop, t)
    \<and> trace_values (io t) = trace_values (io s) @ [0x20030001]
    \<and> (\<forall>i < 512. bn_disk (bv_media (view (dev t))) 0 1 i = 0xa5
         \<and> bn_disk (bv_media (view (dev t))) 1 1 i = 0x5a \<and> bn_disk (bv_media (view (dev t))) 1 0 i = 0x3c)"
  using block_case_run [OF assms] .

theorem block_case_passes_witness:
  "\<exists>t. block_kernel_main sample_bench bench_elapse 32 bench_buffer 0xc0020000 bench_start = (FailStop, t)
    \<and> trace_values (io t) = [0x20030001]"
proof -
  have dma: "disk_service sample_service (minemu_test_paddr 0xc0020000)"
    using sample_disk_service by (simp add: minemu_test_paddr_def)
  from block_case_passes [OF sample_bench_contract dma, of bench_start 32]
  show ?thesis by (auto simp: bench_start_def)
qed

text \<open>
  C38: whatever the devices answer, these cases give one verdict: a run ends after tracing exactly its
  success values, or a failure code, last, after diagnostics that are not success values; a run that
  is still waiting has traced nothing.
\<close>

theorem conformance_verdicts:
  "(\<exists>vs. trace_values (io (snd (uart_kernel_main P fuel s))) = trace_values (io s) @ vs
      \<and> case_verdict [0x20010001] (fst (uart_kernel_main P fuel s)) vs)
   \<and> (\<exists>vs. trace_values (io (snd (rng_kernel_main P s))) = trace_values (io s) @ vs
      \<and> case_verdict [0x20020001, 0x20020002, 0x20020003] (fst (rng_kernel_main P s)) vs)
   \<and> (\<exists>vs. trace_values (io (snd (block_kernel_main P elapse fuel B dma s))) = trace_values (io s) @ vs
      \<and> case_verdict [0x20030001] (fst (block_kernel_main P elapse fuel B dma s)) vs)
   \<and> (\<exists>vs. trace_values (io (snd (unattached_kernel_main P elapse dma s))) = trace_values (io s) @ vs
      \<and> case_verdict [0x20030002] (fst (unattached_kernel_main P elapse dma s)) vs)"
  using concluding_uart [of P fuel] concluding_rng [of P] concluding_block [of P elapse fuel B dma]
    concluding_unattached [of P elapse dma]
  unfolding concluding_def by blast+

end
