(* ===== verification/HelloUser.thy ===== *)
theory HelloUser
  imports HelloProps Trap
begin

text \<open>
  The user side of the example and its way into the kernel: the program
  (\<^verbatim>\<open>examples/user-mode-hello/user/main.c\<close>), the system-call stub (\<^verbatim>\<open>syscall.S\<close>), the SVC trampoline
  between them and the kernel's dispatcher, and \<^verbatim>\<open>minemu_enter_user\<close> (\<^verbatim>\<open>user.S\<close>) instruction by
  instruction. The idle program \<^verbatim>\<open>user/prog/minimum-user\<close> is its last loop.
\<close>

section \<open>Entering the user program\<close>

text \<open>
  Privileged code runs in the mode whose banked stack pointer is \<open>exc_sp\<close>; \<open>entry_vaddr\<close> is in
  \<^verbatim>\<open>r0\<close> and the stack top in \<^verbatim>\<open>r1\<close>.
\<close>

definition cpsid_if :: "(('d, 'z) processor_scheme, unit) cmd" where
  "cpsid_if = modify (\<lambda>s. s\<lparr>cpsr := cpsr s OR 0xc0, io := io s @ [IrqDisable]\<rparr>)"

definition mov_lr :: "nat \<Rightarrow> (('d, 'z) processor_scheme, unit) cmd" where
  "mov_lr n = modify (\<lambda>s. s\<lparr>exc_lr := gpr s ! n\<rparr>)"

definition enter_user_code :: "(('d, 'z) processor_scheme, unit) cmd" where
  "enter_user_code = block
     [cpsid_if, mov 2 (\<lambda>s. gpr s ! 0),
      add_sp (- 8), str 1 0, mov 3 (\<lambda>s. 0), str 3 4, mov 3 exc_sp, ldm_usr 3, add_sp 8,
      mov 3 (\<lambda>s. 0x10), msr_spsr 3, mov_lr 2,
      mov 0 (\<lambda>s. 0), mov 1 (\<lambda>s. 0), mov 2 (\<lambda>s. 0), mov 3 (\<lambda>s. 0), subs_pc_lr 0]"

section \<open>System calls through the vector table\<close>

text \<open>
  The processor with the kernel's data. The dispatcher works on the frame its argument points to
  and returns the pointer; its state is the kernel's, with the devices, the status word and the
  log of the processor. The example takes no interrupts: its IRQ vector stays the weak fail-stop.
\<close>

record 'd hello_cpu = "'d processor" +
  kdata :: "'d hello_state"

text \<open>The record package does not simplify these by itself, since the kernel's data is a record over the
same base.\<close>

lemma hello_cpu_simps [simp]:
  "kdata (dev_update f1 s) = kdata s" "dev (kdata_update g s) = dev s"
  "kdata (cpsr_update f2 s) = kdata s" "cpsr (kdata_update g s) = cpsr s"
  "kdata (io_update f3 s) = kdata s" "io (kdata_update g s) = io s"
  "kdata (ram_update f4 s) = kdata s" "ram (kdata_update g s) = ram s"
  "kdata (gpr_update f5 s) = kdata s" "gpr (kdata_update g s) = gpr s"
  "kdata (pc_update f6 s) = kdata s" "pc (kdata_update g s) = pc s"
  "kdata (exc_sp_update f7 s) = kdata s" "exc_sp (kdata_update g s) = exc_sp s"
  "kdata (exc_lr_update f8 s) = kdata s" "exc_lr (kdata_update g s) = exc_lr s"
  "kdata (exc_spsr_update f9 s) = kdata s" "exc_spsr (kdata_update g s) = exc_spsr s"
  "kdata (usr_sp_update f10 s) = kdata s" "usr_sp (kdata_update g s) = usr_sp s"
  "kdata (usr_lr_update f11 s) = kdata s" "usr_lr (kdata_update g s) = usr_lr s"
  "kdata (fault_status_update f12 s) = kdata s" "fault_status (kdata_update g s) = fault_status s"
  "kdata (fault_address_update f13 s) = kdata s" "fault_address (kdata_update g s) = fault_address s"
  by (cases s, simp)+

definition kernel_view :: "'d hello_cpu \<Rightarrow> 'd hello_state" where
  "kernel_view s = (kdata s)\<lparr>dev := dev s, cpsr := cpsr s, io := io s\<rparr>"

definition set_kernel :: "'d hello_state \<Rightarrow> 'd hello_cpu \<Rightarrow> 'd hello_cpu" where
  "set_kernel k s = s\<lparr>dev := dev k, cpsr := cpsr k, io := io k, kdata := k\<rparr>"

definition in_kernel :: "('d hello_state, 'a) cmd \<Rightarrow> ('d hello_cpu, 'a) cmd" where
  "in_kernel c s = (case c (kernel_view s) of (r, k) \<Rightarrow> (r, set_kernel k s))"

definition on_frame :: "u32 \<Rightarrow> minemu_trap_frame \<Rightarrow> ('d hello_cpu, unit) cmd" where
  "on_frame p frame = modify (\<lambda>s. s\<lparr>ram := stmia p (frame_words frame) (ram s)\<rparr>)"

definition hello_on_svc :: "'d platform \<Rightarrow> u32 \<Rightarrow> ('d hello_cpu, u32) cmd" where
  "hello_on_svc P p =
     bind (gets ram) (\<lambda>m.
     bind (in_kernel (hello_svc_dispatch P (\<lambda>a. Some (m a)) (trap_frame_at m p))) (\<lambda>frame.
     bind (on_frame p frame) (\<lambda>_. ret p)))"

definition hello_handlers :: "'d platform \<Rightarrow> 'd hello_cpu handlers" where
  "hello_handlers P = \<lparr>
     on_undefined = (\<lambda>p. bind (gets ram) (\<lambda>m. in_kernel (hello_undefined_dispatch P (trap_frame_at m p)))),
     on_svc = hello_on_svc P,
     on_abort = (\<lambda>p. bind (gets ram) (\<lambda>m. in_kernel (hello_abort_dispatch P (trap_frame_at m p)))),
     on_irq = (\<lambda>p. minemu_fail_stop) \<rparr>"

section \<open>The user program\<close>

text \<open>
  \<^verbatim>\<open>minemu_hello_uart_putchar\<close>, linked at \<open>stub\<close>: the \<^verbatim>\<open>svc\<close> instruction is its third. User code
  works on the user bank of stack pointer and link register.
\<close>

definition push_r7_lr :: "(('d, 'z) processor_scheme, unit) cmd" where
  "push_r7_lr = modify (\<lambda>s. s\<lparr>usr_sp := usr_sp s - 8, ram := stmia (usr_sp s - 8) [gpr s ! 7, usr_lr s] (ram s)\<rparr>)"

definition pop_r7_pc :: "(('d, 'z) processor_scheme, unit) cmd" where
  "pop_r7_pc = modify (\<lambda>s. s\<lparr>gpr := (gpr s)[7 := ram s (usr_sp s)], pc := ram s (usr_sp s + 4),
     usr_sp := usr_sp s + 8\<rparr>)"

definition svc_at :: "'d platform \<Rightarrow> (nat \<Rightarrow> u32) \<Rightarrow> u32 \<Rightarrow> ('d hello_cpu, unit) cmd" where
  "svc_at P junk a = bind (modify (\<lambda>s. s\<lparr>pc := a\<rparr>)) (\<lambda>_. deliver P junk (hello_handlers P) Svc)"

definition minemu_hello_uart_putchar :: "'d platform \<Rightarrow> (nat \<Rightarrow> u32) \<Rightarrow> u32 \<Rightarrow> ('d hello_cpu, unit) cmd" where
  "minemu_hello_uart_putchar P junk stub = block
     [push_r7_lr, mov 7 (\<lambda>s. 1), svc_at P junk (stub + 8), pop_r7_pc]"

text \<open>
  A call from C: the argument goes to \<^verbatim>\<open>r0\<close>, the return address to the user link register. The
  second part of the program executes \<^verbatim>\<open>nop\<close> for ever.
\<close>

definition call_putchar :: "'d platform \<Rightarrow> (nat \<Rightarrow> u32) \<Rightarrow> u32 \<Rightarrow> u32 \<Rightarrow> u32 \<Rightarrow> ('d hello_cpu, unit) cmd" where
  "call_putchar P junk stub home byte =
     bind (modify (\<lambda>s. s\<lparr>gpr := (gpr s)[0 := byte], usr_lr := home\<rparr>)) (\<lambda>_.
     minemu_hello_uart_putchar P junk stub)"

definition message :: "u8 list" where
  "message = [104, 101, 108, 108, 111, 32, 119, 111, 114, 108, 100, 10, 0]"

definition idle_loop :: "nat \<Rightarrow> ('s, unit) cmd" where
  "idle_loop fuel = poll_while fuel (ret True)"

definition hello_user_main :: "'d platform \<Rightarrow> (nat \<Rightarrow> u32) \<Rightarrow> u32 \<Rightarrow> u32 \<Rightarrow> nat \<Rightarrow> ('d hello_cpu, unit) cmd" where
  "hello_user_main P junk stub home fuel =
     bind (for_cmd (\<lambda>index.
       bind (call_putchar P junk stub home (ucast (message ! unat index))) (\<lambda>_. ret (None :: unit option)))
       0 (of_nat (length message) - 1)) (\<lambda>_.
     idle_loop fuel)"

definition minimum_user_main :: "nat \<Rightarrow> ('s, unit) cmd" where
  "minimum_user_main fuel = idle_loop fuel"

section \<open>One call\<close>

lemma idle_loop_forever: "idle_loop fuel s = (OutOfFuel, s)"
  unfolding idle_loop_def by (induction fuel) (simp_all add: bind_ret)

lemma kernel_view_simps [simp]:
  "io (kernel_view s) = io s" "user_syscall_observed (kernel_view s) = user_syscall_observed (kdata s)"
  "page_directory (kernel_view s) = page_directory (kdata s)"
  "user_page_table (kernel_view s) = user_page_table (kdata s)"
  "user_image_pages (kernel_view s) = user_image_pages (kdata s)"
  "user_stack (kernel_view s) = user_stack (kdata s)"
  by (simp_all add: kernel_view_def)

text \<open>What a system call needs of the processor: user mode, and a stack and code the frame does not hit.\<close>

definition user_ready :: "u32 \<Rightarrow> 'd hello_cpu \<Rightarrow> bool" where
  "user_ready stub s \<longleftrightarrow>
     length (gpr s) = 13 \<and> cpsr s AND 0x1f = 0x10 \<and> cpsr s AND 0x20 = 0
     \<and> ram s (stub + 8) = 0xef000000
     \<and> \<not> in_frame (exc_sp s - 88) (stub + 8)
     \<and> \<not> in_frame (exc_sp s - 88) (usr_sp s - 8) \<and> \<not> in_frame (exc_sp s - 88) (usr_sp s - 4)
     \<and> stub + 8 \<noteq> usr_sp s - 8 \<and> stub + 8 \<noteq> usr_sp s - 4"

text \<open>The state after a call: only what the call is for has changed.\<close>

definition putchar_done :: "u32 \<Rightarrow> u32 \<Rightarrow> u32 \<Rightarrow> 'd hello_cpu \<Rightarrow> 'd hello_cpu \<Rightarrow> bool" where
  "putchar_done stub home byte s t \<longleftrightarrow>
     gpr t = (gpr s)[0 := 0] \<and> pc t = home \<and> cpsr t = cpsr s \<and> usr_sp t = usr_sp s \<and> exc_sp t = exc_sp s
     \<and> (\<forall>a. in_frame (exc_sp s - 88) a \<or> a = usr_sp s - 8 \<or> a = usr_sp s - 4 \<or> ram t a = ram s a)
     \<and> io t = io s @ (if user_syscall_observed (kdata s) then [] else [RegWrite 0x1000f000 0x48454c10])
         @ [RegWrite 0x10004004 byte]
     \<and> user_syscall_observed (kdata t)
     \<and> page_directory (kdata t) = page_directory (kdata s)
     \<and> user_page_table (kdata t) = user_page_table (kdata s)
     \<and> user_image_pages (kdata t) = user_image_pages (kdata s) \<and> user_stack (kdata t) = user_stack (kdata s)"

lemma svc_through:
  assumes len: "length (gpr s) = 13" and code: "ram s a = 0xef000000" "\<not> in_frame (exc_sp s - 88) a"
    and user: "cpsr s AND 0x1f = 0x10" "cpsr s AND 0x20 = 0"
    and call: "gpr s ! 7 = 1" "gpr s ! 0 \<le> 255"
  shows "\<exists>t. svc_at P junk a s = (Done (), t)
    \<and> gpr t = (gpr s)[0 := 0] \<and> pc t = a + 4 \<and> cpsr t = cpsr s \<and> usr_sp t = usr_sp s
    \<and> usr_lr t = usr_lr s \<and> exc_sp t = exc_sp s
    \<and> (\<forall>b. in_frame (exc_sp s - 88) b \<or> ram t b = ram s b)
    \<and> io t = io s @ (if user_syscall_observed (kdata s) then [] else [RegWrite 0x1000f000 0x48454c10])
        @ [RegWrite 0x10004004 (gpr s ! 0)]
    \<and> user_syscall_observed (kdata t)
    \<and> page_directory (kdata t) = page_directory (kdata s)
    \<and> user_page_table (kdata t) = user_page_table (kdata s)
    \<and> user_image_pages (kdata t) = user_image_pages (kdata s) \<and> user_stack (kdata t) = user_stack (kdata s)"
proof -
  let ?s = "s\<lparr>pc := a\<rparr>" and ?p = "exc_sp s - 88"
  let ?c = "called P Svc ?s" and ?f = "trap_frame_of Svc 0 ?s"
  have at: "trap_frame_at (ram ?c) ?p = ?f"
    using trap_frame_called [of ?s P Svc] len by (simp add: trap_frame_of_def)
  have out: "ram ?c b = ram s b" if "\<not> in_frame ?p b" for b
    using called_outside [of ?s b P Svc] len that by simp
  have fields: "tf_r ?f = gpr s" "tf_spsr ?f = cpsr s" "tf_exception_id ?f = - 3" "tf_fault_pc ?f = a"
    "tf_return_lr ?f = a + 4" "tf_user_sp ?f = usr_sp s" "tf_user_lr ?f = usr_lr s"
    by (simp_all add: trap_frame_of_def)
  have k: "io ?c = io s" "kdata ?c = kdata s"
    by (cases s, simp add: called_def take_exception_def Let_def)+
  let ?fetch = "\<lambda>b. Some (ram ?c b)"
  have pc: "putchar_call ?fetch ?f"
    using user call code out [OF code(2)] fields by (simp add: putchar_call_def)
  from svc_result [of ?fetch ?f P "kernel_view ?c"] pc fields obtain u where
    u: "hello_svc_dispatch P ?fetch ?f (kernel_view ?c) = (Done (with_r0 0 ?f), u)"
      "io u = io s @ svc_log ?fetch ?f (user_syscall_observed (kdata s))"
      "user_syscall_observed u" "page_directory u = page_directory (kdata s)"
      "user_page_table u = user_page_table (kdata s)"
      "user_image_pages u = user_image_pages (kdata s)" "user_stack u = user_stack (kdata s)"
    using k by auto
  let ?t = "(set_kernel u ?c)\<lparr>ram := stmia ?p (frame_words (with_r0 0 ?f)) (ram ?c)\<rparr>"
  have len0: "length (tf_r (with_r0 0 ?f)) = 13" using len by (simp add: with_r0_def fields)
  have run: "dispatched junk (hello_handlers P) Svc (exc_sp ?s - 88) ?c = (Done ?p, ?t)"
    using at u(1)
    by (simp add: dispatched_def hello_handlers_def hello_on_svc_def bind_gets
        bind_Done [where c = "in_kernel c" for c] in_kernel_def on_frame_def bind_modify ret_def set_kernel_def)
  have l: "length (gpr ?s) = 13" and lt: "length (gpr ?t) = 13" using len by (simp_all add: set_kernel_def)
  from deliver_result [OF l run lt] have d: "svc_at P junk a s = (Done (), resume 0 ?p ?t)"
    by (simp add: svc_at_def bind_modify)
  have rd: "trap_frame_at (ram ?t) ?p = with_r0 0 ?f" using frame_read [OF len0] by simp
  have "ram ?t b = ram s b" if "\<not> in_frame ?p b" for b
    using frame_outside [of "frame_words (with_r0 0 ?f)" ?p b "ram ?c"] length_frame_words [OF len0] that out [OF that]
    by simp
  then show ?thesis
    using d rd u(2-) pc fields
    by (intro exI [of _ "resume 0 ?p ?t"])
      (auto simp: resume_def Let_def with_r0_def svc_log_def set_kernel_def)
qed


lemma call_putchar_result:
  assumes ready: "user_ready stub s" and byte: "byte \<le> 255"
  shows "\<exists>t. call_putchar P junk stub home byte s = (Done (), t) \<and> putchar_done stub home byte s t
    \<and> user_ready stub t"
proof -
  let ?m = "stmia (usr_sp s - 8) [gpr s ! 7, home] (ram s)"
  let ?s = "s\<lparr>usr_lr := home, usr_sp := usr_sp s - 8, ram := ?m, gpr := (gpr s)[0 := byte, 7 := 1]\<rparr>"
  have len: "length (gpr s) = 13" using ready by (simp add: user_ready_def)
  have m: "?m (usr_sp s - 8) = gpr s ! 7" "?m (usr_sp s - 4) = home" "?m (stub + 8) = ram s (stub + 8)"
    "\<And>a. a \<noteq> usr_sp s - 8 \<Longrightarrow> a \<noteq> usr_sp s - 4 \<Longrightarrow> ?m a = ram s a"
    using ready by (auto simp: user_ready_def)
  from ready obtain t where
    t: "svc_at P junk (stub + 8) ?s = (Done (), t)" "gpr t = (gpr ?s)[0 := 0]" "cpsr t = cpsr s"
      "usr_sp t = usr_sp s - 8" "exc_sp t = exc_sp s"
      "\<And>b. \<not> in_frame (exc_sp s - 88) b \<Longrightarrow> ram t b = ?m b"
      "io t = io s @ (if user_syscall_observed (kdata s) then [] else [RegWrite 0x1000f000 0x48454c10])
        @ [RegWrite 0x10004004 byte]"
      "user_syscall_observed (kdata t)" "page_directory (kdata t) = page_directory (kdata s)"
      "user_page_table (kdata t) = user_page_table (kdata s)"
      "user_image_pages (kdata t) = user_image_pages (kdata s)" "user_stack (kdata t) = user_stack (kdata s)"
    using svc_through [of ?s "stub + 8" P junk] byte m(3) by (auto simp: user_ready_def)
  let ?t = "t\<lparr>gpr := (gpr t)[7 := ram t (usr_sp s - 8)], pc := ram t (usr_sp s - 4), usr_sp := usr_sp s\<rparr>"
  have stack: "ram t (usr_sp s - 8) = gpr s ! 7" "ram t (usr_sp s - 4) = home"
    using t(6) m(1,2) ready by (simp_all add: user_ready_def)
  have "call_putchar P junk stub home byte s = (Done (), ?t)"
    using t(1,4) len by (simp add: call_putchar_def minemu_hello_uart_putchar_def push_r7_lr_def mov_def
        pop_r7_pc_def bind_modify bind_Done [where c = "svc_at P junk a" for a] ret_def)
  moreover have "(gpr t)[7 := gpr s ! 7] = (gpr s)[0 := 0]"
    using t(2) len by (simp add: list_eq_iff_nth_eq nth_list_update)
  moreover have "ram ?t (stub + 8) = 0xef000000" using t(6) m(3) ready by (simp add: user_ready_def)
  moreover have "ram ?t a = ram s a"
    if "\<not> (in_frame (exc_sp s - 88) a \<or> a = usr_sp s - 8 \<or> a = usr_sp s - 4)" for a
    using t(6) [of a] m(4) [of a] that by simp
  ultimately show ?thesis
    using t(2-5,7-) stack ready by (intro exI [of _ ?t]) (auto simp: putchar_done_def user_ready_def)
qed

section \<open>The program\<close>

text \<open>The state after \<open>k\<close> calls, relative to the start of the program.\<close>

definition printed_after :: "u32 \<Rightarrow> 'd hello_cpu \<Rightarrow> u32 \<Rightarrow> 'd hello_cpu \<Rightarrow> bool" where
  "printed_after stub s k t \<longleftrightarrow>
     user_ready stub t \<and> usr_sp t = usr_sp s \<and> exc_sp t = exc_sp s \<and> cpsr t = cpsr s
     \<and> gpr t = (if k = 0 then gpr s else (gpr s)[0 := 0])
     \<and> uart_output (io t) = uart_output (io s) @ map ucast (take (unat k) message)
     \<and> trace_values (io t) = trace_values (io s) @
         (if user_syscall_observed (kdata s) \<or> k = 0 then [] else [0x48454c10])
     \<and> user_syscall_observed (kdata t) = (user_syscall_observed (kdata s) \<or> k \<noteq> 0)
     \<and> page_directory (kdata t) = page_directory (kdata s)
     \<and> user_page_table (kdata t) = user_page_table (kdata s)
     \<and> user_image_pages (kdata t) = user_image_pages (kdata s) \<and> user_stack (kdata t) = user_stack (kdata s)"

lemma printed_after_step:
  assumes p: "printed_after stub s k t" and k: "k < 12"
  shows "\<exists>u. call_putchar P junk stub home (ucast (message ! unat k)) t = (Done (), u)
    \<and> printed_after stub s (k + 1) u"
proof -
  have "(ucast (message ! unat k) :: u32) \<le> 255"
    using unsigned_less [of "message ! unat k", where ?'a = nat]
    by (simp add: word_le_nat_alt unsigned_ucast_eq take_bit_nat_eq_self)
  with call_putchar_result [of stub t] p obtain u where
    u: "call_putchar P junk stub home (ucast (message ! unat k)) t = (Done (), u)"
      "putchar_done stub home (ucast (message ! unat k)) t u" "user_ready stub u"
    unfolding printed_after_def by blast
  have n: "unat (k + 1) = Suc (unat k)" and k0: "k + 1 \<noteq> 0"
    using k unat_Suc_u32 [of k 12] by auto
  have "unat k < length message" using k by (simp add: message_def word_less_nat_alt)
  then have "printed_after stub s (k + 1) u"
    using p u(2,3) k0 by (auto simp: printed_after_def putchar_done_def n take_Suc_conv_app_nth)
  with u(1) show ?thesis by blast
qed

lemma user_main_result:
  assumes "user_ready stub s"
  shows "\<exists>t. hello_user_main P junk stub home fuel s = (OutOfFuel, t) \<and> printed_after stub s 12 t"
proof -
  let ?body = "\<lambda>index. bind (call_putchar P junk stub home (ucast (message ! unat index)))
    (\<lambda>_. ret (None :: unit option))"
  have "\<exists>t. for_cmd ?body 0 12 s = (Done None, t) \<and> printed_after stub s 12 t"
  proof (rule for_cmd_total)
    show "printed_after stub s 0 s" using assms by (simp add: printed_after_def)
    fix k t assume "0 \<le> k" "k < (12 :: u32)" "printed_after stub s k t"
    with printed_after_step [of stub s k t P junk home]
    show "\<exists>u. ?body k t = (Done None, u) \<and> printed_after stub s (k + 1) u"
      by (auto simp: bind_Done [where c = "call_putchar P junk stub home v" for v] ret_def)
  qed simp
  moreover have "of_nat (length message) - 1 = (12 :: u32)" by (simp add: message_def)
  ultimately show ?thesis
    by (auto simp: hello_user_main_def bind_Done [where c = "for_cmd b i n" for b i n] idle_loop_forever)
qed

section \<open>From the kernel to the program\<close>

text \<open>The instruction or data word the user sees at an address.\<close>

definition user_word :: "(u32 \<Rightarrow> (u8 option \<times> u32) option) \<Rightarrow> u32 \<Rightarrow> u32 option" where
  "user_word space v =
     (case (space v, space (v + 1), space (v + 2), space (v + 3)) of
        (Some (Some b0, _), Some (Some b1, _), Some (Some b2, _), Some (Some b3, _)) \<Rightarrow>
          Some (join4 b0 b1 b2 b3)
      | _ \<Rightarrow> None)"

text \<open>
  A processor on which the kernel has just started a context: its registers are those of the
  context, its exception stack lies in the kernel's half of the address space, and its memory
  shows, at the user addresses, what the page tables map there.
\<close>

definition starts_user :: "hello_symbols \<Rightarrow> 'd hello_state \<Rightarrow> user_context \<Rightarrow> 'd hello_cpu \<Rightarrow> bool" where
  "starts_user syms t c u \<longleftrightarrow>
     kdata u = t \<and> dev u = dev t \<and> io u = io t \<and> length (gpr u) = 13 \<and> take 4 (gpr u) = uc_r0_r3 c
     \<and> pc u = uc_pc c \<and> usr_sp u = uc_sp c \<and> usr_lr u = uc_lr c \<and> cpsr u = uc_cpsr c
     \<and> 0xc0000058 \<le> exc_sp u
     \<and> (\<forall>v w. 0x00400000 \<le> v \<longrightarrow> v < 0x007ff000 \<longrightarrow> v AND 3 = 0 \<longrightarrow>
          user_word (user_walk syms t) v = Some w \<longrightarrow> ram u v = w)"

lemma starts_user_exists:
  assumes "length (uc_r0_r3 c) = 4"
  shows "\<exists>u. starts_user syms t c u"
proof
  show "starts_user syms t c \<lparr> dev = dev t, cpsr = uc_cpsr c, io = io t,
     ram = (\<lambda>v. case user_word (user_walk syms t) v of Some w \<Rightarrow> w | None \<Rightarrow> 0),
     gpr = uc_r0_r3 c @ replicate 9 0, pc = uc_pc c, exc_sp = 0xc0004000, exc_lr = 0, exc_spsr = 0,
     usr_sp = uc_sp c, usr_lr = uc_lr c, fault_status = 0, fault_address = 0, kdata = t \<rparr>"
    using assms by (simp add: starts_user_def)
qed

lemma kernel_frame:
  assumes "0xc0000058 \<le> p" and "a < 0x00800000"
  shows "\<not> in_frame (p - 88) a"
proof -
  have p: "unat (p - 88) = unat p - 88" using assms(1) by (subst unat_sub_u32) (simp_all add: word_le_nat_alt)
  have "no_wrap (p - 88) 88" using assms(1) unat_u32_bound [of p] by (simp add: no_wrap_def p word_le_nat_alt)
  with assms p show ?thesis
    by (simp add: in_frame_def in_range_no_wrap word_le_nat_alt word_less_nat_alt)
qed

lemma user_word_cong:
  assumes "\<And>a. 0x00400000 \<le> a \<Longrightarrow> a < 0x00800000 \<Longrightarrow> f a = g a"
    and v: "0x00400000 \<le> v" "v < 0x007ff000"
  shows "user_word f v = user_word g v"
proof -
  have "f (v + k) = g (v + k)" if "k < 4" for k
  proof (rule assms(1))
    have "unat (v + k) = unat v + unat k"
      using v that by (intro unat_add_u32) (simp add: word_less_nat_alt)
    then show "0x00400000 \<le> v + k" "v + k < 0x00800000"
      using v that by (simp_all add: word_le_nat_alt word_less_nat_alt)
  qed
  from this [of 0] this [of 1] this [of 2] this [of 3] show ?thesis by (simp add: user_word_def)
qed

lemma started_ready:
  assumes "starts_user syms t c u" and "uc_sp c = 0x00800000" and "uc_cpsr c = 0x10"
    and code: "0x00400000 \<le> stub + 8" "stub + 8 < 0x007ff000" "(stub + 8) AND 3 = 0"
      "user_word (user_walk syms t) (stub + 8) = Some 0xef000000"
  shows "user_ready stub u"
proof -
  have "ram u (stub + 8) = 0xef000000" using assms(1) code by (simp add: starts_user_def)
  moreover have "stub + 8 < 0x00800000" using code(2) by (rule less_trans) simp
  moreover have "stub + 8 \<noteq> 0x007ffff8" "stub + 8 \<noteq> 0x007ffffc" using code(2) by auto
  ultimately show ?thesis
    using assms(1-3) kernel_frame [of "exc_sp u"] by (simp add: user_ready_def starts_user_def)
qed

section \<open>The properties\<close>

text \<open>
  C39: \<^verbatim>\<open>user.S\<close> starts the context that the kernel model's \<open>minemu_enter_user\<close> stands for: user mode
  at the entry point, with the given stack, a zero link register and zero argument registers; the
  privileged stack is as before, and of memory only the two words below it are written.
\<close>

theorem enter_user_starts:
  fixes s :: "('d, 'z) processor_scheme"
  assumes "length (gpr s) = 13"
  shows "\<exists>t. enter_user_code s = (Done (), t)
    \<and> (\<exists>c u. minemu_enter_user (gpr s ! 0) (gpr s ! 1) s = (Done c, u) \<and> io t = io u \<and> dev t = dev u
        \<and> running_context t = \<lparr> cx_r = uc_r0_r3 c @ drop 4 (gpr s), cx_pc = uc_pc c, cx_psr = uc_cpsr c,
            cx_sp = uc_sp c, cx_lr = uc_lr c \<rparr>)
    \<and> exc_sp t = exc_sp s
    \<and> (\<forall>a. a = exc_sp s - 8 \<or> a = exc_sp s - 4 \<or> ram t a = ram s a)"
proof -
  obtain r0 r1 r2 r3 rs where r: "gpr s = r0 # r1 # r2 # r3 # rs"
    using assms by (cases "gpr s"; cases "tl (gpr s)"; cases "tl (tl (gpr s))"; cases "tl (tl (tl (gpr s)))") auto
  let ?t = "s\<lparr>cpsr := 0x10, io := io s @ [IrqDisable],
     ram := (ram s)(exc_sp s - 8 := r1, exc_sp s - 4 := 0), gpr := [0, 0, 0, 0] @ rs, pc := r0,
     exc_lr := r0, exc_spsr := 0x10, usr_sp := r1, usr_lr := 0\<rparr>"
  have "enter_user_code s = (Done (), ?t)"
    by (simp add: enter_user_code_def cpsid_if_def instr_defs mov_lr_def cmd_simps r)
  then show ?thesis
    by (simp add: running_context_def minemu_enter_user_def cmd_simps r)
qed

theorem enter_user_starts_witness:
  "\<exists>t. enter_user_code sample_cpu = (Done (), t)
    \<and> running_context t = \<lparr> cx_r = [0, 0, 0, 0, 104, 105, 106, 107, 108, 109, 110, 111, 112],
        cx_pc = 100, cx_psr = 0x10, cx_sp = 101, cx_lr = 0 \<rparr>"
proof -
  have "length (gpr sample_cpu) = 13" by (simp add: sample_cpu_def)
  from enter_user_starts [OF this] show ?thesis
    by (auto simp: sample_cpu_def minemu_enter_user_def cmd_simps)
qed


text \<open>
  The user program prints its message: from user mode, with its stack and code clear of the
  kernel's exception frame, the twelve system calls through stub, trampoline and dispatcher send
  \<^verbatim>\<open>hello world\<close> and a newline to UART 0, the first call is reported on the trace port, registers, stack
  and address space are as before, and the program then idles for ever.
\<close>

theorem user_program_prints:
  assumes "user_ready stub s"
  shows "\<exists>t. hello_user_main P junk stub home fuel s = (OutOfFuel, t)
    \<and> uart_output (io t) = uart_output (io s) @ [104, 101, 108, 108, 111, 32, 119, 111, 114, 108, 100, 10]
    \<and> trace_values (io t) = trace_values (io s) @
        (if user_syscall_observed (kdata s) then [] else [0x48454c10])
    \<and> gpr t = (gpr s)[0 := 0] \<and> usr_sp t = usr_sp s \<and> cpsr t = cpsr s \<and> exc_sp t = exc_sp s
    \<and> page_directory (kdata t) = page_directory (kdata s)
    \<and> user_page_table (kdata t) = user_page_table (kdata s)
    \<and> user_image_pages (kdata t) = user_image_pages (kdata s) \<and> user_stack (kdata t) = user_stack (kdata s)"
  using user_main_result [OF assms, of P junk home fuel] by (auto simp: printed_after_def message_def)

theorem user_program_prints_witness:
  "\<exists>t. hello_user_main quiet (\<lambda>n. 7) 0x003ffff8 0x00400020 5
        (\<lparr> dev = (), cpsr = 0x10, io = [], ram = (\<lambda>a. 0xef000000), gpr = replicate 13 3, pc = 0,
           exc_sp = 0xc0004000, exc_lr = 0, exc_spsr = 0, usr_sp = 0x00800000, usr_lr = 0,
           fault_status = 0, fault_address = 0, kdata = sample_state \<rparr>) = (OutOfFuel, t)
    \<and> uart_output (io t) = [104, 101, 108, 108, 111, 32, 119, 111, 114, 108, 100, 10]"
proof -
  let ?s = "\<lparr> dev = (), cpsr = 0x10, io = [], ram = (\<lambda>a. 0xef000000), gpr = replicate 13 3, pc = 0,
           exc_sp = 0xc0004000, exc_lr = 0, exc_spsr = 0, usr_sp = 0x00800000, usr_lr = 0,
           fault_status = 0, fault_address = 0, kdata = sample_state \<rparr>"
  have "user_ready 0x003ffff8 ?s" by (simp add: user_ready_def in_frame_def in_range_def)
  from user_program_prints [OF this, of quiet "\<lambda>n. 7" "0x00400020" 5] show ?thesis by auto
qed

text \<open>
  C3: the example as a system: after a sound handoff with an acceptable module whose system-call
  stub holds the \<^verbatim>\<open>svc\<close> instruction, the kernel starts a user context, and on every processor
  that starts it with the memory the page tables map, the output of the whole run is
  \<^verbatim>\<open>hello world\<close> on UART 0 and the one trace value of the first system call.
\<close>

theorem hello_system_prints:
  assumes "statics_ok s" and "unat (bi_image_size bi) \<le> length img" and "symbols_ok syms"
    and "hello_handoff pointer bi" and "hello_module img bi = Some (m, F)"
    and "\<not> user_syscall_observed s"
    and "0x00400000 \<le> stub + 8" and "stub + 8 < 0x007ff000" and "(stub + 8) AND 3 = 0"
    and "user_word (user_space img bi m F) (stub + 8) = Some 0xef000000"
  shows "\<exists>c t. hello_kernel_main P syms img pointer bi s = (Done c, t) \<and> (\<exists>u. starts_user syms t c u)
    \<and> (\<forall>u. starts_user syms t c u \<longrightarrow>
        (\<exists>w. hello_user_main P junk stub home fuel u = (OutOfFuel, w)
          \<and> uart_output (io w) = uart_output (io s) @ [104, 101, 108, 108, 111, 32, 119, 111, 114, 108, 100, 10]
          \<and> trace_values (io w) = trace_values (io s) @ [0x48454c10]))"
proof -
  let ?c = "start_context m"
  from hello_main_entered [OF assms(1-5), of P] obtain t where
    t: "hello_kernel_main P syms img pointer bi s = (Done ?c, t)"
      "\<And>v. 0x00400000 \<le> v \<Longrightarrow> v < 0x00800000 \<Longrightarrow> user_walk syms t v = user_space img bi m F v"
      "\<not> user_syscall_observed t" "uart_output (io t) = uart_output (io s)"
      "trace_values (io t) = trace_values (io s)"
    using assms(6) unfolding start_context_def by blast
  have code: "user_word (user_walk syms t) (stub + 8) = Some 0xef000000"
    using user_word_cong [OF t(2) assms(7,8)] assms(10) by simp
  have "\<exists>w. hello_user_main P junk stub home fuel u = (OutOfFuel, w) \<and> printed_after stub u 12 w"
    if "starts_user syms t ?c u" for u
    using user_main_result [OF started_ready [OF that _ _ assms(7-9) code]]
    by (simp add: start_context_def)
  moreover have "kdata u = t \<and> io u = io t" if "starts_user syms t ?c u" for u
    using that by (simp add: starts_user_def)
  moreover have "\<exists>u. starts_user syms t ?c u"
    by (rule starts_user_exists) (simp add: start_context_def)
  ultimately show ?thesis
    using t(1,3-5)
    by (intro exI [of _ ?c] exI [of _ t]) (fastforce simp: printed_after_def message_def)
qed

theorem hello_system_prints_witness:
  "\<exists>c t u w. hello_kernel_main sample_platform sample_symbols sample_image 0xc0007000 sample_boot sample_state
      = (Done c, t) \<and> starts_user sample_symbols t c u
    \<and> hello_user_main sample_platform (\<lambda>n. 7) 0x003ffff8 0x00400020 5 u = (OutOfFuel, w)
    \<and> uart_output (io w) = [104, 101, 108, 108, 111, 32, 119, 111, 114, 108, 100, 10]
    \<and> trace_values (io w) = [0x48454c10]"
proof -
  let ?space = "user_space sample_image sample_boot sample_module sample_pages_map"
  have "image_mem sample_image 0x08000000 0x0800004c = 0" "image_mem sample_image 0x08000000 0x0800004d = 0"
    "image_mem sample_image 0x08000000 0x0800004e = 0" "image_mem sample_image 0x08000000 0x0800004f = 0xef"
    "join4 0 0 0 0xef = 0xef000000" by code_simp+
  moreover have "module_memory sample_image sample_boot sample_module v =
      overlay (user_segment sample_image sample_boot sample_segment) (\<lambda>_. 0) v" for v
    by (simp add: module_memory_def sample_segments)
  ultimately have "user_word ?space 0x00400000 = Some 0xef000000"
    by (simp add: user_word_def user_space_def sample_pages_map_def page_of_def
        user_segment_def overlay_def sample_segment_def sample_boot_def in_range_def)
  then have "user_word ?space (0x003ffff8 + 8) = Some 0xef000000" by simp
  moreover have "\<not> user_syscall_observed sample_state" by (simp add: sample_state_def)
  ultimately obtain c t where "hello_kernel_main sample_platform sample_symbols sample_image 0xc0007000
      sample_boot sample_state = (Done c, t)" "\<exists>u. starts_user sample_symbols t c u"
    "\<forall>u. starts_user sample_symbols t c u \<longrightarrow>
      (\<exists>w. hello_user_main sample_platform (\<lambda>n. 7) 0x003ffff8 0x00400020 5 u = (OutOfFuel, w)
        \<and> uart_output (io w) = uart_output (io sample_state) @ [104, 101, 108, 108, 111, 32, 119, 111, 114, 108, 100, 10]
        \<and> trace_values (io w) = trace_values (io sample_state) @ [0x48454c10])"
    using hello_system_prints [OF sample_statics sample_size sample_symbols_ok sample_handoff sample_hello,
        of "0x003ffff8" sample_platform "\<lambda>n. 7" "0x00400020" 5] by auto
  moreover have "io sample_state = []" by (simp add: sample_state_def)
  ultimately show ?thesis by auto
qed

end
