(* ===== verification/Triples.thy ===== *)
theory Triples
  imports Runtime
begin

text \<open>
  Total correctness of commands by assertions on the state before and after, for the long straight
  programs of the conformance cases: a triple says that the command returns a value, and what holds
  then.
\<close>

definition total :: "('s \<Rightarrow> bool) \<Rightarrow> ('s, 'a) cmd \<Rightarrow> ('a \<Rightarrow> 's \<Rightarrow> bool) \<Rightarrow> bool" where
  "total A c B \<longleftrightarrow> (\<forall>s. A s \<longrightarrow> (\<exists>x t. c s = (Done x, t) \<and> B x t))"

lemma totalI: "(\<And>s. A s \<Longrightarrow> \<exists>x t. c s = (Done x, t) \<and> B x t) \<Longrightarrow> total A c B"
  by (simp add: total_def)

lemma totalE:
  assumes "total A c B" and "A s"
  obtains x t where "c s = (Done x, t)" and "B x t"
  using assms by (auto simp: total_def)

lemma total_weaken:
  "total A c B \<Longrightarrow> (\<And>s. A' s \<Longrightarrow> A s) \<Longrightarrow> (\<And>x t. B x t \<Longrightarrow> B' x t) \<Longrightarrow> total A' c B'"
  by (fastforce simp: total_def)

lemma total_bind:
  assumes "total A c B" and "\<And>x. total (B x) (f x) C"
  shows "total A (bind c f) C"
proof (rule totalI)
  fix s assume "A s"
  with assms(1) obtain x t where x: "c s = (Done x, t)" "B x t" by (rule totalE)
  from assms(2) x(2) obtain y u where "f x t = (Done y, u)" "C y u" by (rule totalE)
  with x show "\<exists>y u. bind c f s = (Done y, u) \<and> C y u" by (simp add: bind_def)
qed

lemma total_block_Nil: "(\<And>s. A s \<Longrightarrow> B () s) \<Longrightarrow> total A (block []) B"
  by (simp add: total_def ret_def)

lemma total_block_Cons:
  "total A c (\<lambda>_. B) \<Longrightarrow> total B (block cs) C \<Longrightarrow> total A (block (c # cs)) C"
  unfolding block.simps by (rule total_bind)

lemma total_modify: "(\<And>s. A s \<Longrightarrow> B () (f s)) \<Longrightarrow> total A (modify f) B"
  by (simp add: total_def modify_def)

lemma total_gets: "(\<And>s. A s \<Longrightarrow> B (f s) s) \<Longrightarrow> total A (gets f) B"
  by (simp add: total_def gets_def)

lemma total_ret: "(\<And>s. A s \<Longrightarrow> B x s) \<Longrightarrow> total A (ret x) B"
  by (simp add: total_def ret_def)

lemma total_require:
  "(\<And>s. A s \<Longrightarrow> c) \<Longrightarrow> (\<And>s. A s \<Longrightarrow> B () s) \<Longrightarrow> total A (MINEMU_REQUIRE P c code) B"
  by (auto simp: total_def MINEMU_REQUIRE_def ret_def)

text \<open>A check of something read from the state.\<close>

lemma total_check:
  "(\<And>s. A s \<Longrightarrow> c (f s) \<and> B () s) \<Longrightarrow> total A (bind (gets f) (\<lambda>v. MINEMU_REQUIRE P (c v) code)) B"
  by (simp add: total_def bind_gets MINEMU_REQUIRE_def ret_def)

text \<open>The counted loop with an invariant over the index.\<close>

lemma total_for:
  assumes "\<And>s. A s \<Longrightarrow> I i s" and "i \<le> n"
    and "\<And>k. i \<le> k \<Longrightarrow> k < n \<Longrightarrow> total (I k) (body k) (\<lambda>r t. r = None \<and> I (k + 1) t)"
  shows "total A (for_cmd body i n) (\<lambda>r t. r = None \<and> I n t)"
proof (rule totalI)
  fix s assume "A s"
  have "\<exists>t. for_cmd body i n s = (Done None, t) \<and> I n t"
  proof (rule for_cmd_total)
    show "I i s" using \<open>A s\<close> by (rule assms(1))
    fix k t assume "i \<le> k" "k < n" "I k t"
    with assms(3) [of k] show "\<exists>u. body k t = (Done None, u) \<and> I (k + 1) u"
      by (fastforce simp: total_def)
  qed (rule assms(2))
  then show "\<exists>x t. for_cmd body i n s = (Done x, t) \<and> x = None \<and> I n t" by blast
qed

text \<open>A program that concludes: it runs to a trace value and stops.\<close>

lemma total_concludes:
  assumes "total A c (\<lambda>_ t. trace_values (io t) = tr)" and "A s"
  shows "\<exists>t. bind c (\<lambda>_. bind (minemu_trace_event P v) (\<lambda>_. minemu_fail_stop)) s = (FailStop, t)
    \<and> trace_values (io t) = tr @ [v]"
proof -
  from assms obtain x t where "c s = (Done x, t)" "trace_values (io t) = tr" by (rule totalE)
  then show ?thesis by (simp add: bind_Done bind_trace minemu_fail_stop_def)
qed

text \<open>Blocks in sequence.\<close>

lemma block_append_bind: "block (cs @ ds) s = bind (block cs) (\<lambda>_. block ds) s"
proof (induction cs arbitrary: s)
  case Nil
  then show ?case by (simp add: bind_ret)
next
  case (Cons c cs)
  then show ?case by (auto simp: bind_def split: prod.splits outcome.splits)
qed

lemma total_append:
  "total A (block cs) (\<lambda>_. B) \<Longrightarrow> total B (block ds) C \<Longrightarrow> total A (block (cs @ ds)) C"
  unfolding block_append_bind [abs_def] by (rule total_bind)

text \<open>A first part of a block that runs through, and a check that fails.\<close>

lemma total_run_block:
  assumes "total A (block cs) (\<lambda>_. B)" and "A s"
  obtains t where "B t" and "block (cs @ ds) s = block ds t"
proof -
  from assms obtain x t where t: "block cs s = (Done x, t)" "B t" by (rule totalE)
  with t that show ?thesis by (simp add: block_append_bind bind_Done)
qed

lemma check_fails:
  assumes "c s = (Done x, t)" and "\<not> p x"
  shows "\<exists>u. block (bind c (\<lambda>v. MINEMU_REQUIRE P (p v) code) # cs) s = (FailStop, u)
    \<and> trace_values (io u) = trace_values (io t) @ [0xf0000000 OR (code AND 0x0fffffff)]"
  using assms by (simp add: bind_bind bind_Done bind_require)

text \<open>A value that is known, and a polling loop that ends or goes round once more.\<close>

lemma total_bind_value:
  "total A c (\<lambda>u s. u = v \<and> B s) \<Longrightarrow> total B (f v) C \<Longrightarrow> total A (bind c f) C"
  by (erule total_bind) (simp add: total_def)

lemma total_poll_done:
  "total A c (\<lambda>b s. \<not> b \<and> B s) \<Longrightarrow> total A (poll_while (Suc n) c) (\<lambda>_. B)"
  by (fastforce simp: total_def bind_def ret_def)

lemma total_poll_step:
  "total A c (\<lambda>b s. b \<and> B s) \<Longrightarrow> total B (poll_while n c) C \<Longrightarrow> total A (poll_while (Suc n) c) C"
  by (fastforce simp: total_def bind_def)

end
