(* ===== verification/Paging.thy ===== *)
theory Paging
  imports Trap Triples
begin

text \<open>
  Accesses through the MMU, as the conformance cases use them: an access is granted or aborts, an
  aborted one enters the data-abort vector and is tried again when the return goes to the same
  instruction. The MMU is a parameter; its contract is what \<^verbatim>\<open>mmu.h\<close> says of directory and table
  entries, rights, Accessed and Dirty bits and fault status, together with a TLB that keeps an
  entry until it is invalidated.
\<close>

section \<open>The MMU as a parameter\<close>

datatype access_kind = Load | Store u32 | Fetch
datatype access = Granted u32 | Aborted u32

text \<open>
  Its state is part of the device state. An access from user or privileged mode takes the memory
  and may change it, by the store and by the bits of the table entry.
\<close>

record 'd mmu =
  mmu_access :: "bool \<Rightarrow> access_kind \<Rightarrow> u32 \<Rightarrow> (u32 \<Rightarrow> u32) \<Rightarrow> 'd \<Rightarrow> access \<times> (u32 \<Rightarrow> u32) \<times> 'd"
  mmu_flush :: "'d \<Rightarrow> 'd"
  mmu_root :: "u32 \<Rightarrow> 'd \<Rightarrow> 'd"

text \<open>The system-control writes of \<^verbatim>\<open>mmu.h\<close> with their effect on the MMU.\<close>

definition tlbiall :: "'d mmu \<Rightarrow> (('d, 'z) processor_scheme, unit) cmd" where
  "tlbiall M = bind minemu_mmu_tlbiall (\<lambda>_. modify (\<lambda>s. s\<lparr>dev := mmu_flush M (dev s)\<rparr>))"

definition set_ttbr0 :: "'d mmu \<Rightarrow> u32 \<Rightarrow> (('d, 'z) processor_scheme, unit) cmd" where
  "set_ttbr0 M address =
     bind (minemu_mmu_set_ttbr0 address) (\<lambda>_. modify (\<lambda>s. s\<lparr>dev := mmu_root M address (dev s)\<rparr>))"

definition in_user_mode :: "('d, 'z) processor_scheme \<Rightarrow> bool" where
  "in_user_mode s \<longleftrightarrow> cpsr s AND 0x1f = 0x10"

text \<open>
  One access instruction: \<open>Some v\<close> when it was executed, \<open>None\<close> when the handler of an abort
  stepped over it. Each attempt takes one unit of fuel.
\<close>

fun mem_access :: "'d mmu \<Rightarrow> (('d, 'z) processor_scheme, unit) cmd \<Rightarrow> nat \<Rightarrow> access_kind \<Rightarrow> u32
    \<Rightarrow> (('d, 'z) processor_scheme, u32 option) cmd" where
  "mem_access M abort 0 kind a s = (OutOfFuel, s)"
| "mem_access M abort (Suc fuel) kind a s =
     (case mmu_access M (in_user_mode s) kind a (ram s) (dev s) of
        (Granted v, m, d) \<Rightarrow> (Done (Some v), s\<lparr>ram := m, dev := d\<rparr>)
      | (Aborted status, m, d) \<Rightarrow>
          bind abort (\<lambda>_ t. if pc t = pc s then mem_access M abort fuel kind a t else (Done None, t))
            (s\<lparr>ram := m, dev := d, fault_status := status, fault_address := a\<rparr>))"

text \<open>
  A volatile read and a volatile write in C. After a read that was stepped over the register
  holds what was in it (\<open>junk\<close>).
\<close>

definition volatile_read :: "'d mmu \<Rightarrow> (('d, 'z) processor_scheme, unit) cmd \<Rightarrow> nat \<Rightarrow> u32 \<Rightarrow> u32
    \<Rightarrow> (('d, 'z) processor_scheme, u32) cmd" where
  "volatile_read M abort fuel junk a =
     bind (mem_access M abort fuel Load a) (\<lambda>r. ret (case r of Some v \<Rightarrow> v | None \<Rightarrow> junk))"

definition volatile_write :: "'d mmu \<Rightarrow> (('d, 'z) processor_scheme, unit) cmd \<Rightarrow> nat \<Rightarrow> u32 \<Rightarrow> u32
    \<Rightarrow> (('d, 'z) processor_scheme, unit) cmd" where
  "volatile_write M abort fuel a v = bind (mem_access M abort fuel (Store v) a) (\<lambda>_. ret ())"

section \<open>The contract\<close>

text \<open>What can be seen of the MMU: the directory it walks and the entries it keeps, by page.\<close>

record tlb_view =
  tv_root :: u32
  tv_cached :: "u32 \<Rightarrow> u32 option"

text \<open>A word of RAM by its physical address, seen through the direct map.\<close>

definition phys :: "(u32 \<Rightarrow> u32) \<Rightarrow> u32 \<Rightarrow> u32" where
  "phys m p = m (p + 0x80000000)"

text \<open>The table entry of a virtual address, by its place in the direct map.\<close>

definition pte_slot :: "(u32 \<Rightarrow> u32) \<Rightarrow> u32 \<Rightarrow> u32 \<Rightarrow> u32 option" where
  "pte_slot m root a =
     (let pde = phys m (root + 4 * drop_bit 22 a) in
      if pde AND 1 = 0 then None
      else Some (page_of pde + 4 * (drop_bit 12 a AND 0x3ff) + 0x80000000))"

fun right_bit :: "access_kind \<Rightarrow> u32" where
  "right_bit Load = 16"
| "right_bit (Store w) = 2"
| "right_bit Fetch = 8"

fun protection_fault :: "access_kind \<Rightarrow> u32" where
  "protection_fault Load = 2"
| "protection_fault (Store w) = 3 OR 0x200"
| "protection_fault Fetch = 4 OR 0x400"

fun translation_fault :: "access_kind \<Rightarrow> u32" where
  "translation_fault Load = 1"
| "translation_fault (Store w) = 1 OR 0x200"
| "translation_fault Fetch = 1 OR 0x400"

definition permitted :: "bool \<Rightarrow> access_kind \<Rightarrow> u32 \<Rightarrow> bool" where
  "permitted user kind pte \<longleftrightarrow> pte AND right_bit kind \<noteq> 0 \<and> (user \<longrightarrow> pte AND 4 \<noteq> 0)"

definition from_user :: "bool \<Rightarrow> u32" where
  "from_user user = (if user then 0x100 else 0)"

definition in_ram :: "u32 \<Rightarrow> bool" where
  "in_ram p \<longleftrightarrow> 0x40000000 \<le> p \<and> p < 0x44000000"

definition in_rom :: "u32 \<Rightarrow> bool" where
  "in_rom p \<longleftrightarrow> 0x08000000 \<le> p \<and> p < 0x09000000"

fun is_store :: "access_kind \<Rightarrow> bool" where
  "is_store (Store w) = True"
| "is_store _ = False"

text \<open>The access to RAM itself.\<close>

definition ram_access :: "access_kind \<Rightarrow> u32 \<Rightarrow> (u32 \<Rightarrow> u32) \<Rightarrow> access \<times> (u32 \<Rightarrow> u32)" where
  "ram_access kind p m =
     (case kind of Store w \<Rightarrow> (Granted 0, m(p + 0x80000000 := w)) | _ \<Rightarrow> (Granted (phys m p), m))"

text \<open>
  What the contract says of an access, \<open>None\<close> where it says nothing. Without a kept entry the MMU
  walks the tables: an absent entry, a missing right and a store to ROM abort and leave everything
  as it was, an access to RAM sets Accessed, a store also Dirty, and the entry is kept. With a
  kept entry only loads and fetches are specified.
\<close>

definition mmu_spec :: "bool \<Rightarrow> access_kind \<Rightarrow> u32 \<Rightarrow> (u32 \<Rightarrow> u32) \<Rightarrow> tlb_view
    \<Rightarrow> (access \<times> (u32 \<Rightarrow> u32) \<times> tlb_view) option" where
  "mmu_spec user kind a m v =
     (case tv_cached v (page_of a) of
        Some pte \<Rightarrow>
          (if \<not> is_store kind \<and> permitted user kind pte \<and> in_ram (page_of pte + page_off a)
           then Some (Granted (phys m (page_of pte + page_off a)), m, v) else None)
      | None \<Rightarrow>
          (case pte_slot m (tv_root v) a of
             None \<Rightarrow> Some (Aborted (translation_fault kind OR from_user user), m, v)
           | Some slot \<Rightarrow>
               let pte = m slot; p = page_of pte + page_off a in
               if pte AND 1 = 0 then Some (Aborted (translation_fault kind OR from_user user), m, v)
               else if \<not> permitted user kind pte \<or> is_store kind \<and> in_rom p
               then Some (Aborted (protection_fault kind OR from_user user), m, v)
               else if in_ram p
               then let pte' = pte OR 32 OR (if is_store kind then 64 else 0);
                        (r, m') = ram_access kind p (m(slot := pte'))
                    in Some (r, m', v\<lparr>tv_cached := (tv_cached v)(page_of a := Some pte')\<rparr>)
               else None))"

text \<open>
  Two questions are left to a parameter, since a case decides them: whether a new directory leaves
  the kept entries alone, and whether the invalidation drops them.
\<close>

definition mmu_behaves :: "bool \<Rightarrow> bool \<Rightarrow> 'd mmu \<Rightarrow> ('d \<Rightarrow> tlb_view) \<Rightarrow> bool" where
  "mmu_behaves keep drop_all M view \<longleftrightarrow>
     (\<forall>user kind a m d. case mmu_spec user kind a m (view d) of
        None \<Rightarrow> True
      | Some (r, m', v') \<Rightarrow> (case mmu_access M user kind a m d of (r2, m2, d2) \<Rightarrow>
          r2 = r \<and> m2 = m' \<and> view d2 = v'))
     \<and> (\<forall>d. view (mmu_flush M d) =
          (view d)\<lparr>tv_cached := if drop_all then Map.empty else tv_cached (view d)\<rparr>)
     \<and> (\<forall>r d. view (mmu_root M r d) =
          \<lparr> tv_root = r, tv_cached = if keep then tv_cached (view d) else Map.empty \<rparr>)"

definition mmu_contract :: "'d mmu \<Rightarrow> ('d \<Rightarrow> tlb_view) \<Rightarrow> bool" where
  "mmu_contract M view \<longleftrightarrow> mmu_behaves True True M view"

text \<open>An MMU that keeps the contract, whose state is what can be seen of it.\<close>

definition sample_mmu :: "tlb_view mmu" where
  "sample_mmu = \<lparr>
     mmu_access = (\<lambda>user kind a m v. case mmu_spec user kind a m v of
        None \<Rightarrow> (Aborted 5, m, v) | Some x \<Rightarrow> x),
     mmu_flush = (\<lambda>v. v\<lparr>tv_cached := Map.empty\<rparr>), mmu_root = (\<lambda>r v. v\<lparr>tv_root := r\<rparr>) \<rparr>"

lemma sample_mmu_contract: "mmu_contract sample_mmu (\<lambda>v. v)"
  by (auto simp: mmu_contract_def mmu_behaves_def sample_mmu_def split: option.splits)

lemma behaves_access:
  assumes "mmu_behaves keep drop_all M view" and "mmu_spec user kind a m (view d) = Some (r, m', v')"
  obtains d' where "mmu_access M user kind a m d = (r, m', d')" and "view d' = v'"
proof -
  obtain r2 m2 d2 where acc: "mmu_access M user kind a m d = (r2, m2, d2)"
    by (cases "mmu_access M user kind a m d")
  have "case mmu_spec user kind a m (view d) of None \<Rightarrow> True
      | Some (r, m', v') \<Rightarrow> (case mmu_access M user kind a m d of (r2, m2, d2) \<Rightarrow>
          r2 = r \<and> m2 = m' \<and> view d2 = v')"
    using assms(1) unfolding mmu_behaves_def by blast
  with assms(2) acc that show ?thesis by simp
qed

lemma behaves_flush: "mmu_behaves keep drop_all M view \<Longrightarrow>
    view (mmu_flush M d) = (view d)\<lparr>tv_cached := if drop_all then Map.empty else tv_cached (view d)\<rparr>"
  and behaves_root: "mmu_behaves keep drop_all M view \<Longrightarrow>
    view (mmu_root M r d) = \<lparr> tv_root = r, tv_cached = if keep then tv_cached (view d) else Map.empty \<rparr>"
  by (simp_all add: mmu_behaves_def)

text \<open>Instructions and accesses as state changes.\<close>

lemma tlbiall_result:
  "tlbiall M s = (Done (), s\<lparr>io := io s @ [TlbInvalidateAll], dev := mmu_flush M (dev s)\<rparr>)"
  by (simp add: tlbiall_def cmd_simps)

lemma set_ttbr0_result:
  "set_ttbr0 M a s = (Done (), s\<lparr>io := io s @ [SetTtbr0 a], dev := mmu_root M a (dev s)\<rparr>)"
  by (simp add: set_ttbr0_def minemu_mmu_set_ttbr0_def cmd_simps)

lemma access_granted:
  assumes "mmu_behaves keep drop_all M view"
    and "mmu_spec (in_user_mode s) kind a (ram s) (view (dev s)) = Some (Granted v, m, w)"
  obtains d where "mem_access M abort (Suc fuel) kind a s = (Done (Some v), s\<lparr>ram := m, dev := d\<rparr>)"
    and "view d = w"
proof -
  from assms obtain d where "mmu_access M (in_user_mode s) kind a (ram s) (dev s) = (Granted v, m, d)"
    "view d = w" by (rule behaves_access)
  with that show ?thesis by simp
qed

lemma access_aborted:
  assumes "mmu_behaves keep drop_all M view"
    and "mmu_spec (in_user_mode s) kind a (ram s) (view (dev s)) = Some (Aborted status, m, w)"
  obtains d where "mem_access M abort (Suc fuel) kind a s =
      bind abort (\<lambda>_ t. if pc t = pc s then mem_access M abort fuel kind a t else (Done None, t))
        (s\<lparr>ram := m, dev := d, fault_status := status, fault_address := a\<rparr>)"
    and "view d = w"
proof -
  from assms obtain d where "mmu_access M (in_user_mode s) kind a (ram s) (dev s) = (Aborted status, m, d)"
    "view d = w" by (rule behaves_access)
  with that show ?thesis by simp
qed

section \<open>Table entries\<close>

text \<open>The low bits of an entry made from an aligned address and flags.\<close>

lemma aligned_and: "page_of p = p \<Longrightarrow> page_of g = 0 \<Longrightarrow> p AND g = 0"
proof -
  assume p: "page_of p = p" and g: "page_of g = 0"
  have "p AND g = page_of p AND g" by (simp only: p)
  also have "\<dots> = p AND page_of g" by (simp add: page_of_def ac_simps)
  finally show "p AND g = 0" by (simp add: g)
qed

lemma entry_and: "page_of p = p \<Longrightarrow> page_of g = 0 \<Longrightarrow> (p OR f) AND g = f AND g"
  by (simp add: bit.conj_disj_distrib2 aligned_and)

lemma word_in_page:
  assumes "page_of p = p" and "i < 1024"
  shows "page_of (p + 4 * i) = p"
proof -
  have u: "unat (4 * i) = 4 * unat i"
    using assms(2) by (simp add: unat_word_ariths word_less_nat_alt)
  have p0: "unat p mod 4096 = 0" using page_off_aligned [OF assms(1)] unat_page_off [of p] by simp
  then obtain k where k: "unat p = 4096 * k" by (auto elim: dvdE simp: dvd_eq_mod_eq_0 [symmetric])
  have "unat p + 4096 \<le> 4294967296" using k unat_u32_bound [of p] by simp
  moreover have "4 * unat i < 4096" using assms(2) by (simp add: word_less_nat_alt)
  ultimately have "unat (p + 4 * i) = unat p + 4 * unat i"
    using u by (subst unat_add_u32) simp_all
  with p0 assms(2) show ?thesis by (simp add: page_of_unique word_less_nat_alt)
qed

lemma direct_paddr: "page_of a = a \<Longrightarrow> page_of (minemu_test_paddr a) = minemu_test_paddr a"
proof -
  assume "page_of a = a"
  then have "page_of (a + 4096 * 0x80000) = a + 4096 * 0x80000" by (rule aligned_add)
  moreover have "a + 4096 * 0x80000 = minemu_test_paddr a" by (simp add: minemu_test_paddr_def)
  ultimately show ?thesis by (simp only:)
qed

lemma paddr_back [simp]: "minemu_test_paddr a + 0x80000000 = a"
  by (simp add: minemu_test_paddr_def)

lemma in_ram_paddr: "0xc0000000 \<le> a \<Longrightarrow> a < 0xc4000000 \<Longrightarrow> in_ram (minemu_test_paddr a)"
proof -
  assume a: "0xc0000000 \<le> a" "a < 0xc4000000"
  then have "unat (minemu_test_paddr a) = unat a - 2147483648"
    by (simp add: minemu_test_paddr_def unat_sub_u32 word_le_nat_alt)
  with a show ?thesis by (simp add: in_ram_def word_le_nat_alt word_less_nat_alt, arith)
qed

end
