(* ===== verification/TtbrCase.thy ===== *)
theory TtbrCase
  imports Paging
begin

text \<open>
  The conformance case \<^verbatim>\<open>headless/ttbr-switch/main.c\<close>: two page directories that differ in one entry,
  and what a read through it gives after the directory is replaced, with and without an
  invalidation of the TLB in between.
\<close>

section \<open>The case\<close>

text \<open>The link addresses of the five static arrays.\<close>

record ttbr_symbols =
  root_b :: u32
  table_a :: u32
  table_b :: u32
  page_a :: u32
  page_b :: u32

abbreviation (input) "TEST_VADDR \<equiv> (0x20000000 :: u32)"
abbreviation (input) "root_a \<equiv> (0xc0010000 :: u32)"
abbreviation (input) "PAGE_FLAGS \<equiv> (0x13 :: u32)"

definition ttbr_copy :: "ttbr_symbols \<Rightarrow> u32 \<Rightarrow> (('d, 'z) processor_scheme, unit option) cmd" where
  "ttbr_copy S i =
     bind (store_field (root_b S + 4 * i) (\<lambda>s. ram s (root_a + 4 * i))) (\<lambda>_.
     bind (store_field (table_a S + 4 * i) (\<lambda>s. 0)) (\<lambda>_.
     bind (store_field (table_b S + 4 * i) (\<lambda>s. 0)) (\<lambda>_. ret None)))"

definition ttbr_tables :: "ttbr_symbols \<Rightarrow> (('d, 'z) processor_scheme, unit) cmd" where
  "ttbr_tables S =
     bind (for_cmd (ttbr_copy S) 0 1024) (\<lambda>_. block
     [store_field (page_a S) (\<lambda>s. 0xaaaaaaaa),
      store_field (page_b S) (\<lambda>s. 0xbbbbbbbb),
      store_field (table_a S) (\<lambda>s. minemu_test_paddr (page_a S) OR PAGE_FLAGS),
      store_field (table_b S) (\<lambda>s. minemu_test_paddr (page_b S) OR PAGE_FLAGS),
      store_field (root_a + 4 * drop_bit 22 TEST_VADDR) (\<lambda>s. minemu_test_paddr (table_a S) OR 1),
      store_field (root_b S + 4 * drop_bit 22 TEST_VADDR) (\<lambda>s. minemu_test_paddr (table_b S) OR 1)])"

definition require_test :: "'d platform \<Rightarrow> 'd mmu \<Rightarrow> (('d, 'z) processor_scheme, unit) cmd \<Rightarrow> nat \<Rightarrow> u32
    \<Rightarrow> u32 \<Rightarrow> u32 \<Rightarrow> (('d, 'z) processor_scheme, unit) cmd" where
  "require_test P M abort fuel junk expected code =
     bind (volatile_read M abort fuel junk TEST_VADDR) (\<lambda>v. MINEMU_REQUIRE P (v = expected) code)"

definition ttbr_kernel_main :: "'d platform \<Rightarrow> 'd mmu \<Rightarrow> (('d, 'z) processor_scheme, unit) cmd \<Rightarrow> nat \<Rightarrow> u32
    \<Rightarrow> ttbr_symbols \<Rightarrow> (('d, 'z) processor_scheme, unit) cmd" where
  "ttbr_kernel_main P M abort fuel junk S = block
     [ttbr_tables S,
      tlbiall M,
      require_test P M abort fuel junk 0xaaaaaaaa 1,
      set_ttbr0 M (minemu_test_paddr (root_b S)),
      require_test P M abort fuel junk 0xaaaaaaaa 2,
      tlbiall M,
      require_test P M abort fuel junk 0xbbbbbbbb 3,
      set_ttbr0 M 0x40010000,
      tlbiall M,
      require_test P M abort fuel junk 0xaaaaaaaa 4,
      minemu_trace_event P 0x20040001,
      minemu_fail_stop]"

section \<open>The tables it builds\<close>

text \<open>The arrays and the boot directory are pages of their own in the direct map.\<close>

definition ttbr_linked :: "ttbr_symbols \<Rightarrow> bool" where
  "ttbr_linked S \<longleftrightarrow>
     distinct [root_a, root_b S, table_a S, table_b S, page_a S, page_b S]
     \<and> list_all (\<lambda>p. page_of p = p \<and> 0xc0000000 \<le> p \<and> p < 0xc4000000)
         [root_b S, table_a S, table_b S, page_a S, page_b S]"

lemma other_page: "page_of a = p \<Longrightarrow> page_of b = q \<Longrightarrow> p \<noteq> q \<Longrightarrow> a \<noteq> b"
  by blast

text \<open>The state in which the checks run, for a directory and the entry the TLB keeps.\<close>

definition ttbr_ready :: "('d \<Rightarrow> tlb_view) \<Rightarrow> ttbr_symbols \<Rightarrow> u32 list \<Rightarrow> u32 \<Rightarrow> u32 option
    \<Rightarrow> ('d, 'z) processor_scheme \<Rightarrow> bool" where
  "ttbr_ready view S tr root entry s \<longleftrightarrow>
     \<not> in_user_mode s \<and> trace_values (io s) = tr
     \<and> tv_root (view (dev s)) = root \<and> tv_cached (view (dev s)) TEST_VADDR = entry
     \<and> ram s (root_a + 0x200) = minemu_test_paddr (table_a S) OR 1
     \<and> ram s (root_b S + 0x200) = minemu_test_paddr (table_b S) OR 1
     \<and> ram s (table_a S) OR 32 = minemu_test_paddr (page_a S) OR 0x33
     \<and> ram s (table_b S) OR 32 = minemu_test_paddr (page_b S) OR 0x33
     \<and> ram s (page_a S) = 0xaaaaaaaa \<and> ram s (page_b S) = 0xbbbbbbbb"

lemma linked_apart:
  assumes "ttbr_linked S"
  shows "root_a \<noteq> root_b S" "root_a \<noteq> table_a S" "root_a \<noteq> table_b S" "root_a \<noteq> page_a S" "root_a \<noteq> page_b S"
    "root_b S \<noteq> table_a S" "root_b S \<noteq> table_b S" "root_b S \<noteq> page_a S" "root_b S \<noteq> page_b S" "table_a S \<noteq> table_b S" "table_a S \<noteq> page_a S" "table_a S \<noteq> page_b S"
    "table_b S \<noteq> page_a S" "table_b S \<noteq> page_b S"
    "page_a S \<noteq> page_b S"
    "root_b S + 0x200 \<noteq> 0xc0010200" "root_b S + 0x200 \<noteq> page_a S" "root_b S + 0x200 \<noteq> page_b S"
    "root_b S + 0x200 \<noteq> table_a S" "root_b S + 0x200 \<noteq> table_b S"
    "0xc0010200 \<noteq> page_a S" "0xc0010200 \<noteq> page_b S" "0xc0010200 \<noteq> table_a S" "0xc0010200 \<noteq> table_b S"
proof -
  have al: "page_of (root_b S) = root_b S" "page_of (table_a S) = table_a S" "page_of (table_b S) = table_b S"
    "page_of (page_a S) = page_a S" "page_of (page_b S) = page_b S"
    using assms by (simp_all add: ttbr_linked_def)
  have sl: "page_of (root_b S + 0x200) = root_b S" "page_of (0xc0010200 :: u32) = root_a"
    using word_in_page [OF al(1), of "0x80"] by (simp_all add: page_of_def)
  have dist: "distinct [root_a, root_b S, table_a S, table_b S, page_a S, page_b S]"
    using assms by (simp add: ttbr_linked_def)
  then show "root_a \<noteq> root_b S" "root_a \<noteq> table_a S" "root_a \<noteq> table_b S" "root_a \<noteq> page_a S" "root_a \<noteq> page_b S"
    "root_b S \<noteq> table_a S" "root_b S \<noteq> table_b S" "root_b S \<noteq> page_a S" "root_b S \<noteq> page_b S" "table_a S \<noteq> table_b S" "table_a S \<noteq> page_a S" "table_a S \<noteq> page_b S"
    "table_b S \<noteq> page_a S" "table_b S \<noteq> page_b S"
    "page_a S \<noteq> page_b S"
    by simp_all
  from dist show "root_b S + 0x200 \<noteq> 0xc0010200" "root_b S + 0x200 \<noteq> page_a S" "root_b S + 0x200 \<noteq> page_b S"
    "root_b S + 0x200 \<noteq> table_a S" "root_b S + 0x200 \<noteq> table_b S"
    "0xc0010200 \<noteq> page_a S" "0xc0010200 \<noteq> page_b S" "0xc0010200 \<noteq> table_a S" "0xc0010200 \<noteq> table_b S"
    using other_page [OF sl(1) sl(2)] other_page [OF sl(1) al(4)] other_page [OF sl(1) al(5)]
      other_page [OF sl(1) al(2)] other_page [OF sl(1) al(3)] other_page [OF sl(2) al(4)]
      other_page [OF sl(2) al(5)] other_page [OF sl(2) al(2)] other_page [OF sl(2) al(3)]
    by simp_all
qed

lemma tables_built:
  assumes "ttbr_linked S"
  shows "total (\<lambda>s. \<not> in_user_mode s \<and> trace_values (io s) = tr \<and> tv_root (view (dev s)) = root
      \<and> tv_cached (view (dev s)) TEST_VADDR = entry)
    (ttbr_tables S) (\<lambda>_. ttbr_ready view S tr root entry)"
proof -
  let ?A = "\<lambda>s. \<not> in_user_mode s \<and> trace_values (io s) = tr \<and> tv_root (view (dev s)) = root
      \<and> tv_cached (view (dev s)) TEST_VADDR = entry"
  have or: "(minemu_test_paddr p OR 0x13) OR 32 = minemu_test_paddr p OR 0x33" for p
    by (simp add: or.assoc)
  have "total ?A (for_cmd (ttbr_copy S) 0 1024) (\<lambda>r t. r = None \<and> ?A t)"
    by (rule total_for [where I = "\<lambda>k. ?A"])
      (simp_all add: total_def ttbr_copy_def store_field_def cmd_simps in_user_mode_def)
  then show ?thesis
    unfolding ttbr_tables_def
  proof (rule total_bind)
    fix r :: "unit option"
    show "total (\<lambda>t. r = None \<and> ?A t) (block
       [store_field (page_a S) (\<lambda>s. 0xaaaaaaaa), store_field (page_b S) (\<lambda>s. 0xbbbbbbbb),
        store_field (table_a S) (\<lambda>s. minemu_test_paddr (page_a S) OR PAGE_FLAGS),
        store_field (table_b S) (\<lambda>s. minemu_test_paddr (page_b S) OR PAGE_FLAGS),
        store_field (root_a + 4 * drop_bit 22 TEST_VADDR) (\<lambda>s. minemu_test_paddr (table_a S) OR 1),
        store_field (root_b S + 4 * drop_bit 22 TEST_VADDR) (\<lambda>s. minemu_test_paddr (table_b S) OR 1)])
       (\<lambda>_. ttbr_ready view S tr root entry)"
      using linked_apart [OF assms] linked_apart [OF assms, THEN not_sym]
      by (simp add: total_def store_field_def cmd_simps ttbr_ready_def in_user_mode_def or)
  qed
qed

section \<open>The reads\<close>

lemma paddr_offset: "0x80000200 + minemu_test_paddr a = a + 0x200"
  by (simp add: minemu_test_paddr_def)

lemma ready_walk:
  assumes "ttbr_ready view S tr root entry s" and "ttbr_linked S"
    and "root = 0x40010000 \<and> T = table_a S \<and> W = page_a S
      \<or> root = minemu_test_paddr (root_b S) \<and> T = table_b S \<and> W = page_b S"
  shows "pte_slot (ram s) root TEST_VADDR = Some T" and "ram s T OR 32 = minemu_test_paddr W OR 0x33"
    and "page_of W = W" and "in_ram (minemu_test_paddr W)"
proof -
  have al: "page_of T = T" "page_of W = W" "0xc0000000 \<le> W" "W < 0xc4000000"
    using assms(2,3) by (auto simp: ttbr_linked_def)
  have pde: "phys (ram s) (root + 0x200) = minemu_test_paddr T OR 1"
    using assms(1,3) by (auto simp: ttbr_ready_def phys_def paddr_offset)
  have "page_of (minemu_test_paddr T OR 1) = minemu_test_paddr T"
    using direct_paddr [OF al(1)] by (rule pte_parts) (simp add: page_of_def)
  moreover have "(minemu_test_paddr T OR 1) AND 1 = 1"
    using entry_and [OF direct_paddr [OF al(1)], of 1 1] by (simp add: page_of_def)
  ultimately show "pte_slot (ram s) root TEST_VADDR = Some T"
    using pde by (simp add: pte_slot_def Let_def)
  show "ram s T OR 32 = minemu_test_paddr W OR 0x33"
    using assms(1,3) by (auto simp: ttbr_ready_def)
  show "page_of W = W" by (rule al(2))
  show "in_ram (minemu_test_paddr W)" using al(3,4) by (rule in_ram_paddr)
qed

text \<open>A read through the directory in force, when the TLB keeps nothing, and through a kept entry.\<close>

lemma read_walks:
  fixes abort :: "(('d, 'z) processor_scheme, unit) cmd"
  assumes "mmu_behaves keep drop_all M view" and link: "ttbr_linked S"
    and sel: "root = 0x40010000 \<and> T = table_a S \<and> W = page_a S \<and> v = 0xaaaaaaaa
      \<or> root = minemu_test_paddr (root_b S) \<and> T = table_b S \<and> W = page_b S \<and> v = 0xbbbbbbbb"
  shows "total (ttbr_ready view S tr root None) (volatile_read M abort (Suc fuel) junk TEST_VADDR)
    (\<lambda>x t. x = v \<and> ttbr_ready view S tr root (Some (minemu_test_paddr W OR 0x33)) t)"
proof (rule totalI)
  fix s :: "('d, 'z) processor_scheme"
  assume r: "ttbr_ready view S tr root None s"
  have sel': "root = 0x40010000 \<and> T = table_a S \<and> W = page_a S
      \<or> root = minemu_test_paddr (root_b S) \<and> T = table_b S \<and> W = page_b S" using sel by blast
  note w = ready_walk [OF r link sel']
  have "page_of (ram s T OR 32) = minemu_test_paddr W" "(ram s T OR 32) AND 1 = 1" "(ram s T OR 32) AND 16 = 16"
    unfolding w(2) using direct_paddr [OF w(3)] by (simp_all add: pte_parts entry_and page_of_def [of 51] page_of_def [of 1] page_of_def [of 16])
  then have pte: "page_of (ram s T) = minemu_test_paddr W" "ram s T AND 1 \<noteq> 0" "ram s T AND 16 \<noteq> 0"
    by (auto simp: page_of_or page_of_def [of 32] bit.conj_disj_distrib2)
  have ap: "W \<noteq> T" using sel linked_apart [OF link] linked_apart [OF link, THEN not_sym] by auto
  let ?m = "(ram s)(T := ram s T OR 32)"
  have "mmu_spec (in_user_mode s) Load TEST_VADDR (ram s) (view (dev s)) =
      Some (Granted (?m W), ?m, (view (dev s))\<lparr>tv_cached :=
        (tv_cached (view (dev s)))(TEST_VADDR := Some (minemu_test_paddr W OR 0x33))\<rparr>)"
    using r w pte by (simp add: mmu_spec_def ttbr_ready_def page_of_def [of TEST_VADDR] page_off_def
        permitted_def Let_def ram_access_def phys_def)
  then obtain d where d: "mem_access M abort (Suc fuel) Load TEST_VADDR s =
      (Done (Some (?m W)), s\<lparr>ram := ?m, dev := d\<rparr>)"
    "view d = (view (dev s))\<lparr>tv_cached :=
        (tv_cached (view (dev s)))(TEST_VADDR := Some (minemu_test_paddr W OR 0x33))\<rparr>"
    by (rule access_granted [OF assms(1)])
  moreover have "ttbr_ready view S tr root (Some (minemu_test_paddr W OR 0x33)) (s\<lparr>ram := ?m, dev := d\<rparr>)"
    using r d(2) sel linked_apart [OF link] linked_apart [OF link, THEN not_sym]
    by (auto simp: ttbr_ready_def in_user_mode_def or.assoc)
  moreover have "?m W = v" using r sel ap by (auto simp: ttbr_ready_def)
  ultimately show "\<exists>x t. volatile_read M abort (Suc fuel) junk TEST_VADDR s = (Done x, t)
      \<and> x = v \<and> ttbr_ready view S tr root (Some (minemu_test_paddr W OR 0x33)) t"
    by (simp add: volatile_read_def bind_Done ret_def)
qed

lemma read_kept:
  fixes abort :: "(('d, 'z) processor_scheme, unit) cmd"
  assumes "mmu_behaves keep drop_all M view" and link: "ttbr_linked S"
  shows "total (ttbr_ready view S tr root (Some (minemu_test_paddr (page_a S) OR 0x33)))
    (volatile_read M abort (Suc fuel) junk TEST_VADDR)
    (\<lambda>x t. x = 0xaaaaaaaa \<and> ttbr_ready view S tr root (Some (minemu_test_paddr (page_a S) OR 0x33)) t)"
proof (rule totalI)
  let ?e = "minemu_test_paddr (page_a S) OR 0x33"
  fix s :: "('d, 'z) processor_scheme"
  assume r: "ttbr_ready view S tr root (Some ?e) s"
  have "page_of (page_a S) = page_a S" and "in_ram (minemu_test_paddr (page_a S))"
    using link in_ram_paddr by (simp_all add: ttbr_linked_def)
  then have "page_of ?e = minemu_test_paddr (page_a S)" "?e AND 16 \<noteq> 0" "in_ram (page_of ?e)"
    using direct_paddr [of "page_a S"] by (simp_all add: pte_parts entry_and page_of_def [of 51] page_of_def [of 16])
  then have "mmu_spec (in_user_mode s) Load TEST_VADDR (ram s) (view (dev s)) =
      Some (Granted (ram s (page_a S)), ram s, view (dev s))"
    using r by (simp add: mmu_spec_def ttbr_ready_def page_of_def [of TEST_VADDR] page_off_def
        permitted_def phys_def)
  then obtain d where "mem_access M abort (Suc fuel) Load TEST_VADDR s =
      (Done (Some (ram s (page_a S))), s\<lparr>ram := ram s, dev := d\<rparr>)" "view d = view (dev s)"
    by (rule access_granted [OF assms(1)])
  with r show "\<exists>x t. volatile_read M abort (Suc fuel) junk TEST_VADDR s = (Done x, t)
      \<and> x = 0xaaaaaaaa \<and> ttbr_ready view S tr root (Some ?e) t"
    by (simp add: volatile_read_def bind_Done ret_def ttbr_ready_def in_user_mode_def)
qed

lemma flushed:
  fixes M :: "'d mmu"
  assumes "mmu_behaves keep drop_all M view"
  shows "total (ttbr_ready view S tr root entry) (tlbiall M :: (('d, 'z) processor_scheme, unit) cmd)
    (\<lambda>_. ttbr_ready view S tr root (if drop_all then None else entry))"
  using behaves_flush [OF assms] by (simp add: total_def tlbiall_result ttbr_ready_def in_user_mode_def)

lemma switched:
  fixes M :: "'d mmu"
  assumes "mmu_behaves keep drop_all M view"
  shows "total (ttbr_ready view S tr root entry) (set_ttbr0 M root' :: (('d, 'z) processor_scheme, unit) cmd)
    (\<lambda>_. ttbr_ready view S tr root' (if keep then entry else None))"
  using behaves_root [OF assms] by (simp add: total_def set_ttbr0_result ttbr_ready_def in_user_mode_def)

lemma test_passes:
  "total A (volatile_read M abort fuel junk TEST_VADDR) (\<lambda>x t. x = v \<and> B t) \<Longrightarrow>
   total A (require_test P M abort fuel junk v code) (\<lambda>_. B)"
  unfolding require_test_def by (erule total_bind) (rule total_require; simp)

lemma test_fails:
  assumes "total A (volatile_read M abort fuel junk TEST_VADDR) (\<lambda>x t. x = v \<and> ttbr_ready view S tr root e t)"
    and "A t" and "v \<noteq> expected"
  shows "\<exists>u. block (require_test P M abort fuel junk expected code # cs) t = (FailStop, u)
    \<and> trace_values (io u) = tr @ [0xf0000000 OR (code AND 0x0fffffff)]"
proof -
  from assms(1,2) obtain x u where "volatile_read M abort fuel junk TEST_VADDR t = (Done x, u)"
    "x = v" "trace_values (io u) = tr" by (rule totalE) (auto simp: ttbr_ready_def)
  with assms(3) show ?thesis
    by (simp add: require_test_def bind_bind bind_Done [where c = "volatile_read M abort fuel junk a" for a]
        bind_require)
qed

section \<open>What the case decides\<close>

definition ttbr_verdict :: "bool \<Rightarrow> bool \<Rightarrow> u32" where
  "ttbr_verdict keep drop_all = (if \<not> keep then 0xf0000002 else if \<not> drop_all then 0xf0000003 else 0x20040001)"

text \<open>The part before the check that looks for a kept translation, and the part behind it.\<close>

lemma ttbr_start_runs:
  assumes M: "mmu_behaves keep drop_all M view" and link: "ttbr_linked S"
  shows "total (\<lambda>s :: ('d, 'z) processor_scheme. \<not> in_user_mode s \<and> trace_values (io s) = tr
      \<and> tv_root (view (dev s)) = 0x40010000 \<and> tv_cached (view (dev s)) TEST_VADDR = None)
    (block [ttbr_tables S, tlbiall M, require_test P M abort (Suc n) junk 0xaaaaaaaa 1,
      set_ttbr0 M (minemu_test_paddr (root_b S))])
    (\<lambda>_. ttbr_ready view S tr (minemu_test_paddr (root_b S))
      (if keep then Some (minemu_test_paddr (page_a S) OR 0x33) else None))"
  using tables_built [OF link] flushed [OF M, where entry = None, simplified] switched [OF M]
    test_passes [OF read_walks [OF M link, where root = "0x40010000" and T = "table_a S" and W = "page_a S"
      and v = "0xaaaaaaaa" and tr = tr and abort = abort and fuel = n and junk = junk, simplified], of P 1]
  by (intro total_block_Cons total_block_Nil) (assumption | simp)+

lemma ttbr_rest_runs:
  assumes M: "mmu_behaves True True M view" and link: "ttbr_linked S"
  shows "total (ttbr_ready view S tr (minemu_test_paddr (root_b S)) (Some (minemu_test_paddr (page_a S) OR 0x33))
      :: ('d, 'z) processor_scheme \<Rightarrow> bool)
    (block [require_test P M abort (Suc n) junk 0xaaaaaaaa 2, tlbiall M,
      require_test P M abort (Suc n) junk 0xbbbbbbbb 3, set_ttbr0 M 0x40010000, tlbiall M,
      require_test P M abort (Suc n) junk 0xaaaaaaaa 4])
    (\<lambda>_. ttbr_ready view S tr 0x40010000 (Some (minemu_test_paddr (page_a S) OR 0x33)))"
proof -
  let ?R = "ttbr_ready view S tr :: u32 \<Rightarrow> u32 option \<Rightarrow> ('d, 'z) processor_scheme \<Rightarrow> bool"
    and ?b = "minemu_test_paddr (root_b S)"
  have fl: "total (?R r (Some e)) (tlbiall M :: (('d, 'z) processor_scheme, unit) cmd) (\<lambda>_. ?R r None)" for r e
    using flushed [OF M, of S tr r "Some e"] by simp
  have sw: "total (?R ?b e) (set_ttbr0 M 0x40010000 :: (('d, 'z) processor_scheme, unit) cmd)
      (\<lambda>_. ?R 0x40010000 e)" for e
    using switched [OF M, of S tr ?b e "0x40010000"] by simp
  note walk_a = read_walks [OF M link, where root = "0x40010000" and T = "table_a S" and W = "page_a S"
      and v = "0xaaaaaaaa" and tr = tr and abort = abort and fuel = n and junk = junk, simplified]
  note walk_b = read_walks [OF M link, where root = ?b and T = "table_b S" and W = "page_b S"
      and v = "0xbbbbbbbb" and tr = tr and abort = abort and fuel = n and junk = junk, simplified]
  note hit = read_kept [OF M link, where root = ?b and tr = tr and abort = abort and fuel = n and junk = junk]
  show ?thesis
    by (rule total_block_Cons [OF test_passes [OF hit]], rule total_block_Cons [OF fl],
        rule total_block_Cons [OF test_passes [OF walk_b]], rule total_block_Cons [OF sw],
        rule total_block_Cons [OF fl], rule total_block_Cons [OF test_passes [OF walk_a]],
        rule total_block_Nil)
qed

text \<open>
  C28: on an MMU that keeps the contract of \<^verbatim>\<open>mmu.h\<close>, the case ends with its success value exactly
  when replacing the directory leaves the kept translation in force and the invalidation drops it;
  otherwise it ends with the code of the check that saw the difference.
\<close>

theorem ttbr_case_decides:
  fixes s :: "('d, 'z) processor_scheme"
  assumes M: "mmu_behaves keep drop_all M view" and link: "ttbr_linked S"
    and "\<not> in_user_mode s" and "tv_root (view (dev s)) = 0x40010000"
    and "tv_cached (view (dev s)) 0x20000000 = None" and "0 < fuel"
  shows "\<exists>t. ttbr_kernel_main P M abort fuel junk S s = (FailStop, t)
    \<and> trace_values (io t) = trace_values (io s) @ [ttbr_verdict keep drop_all]"
proof -
  obtain n where n: "fuel = Suc n" using assms(6) by (cases fuel) auto
  let ?tr = "trace_values (io s)" and ?e = "minemu_test_paddr (page_a S) OR 0x33"
    and ?b = "minemu_test_paddr (root_b S)"
  let ?test = "require_test P M abort fuel junk :: u32 \<Rightarrow> u32 \<Rightarrow> (('d, 'z) processor_scheme, unit) cmd"
  let ?R = "ttbr_ready view S ?tr :: u32 \<Rightarrow> u32 option \<Rightarrow> ('d, 'z) processor_scheme \<Rightarrow> bool"
  let ?A = "\<lambda>s :: ('d, 'z) processor_scheme. \<not> in_user_mode s \<and> trace_values (io s) = ?tr
      \<and> tv_root (view (dev s)) = 0x40010000 \<and> tv_cached (view (dev s)) TEST_VADDR = None"
  have A: "?A s" using assms by simp
  note walk_b = read_walks [OF M link, where root = ?b and T = "table_b S" and W = "page_b S"
      and v = "0xbbbbbbbb" and tr = ?tr and abort = abort and fuel = n and junk = junk, folded n, simplified]
  note hit = read_kept [OF M link, where tr = ?tr and abort = abort and fuel = n and junk = junk, folded n]
  have start: "total ?A (block [ttbr_tables S, tlbiall M, ?test 0xaaaaaaaa 1, set_ttbr0 M ?b])
      (\<lambda>_. ?R ?b (if keep then Some ?e else None))"
    unfolding n by (rule ttbr_start_runs [OF M link])
  show ?thesis
  proof (cases keep)
    case False
    obtain t where t: "?R ?b None t"
      "ttbr_kernel_main P M abort fuel junk S s = block (?test 0xaaaaaaaa 2 # [tlbiall M, ?test 0xbbbbbbbb 3,
        set_ttbr0 M 0x40010000, tlbiall M, ?test 0xaaaaaaaa 4, minemu_trace_event P 0x20040001, minemu_fail_stop]) t"
      using total_run_block [OF start A] False by (simp add: ttbr_kernel_main_def del: block.simps) blast
    show ?thesis
      unfolding t(2) using test_fails [OF walk_b t(1), of "0xaaaaaaaa" P 2] False
      by (simp add: ttbr_verdict_def del: block.simps)
  next
    case True
    note test2 = test_passes [OF hit [where root = ?b], of P 2]
    show ?thesis
    proof (cases drop_all)
      case False
      have "total ?A (block ([ttbr_tables S, tlbiall M, ?test 0xaaaaaaaa 1, set_ttbr0 M ?b] @
          [?test 0xaaaaaaaa 2, tlbiall M])) (\<lambda>_. ?R ?b (Some ?e))"
      proof (rule total_append)
        show "total (?R ?b (Some ?e)) (block [?test 0xaaaaaaaa 2, tlbiall M]) (\<lambda>_. ?R ?b (Some ?e))"
          using flushed [OF M, of S ?tr ?b "Some ?e"] False
          by (intro total_block_Cons [OF test2] total_block_Cons total_block_Nil) simp_all
      qed (use start True in \<open>simp only: if_True\<close>)
      from total_run_block [OF this A] obtain t where t: "?R ?b (Some ?e) t"
        "ttbr_kernel_main P M abort fuel junk S s = block (?test 0xbbbbbbbb 3 # [set_ttbr0 M 0x40010000, tlbiall M,
          ?test 0xaaaaaaaa 4, minemu_trace_event P 0x20040001, minemu_fail_stop]) t"
        by (simp add: ttbr_kernel_main_def del: block.simps) blast
      show ?thesis
        unfolding t(2) using test_fails [OF hit t(1), of "0xbbbbbbbb" P 3] True False
        by (simp add: ttbr_verdict_def del: block.simps)
    next
      case drop: True
      have "total ?A (block ([ttbr_tables S, tlbiall M, ?test 0xaaaaaaaa 1, set_ttbr0 M ?b] @
          [?test 0xaaaaaaaa 2, tlbiall M, ?test 0xbbbbbbbb 3, set_ttbr0 M 0x40010000, tlbiall M,
           ?test 0xaaaaaaaa 4])) (\<lambda>_. ?R 0x40010000 (Some ?e))"
      proof (rule total_append)
        have "mmu_behaves True True M view" using M True drop by simp
        from ttbr_rest_runs [OF this link] show "total (?R ?b (Some ?e)) (block [?test 0xaaaaaaaa 2, tlbiall M,
            ?test 0xbbbbbbbb 3, set_ttbr0 M 0x40010000, tlbiall M, ?test 0xaaaaaaaa 4])
            (\<lambda>_. ?R 0x40010000 (Some ?e))" by (simp add: n)
      qed (use start True in \<open>simp only: if_True\<close>)
      from total_run_block [OF this A] obtain t where "?R 0x40010000 (Some ?e) t"
        "ttbr_kernel_main P M abort fuel junk S s = block [minemu_trace_event P 0x20040001, minemu_fail_stop] t"
        by (simp add: ttbr_kernel_main_def del: block.simps) blast
      with True drop show ?thesis
        by (simp add: bind_trace bind_fail_stop ttbr_verdict_def ttbr_ready_def)
    qed
  qed
qed

definition sample_ttbr :: ttbr_symbols where
  "sample_ttbr = \<lparr> root_b = 0xc0101000, table_a = 0xc0102000, table_b = 0xc0103000,
     page_a = 0xc0104000, page_b = 0xc0105000 \<rparr>"

definition mmu_platform :: "tlb_view platform" where
  "mmu_platform = \<lparr> reg_read = (\<lambda>a d. (0, d)), reg_write = (\<lambda>a v d. d) \<rparr>"

definition mmu_cpu :: "tlb_view processor" where
  "mmu_cpu = \<lparr> dev = \<lparr> tv_root = 0x40010000, tv_cached = Map.empty \<rparr>, cpsr = 0x13, io = [],
     ram = (\<lambda>a. 0), gpr = replicate 13 0, pc = 0xc0001000, exc_sp = 0xc0200000, exc_lr = 0, exc_spsr = 0,
     usr_sp = 0, usr_lr = 0, fault_status = 0, fault_address = 0 \<rparr>"

lemma sample_mmu_behaves: "mmu_behaves True True sample_mmu (\<lambda>v. v)"
  using sample_mmu_contract by (simp add: mmu_contract_def)

theorem ttbr_case_decides_witness:
  "\<exists>t. ttbr_kernel_main mmu_platform sample_mmu minemu_fail_stop 1 0 sample_ttbr mmu_cpu = (FailStop, t)
    \<and> trace_values (io t) = [0x20040001]"
proof -
  have 1: "ttbr_linked sample_ttbr" by code_simp
  have 2: "\<not> in_user_mode mmu_cpu" "tv_root (dev mmu_cpu) = 0x40010000"
    "tv_cached (dev mmu_cpu) 0x20000000 = None" "io mmu_cpu = []"
    by (simp_all add: mmu_cpu_def in_user_mode_def)
  from ttbr_case_decides [OF sample_mmu_behaves 1 2(1-3), of 1 mmu_platform minemu_fail_stop 0] 2(4)
  show ?thesis by (simp add: ttbr_verdict_def)
qed

end
