(* ===== verification/MmuCase.thy ===== *)
theory MmuCase
  imports Paging
begin

text \<open>
  The conformance case \<^verbatim>\<open>headless/mmu/main.c\<close>: rights, Accessed and Dirty bits and aborts of one
  mapped word. Its abort dispatcher runs on a real trap frame: every abort goes through the vector,
  the trampoline of \<open>Trap\<close> and restored to the access.
\<close>

section \<open>The case\<close>

text \<open>The statics: the arrays at their link addresses \<open>table\<close> and \<open>page\<close>, and the stage.\<close>

record 'd mmu_state = "'d processor" +
  fault_stage :: u32

abbreviation (input) "TEST_VADDR \<equiv> (0x20000000 :: u32)"
abbreviation (input) "METADATA \<equiv> (0xa80 :: u32)"
abbreviation (input) "PTE_VALID \<equiv> (1 :: u32)"
abbreviation (input) "PTE_WRITABLE \<equiv> (2 :: u32)"
abbreviation (input) "PTE_READABLE \<equiv> (16 :: u32)"
abbreviation (input) "ACCESSED_DIRTY \<equiv> (32 OR 64 :: u32)"

definition mmu_abort_dispatch :: "'d platform \<Rightarrow> 'd mmu \<Rightarrow> u32 \<Rightarrow> u32 \<Rightarrow> ('d mmu_state, unit) cmd" where
  "mmu_abort_dispatch P M table frame =
     bind (gets (\<lambda>s. trap_frame_at (ram s) frame)) (\<lambda>f.
     bind (only_if (tf_exception_id f \<noteq> MINEMU_EXCEPTION_DATA_ABORT)
       (bind (minemu_trace_event P (0xe0060000 OR push_bit 8 (tf_exception_id f AND 0xff)
          OR (tf_dfsr f AND 0xff))) (\<lambda>_. minemu_conformance_fail P 20))) (\<lambda>_.
     bind (MINEMU_REQUIRE P (tf_dfar f = TEST_VADDR) 21) (\<lambda>_.
     bind (gets (\<lambda>s. ram s table)) (\<lambda>pte.
     bind (MINEMU_REQUIRE P (pte AND ACCESSED_DIRTY = 0) 22) (\<lambda>_.
     bind (gets fault_stage) (\<lambda>stage.
     bind (if stage = 1 then
             bind (MINEMU_REQUIRE P (tf_dfsr f = 2) 23) (\<lambda>_.
             store_field table (\<lambda>s. ram s table OR PTE_READABLE))
           else if stage = 2 then
             bind (MINEMU_REQUIRE P (tf_dfsr f = 0x203) 24) (\<lambda>_.
             store_field table (\<lambda>s. ram s table OR PTE_WRITABLE))
           else if stage = 3 then
             bind (MINEMU_REQUIRE P (tf_dfsr f = 0x203) 25) (\<lambda>_.
             store_field (frame + 52) (\<lambda>s. ram s (frame + 52) + 4))
           else minemu_conformance_fail P 26) (\<lambda>_.
     bind (tlbiall M) (\<lambda>_.
     modify (\<lambda>s. s\<lparr>fault_stage := 0\<rparr>)))))))))"

definition mmu_handlers :: "'d platform \<Rightarrow> 'd mmu \<Rightarrow> u32 \<Rightarrow> 'd mmu_state handlers" where
  "mmu_handlers P M table = \<lparr> on_undefined = (\<lambda>p. minemu_fail_stop), on_svc = (\<lambda>p. minemu_fail_stop),
     on_abort = mmu_abort_dispatch P M table, on_irq = (\<lambda>p. minemu_fail_stop) \<rparr>"

definition set_stage :: "u32 \<Rightarrow> ('d mmu_state, unit) cmd" where
  "set_stage v = modify (\<lambda>s. s\<lparr>fault_stage := v\<rparr>)"

text \<open>A check of a static word, of the stage, and of a read through the mapping.\<close>

definition require_word :: "'d platform \<Rightarrow> u32 \<Rightarrow> (u32 \<Rightarrow> bool) \<Rightarrow> u32 \<Rightarrow> ('d mmu_state, unit) cmd" where
  "require_word P a c code = bind (gets (\<lambda>s. ram s a)) (\<lambda>v. MINEMU_REQUIRE P (c v) code)"

definition require_stage :: "'d platform \<Rightarrow> u32 \<Rightarrow> ('d mmu_state, unit) cmd" where
  "require_stage P code = bind (gets fault_stage) (\<lambda>v. MINEMU_REQUIRE P (v = 0) code)"

definition require_read_of :: "'d platform \<Rightarrow> ('d mmu_state, u32) cmd \<Rightarrow> u32 \<Rightarrow> u32 \<Rightarrow> ('d mmu_state, unit) cmd" where
  "require_read_of P c expected code = bind c (\<lambda>v. MINEMU_REQUIRE P (v = expected) code)"

definition clear_table :: "u32 \<Rightarrow> ('d mmu_state, unit) cmd" where
  "clear_table table =
     bind (for_cmd (\<lambda>i. bind (store_field (table + 4 * i) (\<lambda>s. 0)) (\<lambda>_. ret (None :: unit option))) 0 1024)
       (\<lambda>_. ret ())"

text \<open>The parts of the main function, in the order of the source.\<close>

definition mmu_set_up :: "'d mmu \<Rightarrow> u32 \<Rightarrow> u32 \<Rightarrow> ('d mmu_state, unit) cmd list" where
  "mmu_set_up M table page =
     [clear_table table,
      store_field (0xc0010000 + 4 * drop_bit 22 TEST_VADDR) (\<lambda>s. minemu_test_paddr table OR 1),
      store_field table (\<lambda>s. minemu_test_paddr page OR PTE_VALID OR PTE_READABLE OR PTE_WRITABLE OR METADATA),
      tlbiall M]"

definition mmu_bits :: "'d platform \<Rightarrow> 'd mmu \<Rightarrow> ('d mmu_state, unit) cmd \<Rightarrow> nat \<Rightarrow> u32 \<Rightarrow> u32 \<Rightarrow> u32
    \<Rightarrow> ('d mmu_state, unit) cmd list" where
  "mmu_bits P M abort fuel junk table page =
     [volatile_write M abort fuel TEST_VADDR 0x12345678,
      require_word P page (\<lambda>v. v = 0x12345678) 1,
      require_word P table (\<lambda>v. v AND ACCESSED_DIRTY = ACCESSED_DIRTY) 2,
      require_word P table (\<lambda>v. v AND push_bit 7 0x1f = METADATA) 3,
      store_field table (\<lambda>s. ram s table AND NOT ACCESSED_DIRTY),
      tlbiall M,
      require_read_of P (volatile_read M abort fuel junk TEST_VADDR) 0x12345678 4,
      require_word P table (\<lambda>v. v AND 32 \<noteq> 0) 5,
      require_word P table (\<lambda>v. v AND 64 = 0) 6]"

definition mmu_faults :: "'d platform \<Rightarrow> 'd mmu \<Rightarrow> ('d mmu_state, unit) cmd \<Rightarrow> nat \<Rightarrow> u32 \<Rightarrow> u32 \<Rightarrow> u32
    \<Rightarrow> ('d mmu_state, unit) cmd list" where
  "mmu_faults P M abort fuel junk table page =
     [store_field table (\<lambda>s. minemu_test_paddr page OR PTE_VALID OR PTE_WRITABLE OR METADATA),
      tlbiall M,
      set_stage 1,
      require_read_of P (volatile_read M abort fuel junk TEST_VADDR) 0x12345678 7,
      require_stage P 8,
      store_field table (\<lambda>s. minemu_test_paddr page OR PTE_VALID OR PTE_READABLE OR METADATA),
      tlbiall M,
      set_stage 2,
      volatile_write M abort fuel TEST_VADDR 0x87654321,
      require_word P page (\<lambda>v. v = 0x87654321) 9,
      require_stage P 10,
      store_field table (\<lambda>s. 0x08000000 OR PTE_VALID OR PTE_READABLE OR PTE_WRITABLE),
      tlbiall M,
      set_stage 3,
      volatile_write M abort fuel TEST_VADDR 0,
      require_stage P 11]"

definition mmu_kernel_main :: "'d platform \<Rightarrow> 'd mmu \<Rightarrow> (nat \<Rightarrow> u32) \<Rightarrow> nat \<Rightarrow> u32 \<Rightarrow> u32 \<Rightarrow> u32
    \<Rightarrow> ('d mmu_state, unit) cmd" where
  "mmu_kernel_main P M junk fuel old table page =
     (let abort = deliver P junk (mmu_handlers P M table) Data_abort in
      bind (block (mmu_set_up M table page @ mmu_bits P M abort fuel old table page
             @ mmu_faults P M abort fuel old table page)) (\<lambda>_.
      bind (minemu_trace_event P 0x20060001) (\<lambda>_. minemu_fail_stop)))"

section \<open>Assertions\<close>

text \<open>The arrays are pages in the direct map, and the abort stack's next frame is elsewhere.\<close>

definition mmu_linked :: "u32 \<Rightarrow> u32 \<Rightarrow> u32 \<Rightarrow> bool" where
  "mmu_linked table page sp \<longleftrightarrow>
     page_of table = table \<and> page_of page = page \<and> 0xc0000000 \<le> page \<and> page < 0xc4000000 \<and> table \<noteq> page
     \<and> \<not> in_frame (sp - 88) table \<and> \<not> in_frame (sp - 88) page \<and> \<not> in_frame (sp - 88) 0xc0010200"

record mmu_facts =
  fa_entry :: "u32 option"
  fa_pte :: u32
  fa_word :: u32
  fa_stage :: u32

definition mmu_at :: "('d \<Rightarrow> tlb_view) \<Rightarrow> u32 \<Rightarrow> u32 \<Rightarrow> u32 \<Rightarrow> u32 list \<Rightarrow> mmu_facts \<Rightarrow> 'd mmu_state \<Rightarrow> bool" where
  "mmu_at view table page sp tr f s \<longleftrightarrow>
     length (gpr s) = 13 \<and> exc_sp s = sp \<and> \<not> in_user_mode s \<and> trace_values (io s) = tr
     \<and> tv_root (view (dev s)) = 0x40010000 \<and> tv_cached (view (dev s)) TEST_VADDR = fa_entry f
     \<and> ram s 0xc0010200 = minemu_test_paddr table OR 1
     \<and> ram s table = fa_pte f \<and> ram s page = fa_word f \<and> fault_stage s = fa_stage f"

lemma linked_slots:
  assumes "mmu_linked table page sp"
  shows "0xc0010200 \<noteq> table" "0xc0010200 \<noteq> page" "table \<noteq> page"
    "table \<noteq> 0xc0010200" "page \<noteq> 0xc0010200" "page \<noteq> table"
  using assms by (auto simp: mmu_linked_def page_of_def)

text \<open>The walk ends at the first word of the table.\<close>

lemma walk_slot:
  assumes "mmu_at view table page sp tr f s" and "mmu_linked table page sp"
  shows "pte_slot (ram s) (tv_root (view (dev s))) TEST_VADDR = Some table"
proof -
  have "page_of table = table" using assms(2) by (simp add: mmu_linked_def)
  then have "page_of (minemu_test_paddr table OR 1) = minemu_test_paddr table"
    "(minemu_test_paddr table OR 1) AND 1 = 1"
    using direct_paddr [of table] by (simp_all add: pte_parts entry_and page_of_def [of 1])
  with assms(1) show ?thesis by (simp add: pte_slot_def mmu_at_def phys_def)
qed

text \<open>What the contract says of an access to the test word when the TLB keeps nothing.\<close>

lemma spec_fault:
  assumes "mmu_at view table page sp tr f s" and "mmu_linked table page sp"
    and "fa_entry f = None" and "fa_pte f AND 1 \<noteq> 0"
    and "fa_pte f AND right_bit kind = 0 \<or> is_store kind \<and> in_rom (page_of (fa_pte f))"
  shows "mmu_spec (in_user_mode s) kind TEST_VADDR (ram s) (view (dev s)) =
    Some (Aborted (protection_fault kind), ram s, view (dev s))"
  using assms walk_slot [OF assms(1,2)]
  by (auto simp: mmu_spec_def mmu_at_def page_of_def [of TEST_VADDR] page_off_def permitted_def from_user_def Let_def)

lemma spec_grants:
  assumes "mmu_at view table page sp tr f s" and link: "mmu_linked table page sp"
    and "fa_entry f = None" and "fa_pte f AND 1 \<noteq> 0" and "fa_pte f AND right_bit kind \<noteq> 0"
    and "page_of (fa_pte f) = minemu_test_paddr page"
  shows "mmu_spec (in_user_mode s) kind TEST_VADDR (ram s) (view (dev s)) =
    (let pte = fa_pte f OR 32 OR (if is_store kind then 64 else 0);
         (r, m) = ram_access kind (minemu_test_paddr page) ((ram s)(table := pte))
     in Some (r, m, (view (dev s))\<lparr>tv_cached := (tv_cached (view (dev s)))(TEST_VADDR := Some pte)\<rparr>))"
proof -
  have "0xc0000000 \<le> page" "page < 0xc4000000" using link by (simp_all add: mmu_linked_def)
  then have ram: "in_ram (minemu_test_paddr page)" by (rule in_ram_paddr)
  then have "\<not> in_rom (minemu_test_paddr page)"
    by (auto simp: in_ram_def in_rom_def word_le_nat_alt word_less_nat_alt)
  with ram show ?thesis
    using assms walk_slot [OF assms(1,2)]
    by (simp add: mmu_spec_def mmu_at_def page_of_def [of TEST_VADDR] page_off_def permitted_def Let_def)
qed

section \<open>Accesses\<close>

text \<open>A granted write and a granted read.\<close>

lemma write_granted:
  assumes M: "mmu_contract M view" and link: "mmu_linked table page sp"
    and at: "mmu_at view table page sp tr f s" and f: "fa_entry f = None" "fa_pte f AND 1 \<noteq> 0"
      "fa_pte f AND 2 \<noteq> 0" "page_of (fa_pte f) = minemu_test_paddr page"
  shows "\<exists>t. mem_access M abort (Suc fuel) (Store v) TEST_VADDR s = (Done (Some 0), t)
    \<and> mmu_at view table page sp tr (f\<lparr>fa_entry := Some (fa_pte f OR 32 OR 64), fa_pte := fa_pte f OR 32 OR 64,
        fa_word := v\<rparr>) t"
proof -
  have "mmu_spec (in_user_mode s) (Store v) TEST_VADDR (ram s) (view (dev s)) =
      Some (Granted 0, (ram s)(table := fa_pte f OR 32 OR 64, page := v),
        (view (dev s))\<lparr>tv_cached := (tv_cached (view (dev s)))(TEST_VADDR := Some (fa_pte f OR 32 OR 64))\<rparr>)"
    using spec_grants [OF at link f(1,2), of "Store v"] f by (simp add: ram_access_def Let_def)
  from access_granted [OF M [unfolded mmu_contract_def] this, where abort = abort and fuel = fuel]
  obtain d where d: "mem_access M abort (Suc fuel) (Store v) TEST_VADDR s =
      (Done (Some 0), s\<lparr>ram := (ram s)(table := fa_pte f OR 32 OR 64, page := v), dev := d\<rparr>)"
    "view d = (view (dev s))\<lparr>tv_cached := (tv_cached (view (dev s)))(TEST_VADDR := Some (fa_pte f OR 32 OR 64))\<rparr>"
    by blast
  then show ?thesis
    using at linked_slots [OF link] by (simp add: mmu_at_def in_user_mode_def)
qed

lemma read_granted:
  assumes M: "mmu_contract M view" and link: "mmu_linked table page sp"
    and at: "mmu_at view table page sp tr f s" and f: "fa_entry f = None" "fa_pte f AND 1 \<noteq> 0"
      "fa_pte f AND 16 \<noteq> 0" "page_of (fa_pte f) = minemu_test_paddr page"
  shows "\<exists>t. mem_access M abort (Suc fuel) Load TEST_VADDR s = (Done (Some (fa_word f)), t)
    \<and> mmu_at view table page sp tr (f\<lparr>fa_entry := Some (fa_pte f OR 32), fa_pte := fa_pte f OR 32\<rparr>) t"
proof -
  have "ram s page = fa_word f" using at by (simp add: mmu_at_def)
  then have "mmu_spec (in_user_mode s) Load TEST_VADDR (ram s) (view (dev s)) =
      Some (Granted (fa_word f), (ram s)(table := fa_pte f OR 32),
        (view (dev s))\<lparr>tv_cached := (tv_cached (view (dev s)))(TEST_VADDR := Some (fa_pte f OR 32))\<rparr>)"
    using spec_grants [OF at link f(1,2), of Load] f linked_slots [OF link]
    by (simp add: ram_access_def phys_def Let_def)
  from access_granted [OF M [unfolded mmu_contract_def] this, where abort = abort and fuel = fuel]
  obtain d where d: "mem_access M abort (Suc fuel) Load TEST_VADDR s =
      (Done (Some (fa_word f)), s\<lparr>ram := (ram s)(table := fa_pte f OR 32), dev := d\<rparr>)"
    "view d = (view (dev s))\<lparr>tv_cached := (tv_cached (view (dev s)))(TEST_VADDR := Some (fa_pte f OR 32))\<rparr>"
    by blast
  then show ?thesis
    using at linked_slots [OF link] by (simp add: mmu_at_def in_user_mode_def)
qed

section \<open>Aborts\<close>

text \<open>
  What the dispatcher does in each stage: the new table entry, the status it expects, and whether
  it steps over the access.
\<close>

fun repaired :: "u32 \<Rightarrow> u32 \<Rightarrow> u32" where
  "repaired stage pte = (if stage = 1 then pte OR 16 else if stage = 2 then pte OR 2 else pte)"

definition expected_status :: "u32 \<Rightarrow> u32" where
  "expected_status stage = (if stage = 1 then 2 else 0x203)"

text \<open>The abort as a whole: through the vector, the dispatcher, and restored.\<close>

lemma abort_handled:
  assumes M: "mmu_contract M view" and link: "mmu_linked table page sp"
    and at: "mmu_at view table page sp tr f s"
    and pte: "fa_pte f AND 32 = 0" "fa_pte f AND 64 = 0" and stage: "fa_stage f \<in> {1, 2, 3}"
    and fault: "fault_status s = expected_status (fa_stage f)" "fault_address s = TEST_VADDR"
  shows "\<exists>t. deliver P junk (mmu_handlers P M table) Data_abort s = (Done (), t)
    \<and> mmu_at view table page sp tr (f\<lparr>fa_entry := None, fa_pte := repaired (fa_stage f) (fa_pte f), fa_stage := 0\<rparr>) t
    \<and> pc t = (if fa_stage f = 3 then pc s + 4 else pc s)"
proof -
  let ?p = "sp - 88" and ?c = "called P Data_abort s" and ?F = "trap_frame_of Data_abort (claimed_of P s) s"
  have len: "length (gpr s) = 13" and sp: "exc_sp s = sp" using at by (simp_all add: mmu_at_def)
  have frame: "trap_frame_at (ram ?c) ?p = ?F"
    using trap_frame_called [OF len, of P Data_abort] by (simp add: sp)
  have out: "ram ?c a = ram s a" if "\<not> in_frame ?p a" for a
    using called_outside [OF len, of a P Data_abort] that by (simp add: sp)
  have nf: "\<not> in_frame ?p table" "\<not> in_frame ?p page" "\<not> in_frame ?p 0xc0010200"
    using link by (simp_all add: mmu_linked_def)
  have c: "fault_stage ?c = fa_stage f" "dev ?c = dev s" "io ?c = io s"
    using at by (simp_all add: called_def take_exception_def Let_def mmu_at_def)
  have pc: "ram ?c table = fa_pte f" using out [OF nf(1)] at by (simp add: mmu_at_def)
  have F: "tf_exception_id ?F = - 1" "tf_dfar ?F = TEST_VADDR" "tf_dfsr ?F = expected_status (fa_stage f)"
    "tf_return_lr ?F = pc s + 8" "tf_spsr ?F = cpsr s" "tf_r ?F = gpr s"
    using fault by (simp_all add: trap_frame_of_def)
  have ad: "fa_pte f AND (32 OR 64) = 0" using pte by (simp only: bit.conj_disj_distrib) simp
  have lr: "ram ?c (?p + 52) = pc s + 8"
    using arg_cong [OF frame, of tf_return_lr] F(4) by (simp add: trap_frame_at_def)
  let ?m = "if fa_stage f = 3 then (ram ?c)(?p + 52 := pc s + 8 + 4)
            else (ram ?c)(table := repaired (fa_stage f) (fa_pte f))"
  let ?t = "?c\<lparr>ram := ?m, io := io s @ [TlbInvalidateAll], dev := mmu_flush M (dev s), fault_stage := 0\<rparr>"
  have run: "mmu_abort_dispatch P M table ?p ?c = (Done (), ?t)"
    using stage pc ad c lr F frame
    by (auto simp: mmu_abort_dispatch_def cmd_simps store_field_def expected_status_def
        bind_Done [OF tlbiall_result])
  have table: "table \<noteq> ?p + 52"
    using nf(1) in_frame_fields(1) [of ?p] by blast
  have words: "page \<noteq> ?p + 52" "0xc0010200 \<noteq> ?p + 52"
    using nf(2,3) in_frame_fields(1) [of ?p] by metis+
  have restored: "trap_frame_at ?m ?p = ?F\<lparr>tf_return_lr := if fa_stage f = 3 then pc s + 12 else pc s + 8\<rparr>"
  proof (cases "fa_stage f = 3")
    case True
    then show ?thesis using frame_fields(1) [of "ram ?c" ?p "12 + pc s"] frame by (simp add: add.commute)
  next
    case False
    have "trap_frame_at ((ram ?c)(table := v)) ?p = trap_frame_at (ram ?c) ?p" for v
      using nf(1) by (intro trap_frame_cong) auto
    with False frame F(4) show ?thesis by simp
  qed
  have "dispatched junk (mmu_handlers P M table) Data_abort (exc_sp s - 88) ?c = (Done ?p, ?t)"
    using run by (simp add: dispatched_def mmu_handlers_def sp bind_Done ret_def)
  from deliver_result [OF len this] len have d:
    "deliver P junk (mmu_handlers P M table) Data_abort s = (Done (), resume 8 ?p ?t)"
    by (simp add: sp)
  have "mmu_at view table page sp tr
      (f\<lparr>fa_entry := None, fa_pte := repaired (fa_stage f) (fa_pte f), fa_stage := 0\<rparr>) (resume 8 ?p ?t)"
    using at restored F(5,6) out [OF nf(2)] out [OF nf(3)] pc table words linked_slots [OF link]
      behaves_flush [OF M [unfolded mmu_contract_def]]
    by (auto simp: mmu_at_def resume_def Let_def in_user_mode_def)
  moreover have "pc (resume 8 ?p ?t) = (if fa_stage f = 3 then pc s + 4 else pc s)"
    using restored by (simp add: resume_def Let_def)
  ultimately show ?thesis using d by blast
qed

section \<open>Accesses that abort\<close>

lemma aborts:
  assumes M: "mmu_contract M view" and link: "mmu_linked table page sp"
    and at: "mmu_at view table page sp tr f s" and f: "fa_entry f = None" "fa_pte f AND 1 \<noteq> 0"
      "fa_pte f AND 32 = 0" "fa_pte f AND 64 = 0" "fa_stage f \<in> {1, 2, 3}"
    and denied: "fa_pte f AND right_bit kind = 0 \<or> is_store kind \<and> in_rom (page_of (fa_pte f))"
    and status: "protection_fault kind = expected_status (fa_stage f)"
  shows "\<exists>t. mmu_at view table page sp tr
        (f\<lparr>fa_entry := None, fa_pte := repaired (fa_stage f) (fa_pte f), fa_stage := 0\<rparr>) t
    \<and> mem_access M (deliver P junk (mmu_handlers P M table) Data_abort) (Suc fuel) kind TEST_VADDR s =
        (if fa_stage f = 3 then (Done None, t)
         else mem_access M (deliver P junk (mmu_handlers P M table) Data_abort) fuel kind TEST_VADDR t)"
proof -
  let ?abort = "deliver P junk (mmu_handlers P M table) Data_abort"
  from access_aborted [OF M [unfolded mmu_contract_def] spec_fault [OF at link f(1,2) denied],
      where abort = ?abort and fuel = fuel]
  obtain d where d: "mem_access M ?abort (Suc fuel) kind TEST_VADDR s =
      bind ?abort (\<lambda>_ t. if pc t = pc s then mem_access M ?abort fuel kind TEST_VADDR t else (Done None, t))
        (s\<lparr>ram := ram s, dev := d, fault_status := protection_fault kind, fault_address := TEST_VADDR\<rparr>)"
    "view d = view (dev s)" by blast
  let ?s = "s\<lparr>ram := ram s, dev := d, fault_status := protection_fault kind, fault_address := TEST_VADDR\<rparr>"
  have at': "mmu_at view table page sp tr f ?s" using at d(2) by (simp add: mmu_at_def in_user_mode_def)
  from abort_handled [OF M link at' f(3-5), of P junk] status obtain t where
    t: "?abort ?s = (Done (), t)" "mmu_at view table page sp tr
        (f\<lparr>fa_entry := None, fa_pte := repaired (fa_stage f) (fa_pte f), fa_stage := 0\<rparr>) t"
      "pc t = (if fa_stage f = 3 then pc s + 4 else pc s)" by auto
  have "mem_access M ?abort (Suc fuel) kind TEST_VADDR s =
      (if fa_stage f = 3 then (Done None, t) else mem_access M ?abort fuel kind TEST_VADDR t)"
    unfolding d(1) bind_Done [where c = ?abort and s = ?s, OF t(1)] using t(3) by simp
  with t(2) show ?thesis by blast
qed

text \<open>The accesses of the case as triples.\<close>

lemma total_write:
  assumes "mmu_contract M view" and "mmu_linked table page sp"
    and "fa_entry f = None" "fa_pte f AND 1 \<noteq> 0" "fa_pte f AND 2 \<noteq> 0"
      "page_of (fa_pte f) = minemu_test_paddr page"
  shows "total (mmu_at view table page sp tr f) (volatile_write M abort (Suc fuel) TEST_VADDR v)
    (\<lambda>_. mmu_at view table page sp tr (f\<lparr>fa_entry := Some (fa_pte f OR 32 OR 64),
        fa_pte := fa_pte f OR 32 OR 64, fa_word := v\<rparr>))"
proof (rule totalI)
  fix s assume "mmu_at view table page sp tr f s"
  from write_granted [OF assms(1,2) this assms(3-), of abort fuel v] obtain t where
    "mem_access M abort (Suc fuel) (Store v) TEST_VADDR s = (Done (Some 0), t)"
    "mmu_at view table page sp tr (f\<lparr>fa_entry := Some (fa_pte f OR 32 OR 64),
        fa_pte := fa_pte f OR 32 OR 64, fa_word := v\<rparr>) t" by blast
  then show "\<exists>x t. volatile_write M abort (Suc fuel) TEST_VADDR v s = (Done x, t)
      \<and> mmu_at view table page sp tr (f\<lparr>fa_entry := Some (fa_pte f OR 32 OR 64),
        fa_pte := fa_pte f OR 32 OR 64, fa_word := v\<rparr>) t"
    by (simp add: volatile_write_def bind_Done ret_def del: mem_access.simps)
qed

lemma total_read:
  assumes "mmu_contract M view" and "mmu_linked table page sp"
    and "fa_entry f = None" "fa_pte f AND 1 \<noteq> 0" "fa_pte f AND 16 \<noteq> 0"
      "page_of (fa_pte f) = minemu_test_paddr page"
  shows "total (mmu_at view table page sp tr f) (volatile_read M abort (Suc fuel) old TEST_VADDR)
    (\<lambda>x t. x = fa_word f \<and> mmu_at view table page sp tr (f\<lparr>fa_entry := Some (fa_pte f OR 32),
        fa_pte := fa_pte f OR 32\<rparr>) t)"
proof (rule totalI)
  fix s assume "mmu_at view table page sp tr f s"
  from read_granted [OF assms(1,2) this assms(3-), of abort fuel] obtain t where
    "mem_access M abort (Suc fuel) Load TEST_VADDR s = (Done (Some (fa_word f)), t)"
    "mmu_at view table page sp tr (f\<lparr>fa_entry := Some (fa_pte f OR 32), fa_pte := fa_pte f OR 32\<rparr>) t" by blast
  then show "\<exists>x t. volatile_read M abort (Suc fuel) old TEST_VADDR s = (Done x, t)
      \<and> x = fa_word f \<and> mmu_at view table page sp tr (f\<lparr>fa_entry := Some (fa_pte f OR 32),
        fa_pte := fa_pte f OR 32\<rparr>) t"
    by (simp add: volatile_read_def bind_Done ret_def del: mem_access.simps)
qed

text \<open>An access that aborts once: a read that is tried again, a write that is, and one stepped over.\<close>

lemma total_read_repaired:
  assumes M: "mmu_contract M view" and link: "mmu_linked table page sp"
    and f: "fa_entry f = None" "fa_pte f AND 1 \<noteq> 0" "fa_pte f AND 32 = 0" "fa_pte f AND 64 = 0"
      "fa_stage f = 1" "fa_pte f AND 16 = 0" "page_of (fa_pte f) = minemu_test_paddr page"
    and abort: "abort = deliver P junk (mmu_handlers P M table) Data_abort"
  shows "total (mmu_at view table page sp tr f) (volatile_read M abort (Suc (Suc fuel)) old TEST_VADDR)
    (\<lambda>x t. x = fa_word f \<and> mmu_at view table page sp tr (f\<lparr>fa_entry := Some (fa_pte f OR 16 OR 32),
        fa_pte := fa_pte f OR 16 OR 32, fa_stage := 0\<rparr>) t)"
proof (rule totalI)
  fix s assume "mmu_at view table page sp tr f s"
  from aborts [OF M link this f(1-4), of Load P junk "Suc fuel", folded abort] f obtain u where
    u: "mmu_at view table page sp tr (f\<lparr>fa_entry := None, fa_pte := fa_pte f OR 16, fa_stage := 0\<rparr>) u"
      "mem_access M abort (Suc (Suc fuel)) Load TEST_VADDR s = mem_access M abort (Suc fuel) Load TEST_VADDR u"
    by (auto simp: expected_status_def simp del: mem_access.simps)
  let ?g = "f\<lparr>fa_entry := None, fa_pte := fa_pte f OR 16, fa_stage := 0\<rparr>"
  have "fa_pte ?g AND 1 \<noteq> 0" "fa_pte ?g AND 16 \<noteq> 0" "page_of (fa_pte ?g) = minemu_test_paddr page"
    using f(2,7) by (simp_all add: bit.conj_disj_distrib2 page_of_or page_of_def [of 16])
  with read_granted [OF M link u(1), of abort fuel] obtain t where
    "mem_access M abort (Suc fuel) Load TEST_VADDR u = (Done (Some (fa_word f)), t)"
    "mmu_at view table page sp tr (f\<lparr>fa_entry := Some (fa_pte f OR 16 OR 32),
        fa_pte := fa_pte f OR 16 OR 32, fa_stage := 0\<rparr>) t"
    by (auto simp: or.assoc mmu_at_def simp del: mem_access.simps)
  with u(2) show "\<exists>x t. volatile_read M abort (Suc (Suc fuel)) old TEST_VADDR s = (Done x, t)
      \<and> x = fa_word f \<and> mmu_at view table page sp tr (f\<lparr>fa_entry := Some (fa_pte f OR 16 OR 32),
        fa_pte := fa_pte f OR 16 OR 32, fa_stage := 0\<rparr>) t"
    by (simp add: volatile_read_def bind_Done ret_def del: mem_access.simps)
qed

lemma total_write_repaired:
  assumes M: "mmu_contract M view" and link: "mmu_linked table page sp"
    and f: "fa_entry f = None" "fa_pte f AND 1 \<noteq> 0" "fa_pte f AND 32 = 0" "fa_pte f AND 64 = 0"
      "fa_stage f = 2" "fa_pte f AND 2 = 0" "page_of (fa_pte f) = minemu_test_paddr page"
    and abort: "abort = deliver P junk (mmu_handlers P M table) Data_abort"
  shows "total (mmu_at view table page sp tr f) (volatile_write M abort (Suc (Suc fuel)) TEST_VADDR v)
    (\<lambda>_. mmu_at view table page sp tr (f\<lparr>fa_entry := Some (fa_pte f OR 2 OR 32 OR 64),
        fa_pte := fa_pte f OR 2 OR 32 OR 64, fa_word := v, fa_stage := 0\<rparr>))"
proof (rule totalI)
  fix s assume "mmu_at view table page sp tr f s"
  from aborts [OF M link this f(1-4), of "Store v" P junk "Suc fuel", folded abort] f obtain u where
    u: "mmu_at view table page sp tr (f\<lparr>fa_entry := None, fa_pte := fa_pte f OR 2, fa_stage := 0\<rparr>) u"
      "mem_access M abort (Suc (Suc fuel)) (Store v) TEST_VADDR s = mem_access M abort (Suc fuel) (Store v) TEST_VADDR u"
    by (auto simp: expected_status_def simp del: mem_access.simps)
  let ?g = "f\<lparr>fa_entry := None, fa_pte := fa_pte f OR 2, fa_stage := 0\<rparr>"
  have "fa_pte ?g AND 1 \<noteq> 0" "fa_pte ?g AND 2 \<noteq> 0" "page_of (fa_pte ?g) = minemu_test_paddr page"
    using f(2,7) by (simp_all add: bit.conj_disj_distrib2 page_of_or page_of_def [of 2])
  with write_granted [OF M link u(1), of abort fuel v] obtain t where
    "mem_access M abort (Suc fuel) (Store v) TEST_VADDR u = (Done (Some 0), t)"
    "mmu_at view table page sp tr (f\<lparr>fa_entry := Some (fa_pte f OR 2 OR 32 OR 64),
        fa_pte := fa_pte f OR 2 OR 32 OR 64, fa_word := v, fa_stage := 0\<rparr>) t"
    by (auto simp: or.assoc mmu_at_def simp del: mem_access.simps)
  with u(2) show "\<exists>x t. volatile_write M abort (Suc (Suc fuel)) TEST_VADDR v s = (Done x, t)
      \<and> mmu_at view table page sp tr (f\<lparr>fa_entry := Some (fa_pte f OR 2 OR 32 OR 64),
        fa_pte := fa_pte f OR 2 OR 32 OR 64, fa_word := v, fa_stage := 0\<rparr>) t"
    by (simp add: volatile_write_def bind_Done ret_def del: mem_access.simps)
qed

lemma total_write_skipped:
  assumes M: "mmu_contract M view" and link: "mmu_linked table page sp"
    and f: "fa_entry f = None" "fa_pte f AND 1 \<noteq> 0" "fa_pte f AND 32 = 0" "fa_pte f AND 64 = 0"
      "fa_stage f = 3" "in_rom (page_of (fa_pte f))"
    and abort: "abort = deliver P junk (mmu_handlers P M table) Data_abort"
  shows "total (mmu_at view table page sp tr f) (volatile_write M abort (Suc fuel) TEST_VADDR v)
    (\<lambda>_. mmu_at view table page sp tr (f\<lparr>fa_entry := None, fa_stage := 0\<rparr>))"
proof (rule totalI)
  fix s assume "mmu_at view table page sp tr f s"
  from aborts [OF M link this f(1-4), of "Store v" P junk fuel, folded abort] f obtain t where
    "mmu_at view table page sp tr (f\<lparr>fa_entry := None, fa_stage := 0\<rparr>) t"
    "mem_access M abort (Suc fuel) (Store v) TEST_VADDR s = (Done None, t)"
    by (auto simp: expected_status_def simp del: mem_access.simps)
  then show "\<exists>x t. volatile_write M abort (Suc fuel) TEST_VADDR v s = (Done x, t)
      \<and> mmu_at view table page sp tr (f\<lparr>fa_entry := None, fa_stage := 0\<rparr>) t"
    by (simp add: volatile_write_def bind_Done ret_def del: mem_access.simps)
qed

section \<open>The run of the case\<close>

text \<open>The assertions of the run: the test entry is made of a frame address and low bits.\<close>

definition mmu_step :: "('d \<Rightarrow> tlb_view) \<Rightarrow> u32 \<Rightarrow> u32 \<Rightarrow> u32 \<Rightarrow> u32 list \<Rightarrow> u32 option \<Rightarrow> u32 \<Rightarrow> u32 \<Rightarrow> u32 \<Rightarrow> u32
    \<Rightarrow> 'd mmu_state \<Rightarrow> bool" where
  "mmu_step view table page sp tr e p x w st =
     mmu_at view table page sp tr \<lparr> fa_entry = e, fa_pte = p OR x, fa_word = w, fa_stage = st \<rparr>"

lemma step_entry:
  "mmu_linked table page sp \<Longrightarrow> y = y' \<Longrightarrow>
   total (mmu_step view table page sp tr e p x w st) (store_field table (\<lambda>s. q OR y))
     (\<lambda>_. mmu_step view table page sp tr e q y' w st)"
  using linked_slots [of table page sp]
  by (simp add: total_def store_field_def cmd_simps mmu_step_def mmu_at_def in_user_mode_def)

lemma step_clear:
  assumes "mmu_linked table page sp" and "page_of p = p"
  shows "total (mmu_step view table page sp tr e p x w st) (store_field table (\<lambda>s. ram s table AND NOT ACCESSED_DIRTY))
     (\<lambda>_. mmu_step view table page sp tr e p (x AND NOT ACCESSED_DIRTY) w st)"
proof -
  have "p AND NOT ACCESSED_DIRTY = (p AND NOT ACCESSED_DIRTY) OR (p AND ACCESSED_DIRTY)"
    using aligned_and [OF assms(2), of ACCESSED_DIRTY] by (simp add: page_of_def [of 96])
  also have "\<dots> = p" by (simp add: bit.conj_disj_distrib [symmetric] bit.disj_cancel_left)
  finally have "(p OR x) AND NOT ACCESSED_DIRTY = p OR (x AND NOT ACCESSED_DIRTY)"
    by (simp only: bit.conj_disj_distrib2)
  then show ?thesis
    using linked_slots [OF assms(1)]
    by (simp add: total_def store_field_def cmd_simps mmu_step_def mmu_at_def in_user_mode_def)
qed

lemma step_flush:
  assumes "mmu_contract M view"
  shows "total (mmu_step view table page sp tr e p x w st) (tlbiall M) (\<lambda>_. mmu_step view table page sp tr None p x w st)"
  using behaves_flush [OF assms [unfolded mmu_contract_def]]
  by (simp add: total_def tlbiall_result mmu_step_def mmu_at_def in_user_mode_def)

lemma step_stage:
  "total (mmu_step view table page sp tr e p x w st) (set_stage v) (\<lambda>_. mmu_step view table page sp tr e p x w v)"
  by (simp add: total_def set_stage_def cmd_simps mmu_step_def mmu_at_def in_user_mode_def)

lemma step_checks:
  "c w \<Longrightarrow> total (mmu_step view table page sp tr e p x w st) (require_word P page c code)
    (\<lambda>_. mmu_step view table page sp tr e p x w st)"
  "c (p OR x) \<Longrightarrow> total (mmu_step view table page sp tr e p x w st) (require_word P table c code)
    (\<lambda>_. mmu_step view table page sp tr e p x w st)"
  "total (mmu_step view table page sp tr e p x w 0) (require_stage P code)
    (\<lambda>_. mmu_step view table page sp tr e p x w 0)"
  unfolding require_word_def require_stage_def
  by (intro total_check; simp add: mmu_step_def mmu_at_def)+

lemma step_reads:
  "total A c (\<lambda>x t. x = v \<and> B t) \<Longrightarrow> total A (require_read_of P c v code) (\<lambda>_. B)"
  unfolding require_read_of_def by (erule total_bind) (rule total_require; simp)

lemma mmu_set_up_runs:
  fixes view :: "'d \<Rightarrow> tlb_view"
  assumes M: "mmu_contract M view" and link: "mmu_linked table page sp"
  shows "total (\<lambda>s. length (gpr s) = 13 \<and> exc_sp s = sp \<and> \<not> in_user_mode s \<and> trace_values (io s) = tr
      \<and> tv_root (view (dev s)) = 0x40010000)
    (block (mmu_set_up M table page))
    (\<lambda>_ t. \<exists>w st. mmu_step view table page sp tr None (minemu_test_paddr page) 0xa93 w st t)"
proof -
  let ?A = "\<lambda>s :: 'd mmu_state. length (gpr s) = 13 \<and> exc_sp s = sp \<and> \<not> in_user_mode s \<and> trace_values (io s) = tr
      \<and> tv_root (view (dev s)) = 0x40010000"
  have "total ?A (for_cmd (\<lambda>i. bind (store_field (table + 4 * i) (\<lambda>s. 0)) (\<lambda>_. ret (None :: unit option))) 0 1024)
      (\<lambda>r t. r = None \<and> ?A t)"
    by (rule total_for [where I = "\<lambda>k. ?A"])
      (simp_all add: total_def store_field_def cmd_simps in_user_mode_def)
  then have "total ?A (clear_table table) (\<lambda>_. ?A)"
    unfolding clear_table_def by (rule total_bind) (simp add: total_def ret_def)
  then show ?thesis
    unfolding mmu_set_up_def
  proof (rule total_block_Cons)
    show "total ?A (block
       [store_field (0xc0010000 + 4 * drop_bit 22 TEST_VADDR) (\<lambda>s. minemu_test_paddr table OR 1),
        store_field table (\<lambda>s. minemu_test_paddr page OR PTE_VALID OR PTE_READABLE OR PTE_WRITABLE OR METADATA),
        tlbiall M])
       (\<lambda>_ t. \<exists>w st. mmu_step view table page sp tr None (minemu_test_paddr page) 0xa93 w st t)"
      using linked_slots [OF link] behaves_flush [OF M [unfolded mmu_contract_def]]
      by (simp add: total_def store_field_def cmd_simps bind_Done [OF tlbiall_result] mmu_step_def mmu_at_def
          in_user_mode_def)
  qed
qed

text \<open>The accesses, over entries made of the test page and low bits.\<close>

lemma test_entry:
  assumes "mmu_linked table page sp" and "page_of x = 0"
  shows "page_of (minemu_test_paddr page OR x) = minemu_test_paddr page"
    and "page_of g = 0 \<Longrightarrow> (minemu_test_paddr page OR x) AND g = x AND g"
  using assms direct_paddr [of page] by (simp_all add: mmu_linked_def pte_parts entry_and)

lemma step_write:
  assumes "mmu_contract M view" and "mmu_linked table page sp"
    and "page_of x = 0" "x AND 1 \<noteq> 0" "x AND 2 \<noteq> 0" "y = x OR 32 OR 64"
  shows "total (mmu_step view table page sp tr None (minemu_test_paddr page) x w st)
    (volatile_write M abort (Suc fuel) TEST_VADDR v)
    (\<lambda>_. mmu_step view table page sp tr (Some (minemu_test_paddr page OR y)) (minemu_test_paddr page) y v st)"
  unfolding mmu_step_def
  by (rule total_weaken [OF total_write [OF assms(1,2)]])
    (use assms test_entry [OF assms(2,3)] in
      \<open>auto simp: or.assoc page_of_def [of 1] page_of_def [of 2]\<close>)

lemma step_read:
  assumes "mmu_contract M view" and "mmu_linked table page sp"
    and "page_of x = 0" "x AND 1 \<noteq> 0" "x AND 16 \<noteq> 0" "y = x OR 32"
  shows "total (mmu_step view table page sp tr None (minemu_test_paddr page) x w st)
    (volatile_read M abort (Suc fuel) old TEST_VADDR)
    (\<lambda>u t. u = w \<and>
      mmu_step view table page sp tr (Some (minemu_test_paddr page OR y)) (minemu_test_paddr page) y w st t)"
  unfolding mmu_step_def
  by (rule total_weaken [OF total_read [OF assms(1,2)]])
    (use assms test_entry [OF assms(2,3)] in
      \<open>auto simp: or.assoc page_of_def [of 1] page_of_def [of 16]\<close>)

lemma step_read_repaired:
  assumes "mmu_contract M view" and "mmu_linked table page sp"
    and "page_of x = 0" "x AND 1 \<noteq> 0" "x AND 16 = 0" "x AND 32 = 0" "x AND 64 = 0" "y = x OR 16 OR 32"
    and "abort = deliver P junk (mmu_handlers P M table) Data_abort"
  shows "total (mmu_step view table page sp tr None (minemu_test_paddr page) x w 1)
    (volatile_read M abort (Suc (Suc fuel)) old TEST_VADDR)
    (\<lambda>u t. u = w \<and>
      mmu_step view table page sp tr (Some (minemu_test_paddr page OR y)) (minemu_test_paddr page) y w 0 t)"
  unfolding mmu_step_def
  by (rule total_weaken [OF total_read_repaired [OF assms(1,2) _ _ _ _ _ _ _ assms(9)]])
    (use assms test_entry [OF assms(2,3)] in
      \<open>auto simp: or.assoc page_of_def [of 1] page_of_def [of 16] page_of_def [of 32] page_of_def [of 64]\<close>)

lemma step_write_repaired:
  assumes "mmu_contract M view" and "mmu_linked table page sp"
    and "page_of x = 0" "x AND 1 \<noteq> 0" "x AND 2 = 0" "x AND 32 = 0" "x AND 64 = 0" "y = x OR 2 OR 32 OR 64"
    and "abort = deliver P junk (mmu_handlers P M table) Data_abort"
  shows "total (mmu_step view table page sp tr None (minemu_test_paddr page) x w 2)
    (volatile_write M abort (Suc (Suc fuel)) TEST_VADDR v)
    (\<lambda>_. mmu_step view table page sp tr (Some (minemu_test_paddr page OR y)) (minemu_test_paddr page) y v 0)"
  unfolding mmu_step_def
  by (rule total_weaken [OF total_write_repaired [OF assms(1,2) _ _ _ _ _ _ _ assms(9)]])
    (use assms test_entry [OF assms(2,3)] in
      \<open>auto simp: or.assoc page_of_def [of 1] page_of_def [of 2] page_of_def [of 32] page_of_def [of 64]\<close>)

lemma step_write_skipped:
  assumes "mmu_contract M view" and "mmu_linked table page sp"
    and "abort = deliver P junk (mmu_handlers P M table) Data_abort"
  shows "total (mmu_step view table page sp tr None 0x08000000 0x13 w 3)
    (volatile_write M abort (Suc fuel) TEST_VADDR v)
    (\<lambda>_. mmu_step view table page sp tr None 0x08000000 0x13 w 0)"
  unfolding mmu_step_def
  by (rule total_weaken [OF total_write_skipped [OF assms(1,2) _ _ _ _ _ _ assms(3),
      where tr = tr and f = "\<lparr> fa_entry = None, fa_pte = 0x08000013, fa_word = w, fa_stage = 3 \<rparr>"]])
    (simp_all add: in_rom_def page_of_def)

lemma mmu_bits_run:
  assumes M: "mmu_contract M view" and link: "mmu_linked table page sp"
  shows "total (mmu_step view table page sp tr None (minemu_test_paddr page) 0xa93 w st)
    (block (mmu_bits P M abort (Suc fuel) old table page))
    (\<lambda>_. mmu_step view table page sp tr (Some (minemu_test_paddr page OR 0xab3)) (minemu_test_paddr page) 0xab3
      0x12345678 st)"
proof -
  have p: "page_of (minemu_test_paddr page) = minemu_test_paddr page"
    using link direct_paddr [of page] by (simp add: mmu_linked_def)
  have e: "(minemu_test_paddr page OR x) AND g = x AND g" if "page_of g = 0" for x g
    using p that by (rule entry_and)
  show ?thesis
    unfolding mmu_bits_def
    by (rule total_block_Cons, rule step_write [OF M link, where y = "0xaf3"],
        simp add: page_of_def, simp, simp, simp,
        rule total_block_Cons, rule step_checks(1), simp,
        rule total_block_Cons, rule step_checks(2), simp add: e page_of_def,
        rule total_block_Cons, rule step_checks(2), simp add: e page_of_def,
        rule total_block_Cons, rule step_clear [OF link p],
        rule total_block_Cons, rule step_flush [OF M],
        rule total_block_Cons, rule step_reads,
        rule step_read [OF M link, where y = "0xab3"],
        simp add: page_of_def, simp, simp, simp,
        rule total_block_Cons, rule step_checks(2), simp add: e page_of_def,
        rule total_block_Cons, rule step_checks(2), simp add: e page_of_def,
        rule total_block_Nil)
qed

lemma mmu_faults_run:
  assumes M: "mmu_contract M view" and link: "mmu_linked table page sp"
    and abort: "abort = deliver P junk (mmu_handlers P M table) Data_abort"
  shows "total (mmu_step view table page sp tr e (minemu_test_paddr page) x 0x12345678 st)
    (block (mmu_faults P M abort (Suc (Suc fuel)) old table page))
    (\<lambda>_. mmu_step view table page sp tr None 0x08000000 0x13 0x87654321 0)"
  unfolding mmu_faults_def
  by (rule total_block_Cons, rule step_entry [OF link, where y' = "0xa83"], simp,
      rule total_block_Cons, rule step_flush [OF M],
      rule total_block_Cons, rule step_stage,
      rule total_block_Cons, rule step_reads,
      rule step_read_repaired [OF M link _ _ _ _ _ _ abort, where y = "0xab3"],
      simp add: page_of_def, simp, simp, simp, simp, simp,
      rule total_block_Cons, rule step_checks(3),
      rule total_block_Cons, rule step_entry [OF link, where y' = "0xa91"], simp,
      rule total_block_Cons, rule step_flush [OF M],
      rule total_block_Cons, rule step_stage,
      rule total_block_Cons,
      rule step_write_repaired [OF M link _ _ _ _ _ _ abort, where y = "0xaf3"],
      simp add: page_of_def, simp, simp, simp, simp, simp,
      rule total_block_Cons, rule step_checks(1), simp,
      rule total_block_Cons, rule step_checks(3),
      rule total_block_Cons, rule step_entry [OF link, where y' = "0x13"], simp,
      rule total_block_Cons, rule step_flush [OF M],
      rule total_block_Cons, rule step_stage,
      rule total_block_Cons, rule step_write_skipped [OF M link abort],
      rule total_block_Cons, rule step_checks(3),
      rule total_block_Nil)

text \<open>
  C27: on an MMU that keeps the contract of \<^verbatim>\<open>mmu.h\<close> the case ends with its success value: rights are
  enforced before Accessed and Dirty are set, every abort reaches the dispatcher through the vector
  with the status and address it expects, and an access is tried again after the repair or stepped
  over once.
\<close>

theorem mmu_case_passes:
  fixes s :: "'d mmu_state"
  assumes M: "mmu_contract M view" and link: "mmu_linked table page (exc_sp s)"
    and s: "length (gpr s) = 13" "\<not> in_user_mode s" "tv_root (view (dev s)) = 0x40010000"
    and "2 \<le> fuel"
  shows "\<exists>t. mmu_kernel_main P M junk fuel old table page s = (FailStop, t)
    \<and> trace_values (io t) = trace_values (io s) @ [0x20060001]"
proof -
  from \<open>2 \<le> fuel\<close> obtain n where n: "fuel = Suc (Suc n)" by (auto simp: le_iff_add numeral_2_eq_2)
  define tr where "tr = trace_values (io s)"
  define abort where abort: "abort = deliver P junk (mmu_handlers P M table) Data_abort"
  let ?A = "\<lambda>u :: 'd mmu_state. length (gpr u) = 13 \<and> exc_sp u = exc_sp s \<and> \<not> in_user_mode u
      \<and> trace_values (io u) = tr \<and> tv_root (view (dev u)) = 0x40010000"
  have bits: "total (\<lambda>u. \<exists>w st. mmu_step view table page (exc_sp s) tr None (minemu_test_paddr page) 0xa93 w st u)
      (block (mmu_bits P M abort fuel old table page))
      (\<lambda>_ u. \<exists>st. mmu_step view table page (exc_sp s) tr (Some (minemu_test_paddr page OR 0xab3))
        (minemu_test_paddr page) 0xab3 0x12345678 st u)"
    using mmu_bits_run [OF M link] unfolding n total_def by blast
  have faults: "total (\<lambda>u. \<exists>st. mmu_step view table page (exc_sp s) tr (Some (minemu_test_paddr page OR 0xab3))
        (minemu_test_paddr page) 0xab3 0x12345678 st u)
      (block (mmu_faults P M abort fuel old table page)) (\<lambda>_ u. trace_values (io u) = tr)"
    using mmu_faults_run [OF M link abort] unfolding n total_def mmu_step_def mmu_at_def by blast
  have "total ?A (block (mmu_set_up M table page @ mmu_bits P M abort fuel old table page
      @ mmu_faults P M abort fuel old table page)) (\<lambda>_ u. trace_values (io u) = tr)"
    using mmu_set_up_runs [OF M link] bits faults by (intro total_append)
  then show ?thesis
    unfolding mmu_kernel_main_def Let_def abort [symmetric] tr_def [symmetric]
    by (rule total_concludes) (use s in \<open>simp add: tr_def\<close>)
qed

definition mmu_test_state :: "tlb_view mmu_state" where
  "mmu_test_state = \<lparr> dev = \<lparr> tv_root = 0x40010000, tv_cached = Map.empty \<rparr>, cpsr = 0x13, io = [],
     ram = (\<lambda>a. 0), gpr = replicate 13 0, pc = 0xc0001000, exc_sp = 0xc0200000, exc_lr = 0, exc_spsr = 0,
     usr_sp = 0, usr_lr = 0, fault_status = 0, fault_address = 0, fault_stage = 0 \<rparr>"

theorem mmu_case_passes_witness:
  "\<exists>t. mmu_kernel_main \<lparr> reg_read = (\<lambda>a d. (0, d)), reg_write = (\<lambda>a v d. d) \<rparr> sample_mmu (\<lambda>i. 0) 2 0
      0xc0102000 0xc0103000 mmu_test_state = (FailStop, t)
    \<and> trace_values (io t) = [0x20060001]"
proof -
  have "mmu_linked 0xc0102000 0xc0103000 (exc_sp mmu_test_state)" by code_simp
  moreover have "length (gpr mmu_test_state) = 13" "\<not> in_user_mode mmu_test_state"
    "tv_root (dev mmu_test_state) = 0x40010000" "io mmu_test_state = []"
    by (simp_all add: mmu_test_state_def in_user_mode_def)
  ultimately show ?thesis
    using mmu_case_passes [OF sample_mmu_contract, of "0xc0102000" "0xc0103000" mmu_test_state 2] by simp
qed

end
