(* ===== verification/Board.thy ===== *)
theory Board
  imports Trap Triples Conformance
begin

text \<open>
  Interrupts as the conformance cases see them: the system timer with its deadline in ticks, the
  interrupt controller with sources, levels, priorities, claim and end-of-interrupt, the receive side
  of the two UARTs, and how the processor takes an interrupt between two instructions. The devices
  are parameters; their contract follows the registers of \<^verbatim>\<open>platform.h\<close>.
\<close>

section \<open>The timer\<close>

text \<open>Ticks until the deadline (0 when stopped), and whether it has passed.\<close>

record timer =
  tm_period :: u32
  tm_control :: u32
  tm_left :: nat
  tm_pending :: bool

definition timer_tick :: "timer \<Rightarrow> timer" where
  "timer_tick t =
     (if tm_left t = 0 then t
      else if tm_left t = 1
      then t\<lparr>tm_pending := True, tm_left := if tm_control t AND 2 \<noteq> 0 then unat (tm_period t) else 0\<rparr>
      else t\<lparr>tm_left := tm_left t - 1\<rparr>)"

primrec timer_pass :: "nat \<Rightarrow> timer \<Rightarrow> timer" where
  "timer_pass 0 t = t"
| "timer_pass (Suc n) t = timer_pass n (timer_tick t)"

definition timer_raised :: "timer \<Rightarrow> bool" where
  "timer_raised t \<longleftrightarrow> tm_pending t \<and> tm_control t AND 4 \<noteq> 0"

text \<open>An access to a timer register takes one tick and then acts.\<close>

definition timer_write :: "u32 \<Rightarrow> u32 \<Rightarrow> timer \<Rightarrow> timer" where
  "timer_write a v t =
     (let t = timer_tick t in
      if a = 0x10001000 then t\<lparr>tm_period := v\<rparr>
      else if a = 0x10001004
      then t\<lparr>tm_control := v, tm_left := if v AND 1 \<noteq> 0 then unat (tm_period t) else 0\<rparr>
      else t\<lparr>tm_pending := tm_pending t \<and> v AND 1 = 0\<rparr>)"

definition is_timer :: "u32 \<Rightarrow> bool" where
  "is_timer a \<longleftrightarrow> a \<in> {0x10001000, 0x10001004, 0x10001008, 0x1000100c}"

lemma pass_stopped: "tm_left t = 0 \<Longrightarrow> timer_pass n t = t"
  by (induction n) (simp_all add: timer_tick_def)

lemma pass_running: "n < tm_left t \<Longrightarrow> timer_pass n t = t\<lparr>tm_left := tm_left t - n\<rparr>"
proof (induction n arbitrary: t)
  case 0
  then show ?case by simp
next
  case (Suc n)
  then have "timer_tick t = t\<lparr>tm_left := tm_left t - 1\<rparr>" by (simp add: timer_tick_def)
  with Suc show ?case by simp
qed

lemma tick_control [simp]: "tm_control (timer_tick t) = tm_control t"
  by (simp add: timer_tick_def)

lemma pass_control [simp]: "tm_control (timer_pass n t) = tm_control t"
  by (induction n arbitrary: t) simp_all

section \<open>Controller and UARTs\<close>

text \<open>
  Whether each UART holds a byte and may interrupt, the rounds of input still to come (each by the
  number of empty polls it takes), the enabled sources, the priorities of the UARTs, and the source
  that is claimed. The timer keeps its reset priority, the highest.
\<close>

record board =
  bd_full0 :: bool
  bd_full1 :: bool
  bd_inputs :: "nat list"
  bd_irq0 :: bool
  bd_irq1 :: bool
  bd_enable :: u32
  bd_prio0 :: u32
  bd_prio1 :: u32
  bd_claimed :: "u32 option"

text \<open>The requested sources with their priorities, and the one that is served first.\<close>

definition requests :: "bool \<Rightarrow> board \<Rightarrow> (u32 \<times> u32) list" where
  "requests raised b =
     (if raised \<and> bd_enable b AND 1 \<noteq> 0 then [(0, MINEMU_IRQ_SYSTICK)] else [])
     @ (if bd_full0 b \<and> bd_irq0 b \<and> bd_enable b AND 2 \<noteq> 0 then [(bd_prio0 b, MINEMU_IRQ_UART0)] else [])
     @ (if bd_full1 b \<and> bd_irq1 b \<and> bd_enable b AND 4 \<noteq> 0 then [(bd_prio1 b, MINEMU_IRQ_UART1)] else [])"

fun first_request :: "(u32 \<times> u32) list \<Rightarrow> u32" where
  "first_request [] = 0xffffffff"
| "first_request [(p, i)] = i"
| "first_request ((p, i) # (q, j) # rs) = (if p \<le> q then first_request ((p, i) # rs) else first_request ((q, j) # rs))"

definition served :: "bool \<Rightarrow> board \<Rightarrow> u32" where
  "served raised b = first_request (requests raised b)"

text \<open>A poll of an empty port counts towards the next round, which brings a byte to each port.\<close>

fun uart_poll :: "bool \<Rightarrow> board \<Rightarrow> bool \<times> board" where
  "uart_poll full b =
     (if full then (True, b)
      else case bd_inputs b of
        [] \<Rightarrow> (False, b)
      | 0 # ns \<Rightarrow> (True, b\<lparr>bd_full0 := True, bd_full1 := True, bd_inputs := ns\<rparr>)
      | Suc n # ns \<Rightarrow> (False, b\<lparr>bd_inputs := n # ns\<rparr>))"

text \<open>
  What the contract says of a read: which values it may give and the state after it, \<open>None\<close> where it
  says nothing. A claimed source is claimed again as long as it is the one to be served.
\<close>

definition board_read :: "bool \<Rightarrow> u32 \<Rightarrow> board \<Rightarrow> ((u32 \<Rightarrow> bool) \<times> board) option" where
  "board_read raised a b =
     (if a = 0x10000008
      then let i = served raised b in
        if bd_claimed b \<in> {None, Some i}
        then Some (\<lambda>v. v = i, b\<lparr>bd_claimed := if i = 0xffffffff then None else Some i\<rparr>) else None
      else if a = 0x10004000 then Some (\<lambda>v. True, b\<lparr>bd_full0 := False\<rparr>)
      else if a = 0x10005000 then Some (\<lambda>v. True, b\<lparr>bd_full1 := False\<rparr>)
      else if a = 0x10004008
      then case uart_poll (bd_full0 b) b of (r, b) \<Rightarrow> Some (\<lambda>v. v AND 1 = (if r then 1 else 0), b)
      else if a = 0x10005008
      then case uart_poll (bd_full1 b) b of (r, b) \<Rightarrow> Some (\<lambda>v. v AND 1 = (if r then 1 else 0), b)
      else None)"

definition board_write :: "u32 \<Rightarrow> u32 \<Rightarrow> board \<Rightarrow> board option" where
  "board_write a v b =
     (if a = 0x10000004 then Some (b\<lparr>bd_enable := v\<rparr>)
      else if a = 0x1000000c
      then if bd_claimed b = Some v then Some (b\<lparr>bd_claimed := None\<rparr>) else None
      else if a = 0x10000014 then Some (b\<lparr>bd_prio0 := v\<rparr>)
      else if a = 0x10000018 then Some (b\<lparr>bd_prio1 := v\<rparr>)
      else if a = 0x1000400c then Some (b\<lparr>bd_irq0 := v AND 1 \<noteq> 0\<rparr>)
      else if a = 0x1000500c then Some (b\<lparr>bd_irq1 := v AND 1 \<noteq> 0\<rparr>)
      else if a = 0x1000f000 then Some b
      else None)"

lemma priority_registers [reg_addrs]:
  "MINEMU_INTERRUPT ''priority_uart0'' = 0x10000014" "MINEMU_INTERRUPT ''priority_uart1'' = 0x10000018"
  by (simp_all add: MINEMU_INTERRUPT_def minemu_interrupt_regs_def)

section \<open>The contract\<close>

text \<open>
  The accesses to the timer are exact in ticks; an access to another register takes any number. With
  no source claimed, the interrupt line is up exactly when some source is requested.
\<close>

definition board_contract :: "'d platform \<Rightarrow> (nat \<Rightarrow> 'd \<Rightarrow> 'd) \<Rightarrow> ('d \<Rightarrow> bool) \<Rightarrow> ('d \<Rightarrow> timer \<times> board) \<Rightarrow> bool" where
  "board_contract P elapse line view \<longleftrightarrow>
     (\<forall>n d. view (elapse n d) = (timer_pass n (fst (view d)), snd (view d)))
     \<and> (\<forall>d. bd_claimed (snd (view d)) = None \<longrightarrow>
          line d = (requests (timer_raised (fst (view d))) (snd (view d)) \<noteq> []))
     \<and> (\<forall>d. view (snd (reg_read P 0x10001008 d)) = (timer_tick (fst (view d)), snd (view d))
          \<and> fst (reg_read P 0x10001008 d) = (if tm_pending (timer_tick (fst (view d))) then 1 else 0))
     \<and> (\<forall>a v d. a \<in> {0x10001000, 0x10001004, 0x1000100c} \<longrightarrow>
          view (reg_write P a v d) = (timer_write a v (fst (view d)), snd (view d)))
     \<and> (\<forall>a d ok b. board_read (timer_raised (fst (view d))) a (snd (view d)) = Some (ok, b) \<longrightarrow>
          ok (fst (reg_read P a d)) \<and> (\<exists>n. view (snd (reg_read P a d)) = (timer_pass n (fst (view d)), b)))
     \<and> (\<forall>a v d b. board_write a v (snd (view d)) = Some b \<longrightarrow>
          (\<exists>n. view (reg_write P a v d) = (timer_pass n (fst (view d)), b)))"

text \<open>Devices that keep it, whose state is what can be seen of them.\<close>

definition sample_board :: "(timer \<times> board) platform" where
  "sample_board = \<lparr>
     reg_read = (\<lambda>a d. if a = 0x10001008
       then (if tm_pending (timer_tick (fst d)) then 1 else 0, timer_tick (fst d), snd d)
       else case board_read (timer_raised (fst d)) a (snd d) of
         None \<Rightarrow> (0, d)
       | Some (ok, b) \<Rightarrow> (if ok 0 then 0 else if ok 1 then 1 else if ok 2 then 2 else 0xffffffff, fst d, b)),
     reg_write = (\<lambda>a v d. if is_timer a then (timer_write a v (fst d), snd d)
       else case board_write a v (snd d) of None \<Rightarrow> d | Some b \<Rightarrow> (fst d, b)) \<rparr>"

definition sample_elapse :: "nat \<Rightarrow> timer \<times> board \<Rightarrow> timer \<times> board" where
  "sample_elapse n d = (timer_pass n (fst d), snd d)"

definition sample_line :: "timer \<times> board \<Rightarrow> bool" where
  "sample_line d \<longleftrightarrow> requests (timer_raised (fst d)) (snd d) \<noteq> []"

lemma served_cases: "served raised b \<in> {0, 1, 2, 0xffffffff}"
  by (simp add: served_def requests_def)

lemma read_value:
  "board_read raised a b = Some (ok, b') \<Longrightarrow> ok 0 \<or> ok 1 \<or> ok 2 \<or> ok 0xffffffff"
  using served_cases [of raised b]
  by (auto simp: board_read_def Let_def split: if_splits prod.splits)

lemma sample_board_contract: "board_contract sample_board sample_elapse sample_line (\<lambda>d. d)"
proof -
  have nt: "a \<noteq> 0x10001008" if "board_read r a b = Some x" for r a b x
    using that by (auto simp: board_read_def)
  have nw: "\<not> is_timer a" if "board_write a v b = Some b'" for a v b b'
    using that by (auto simp: board_write_def is_timer_def split: if_splits)
  have r: "ok (fst (reg_read sample_board a d))"
    and r': "snd (reg_read sample_board a d) = (timer_pass 0 (fst d), b)"
    if rd: "board_read (timer_raised (fst d)) a (snd d) = Some (ok, b)" for a d ok b
    using read_value [OF rd] nt [OF rd] rd by (auto simp: sample_board_def)
  have w: "reg_write sample_board a v d = (timer_pass 0 (fst d), b)"
    if "board_write a v (snd d) = Some b" for a v d b
    using nw [OF that] that by (simp add: sample_board_def)
  show ?thesis
    unfolding board_contract_def
  proof (intro conjI allI impI)
    fix a :: u32 and v d assume "a \<in> {0x10001000, 0x10001004, 0x1000100c}"
    then show "reg_write sample_board a v d = (timer_write a v (fst d), snd d)"
      by (auto simp: sample_board_def is_timer_def)
  qed (simp add: sample_elapse_def, simp add: sample_line_def, simp add: sample_board_def,
    simp add: sample_board_def, erule r, rule exI, erule r', rule exI, erule w)
qed

section \<open>Taking interrupts\<close>

text \<open>
  Between two instructions time passes, and the processor takes interrupts while the line is up and
  they are not masked. Each one taken needs a unit of fuel.
\<close>

fun take_irqs :: "('d \<Rightarrow> bool) \<Rightarrow> (('d, 'z) processor_scheme, unit) cmd \<Rightarrow> nat \<Rightarrow> (('d, 'z) processor_scheme, unit) cmd" where
  "take_irqs line irq 0 s = (OutOfFuel, s)"
| "take_irqs line irq (Suc fuel) s =
     (if line (dev s) \<and> cpsr s AND 0x80 = 0 then bind irq (\<lambda>_. take_irqs line irq fuel) s else (Done (), s))"

definition boundary :: "('d \<Rightarrow> bool) \<Rightarrow> (nat \<Rightarrow> 'd \<Rightarrow> 'd) \<Rightarrow> (('d, 'z) processor_scheme, unit) cmd \<Rightarrow> nat
    \<Rightarrow> (('d, 'z) processor_scheme, unit) cmd" where
  "boundary line elapse irq fuel =
     bind (modify (\<lambda>s. s\<lparr>dev := elapse 1 (dev s)\<rparr>)) (\<lambda>_. take_irqs line irq fuel)"

text \<open>\<^verbatim>\<open>while (cond) { }\<close> over a variable an interrupt changes.\<close>

definition irq_wait :: "('d \<Rightarrow> bool) \<Rightarrow> (nat \<Rightarrow> 'd \<Rightarrow> 'd) \<Rightarrow> (('d, 'z) processor_scheme, unit) cmd \<Rightarrow> nat
    \<Rightarrow> (('d, 'z) processor_scheme \<Rightarrow> bool) \<Rightarrow> (('d, 'z) processor_scheme, unit) cmd" where
  "irq_wait line elapse irq fuel cond =
     poll_while fuel (bind (boundary line elapse irq fuel) (\<lambda>_.
       bind (gets cond) (\<lambda>c. bind (boundary line elapse irq fuel) (\<lambda>_. ret c))))"

section \<open>Triples over the devices\<close>

text \<open>
  An assertion on the timer, the board, and the rest of the state. The rest may not look at the
  devices, and nor at the log beyond the trace port.
\<close>

definition on_board :: "('d \<Rightarrow> timer \<times> board) \<Rightarrow> (timer \<Rightarrow> bool) \<Rightarrow> board \<Rightarrow> (('d, 'z) machine_scheme \<Rightarrow> bool)
    \<Rightarrow> ('d, 'z) machine_scheme \<Rightarrow> bool" where
  "on_board view T b R s \<longleftrightarrow> T (fst (view (dev s))) \<and> snd (view (dev s)) = b \<and> R s"

definition device_blind :: "(('d, 'z) machine_scheme \<Rightarrow> bool) \<Rightarrow> bool" where
  "device_blind R \<longleftrightarrow>
     (\<forall>s d. R s \<longrightarrow> R (s\<lparr>dev := d\<rparr>))
     \<and> (\<forall>s d e. R s \<longrightarrow> trace_values [e] = [] \<longrightarrow> R (s\<lparr>dev := d, io := io s @ [e]\<rparr>))"

definition steady :: "(timer \<Rightarrow> bool) \<Rightarrow> bool" where
  "steady T \<longleftrightarrow> (\<forall>t n. T t \<longrightarrow> T (timer_pass n t))"

lemma steady_stopped: "tm_left t = 0 \<Longrightarrow> steady ((=) t)"
  by (simp add: steady_def pass_stopped)

lemma steady_control: "steady (\<lambda>t. tm_control t = c)"
  by (simp add: steady_def)

lemma blind_dev: "device_blind R \<Longrightarrow> R s \<Longrightarrow> R (s\<lparr>dev := d\<rparr>)"
  and blind_io: "device_blind R \<Longrightarrow> R s \<Longrightarrow> trace_values [e] = [] \<Longrightarrow> R (s\<lparr>dev := d, io := io s @ [e]\<rparr>)"
  unfolding device_blind_def by blast+

lemma board_reads:
  assumes "board_contract P elapse line view" and "device_blind R" and "steady T"
    and "\<And>t. T t \<Longrightarrow> board_read (timer_raised t) a b = Some (ok, b')"
  shows "total (on_board view T b R) (MINEMU_MMIO_READ32 P a) (\<lambda>v s. ok v \<and> on_board view T b' R s)"
proof (rule totalI)
  fix s assume s: "on_board view T b R s"
  let ?v = "fst (reg_read P a (dev s))" and ?d = "snd (reg_read P a (dev s))"
  have "board_read (timer_raised (fst (view (dev s)))) a (snd (view (dev s))) = Some (ok, b')"
    using s assms(4) by (simp add: on_board_def)
  then have "ok ?v" "\<exists>n. view ?d = (timer_pass n (fst (view (dev s))), b')"
    using assms(1) unfolding board_contract_def by blast+
  moreover have "MINEMU_MMIO_READ32 P a s = (Done ?v, s\<lparr>dev := ?d, io := io s @ [RegRead a ?v]\<rparr>)"
    by (simp add: MINEMU_MMIO_READ32_def split_def)
  ultimately show "\<exists>x t. MINEMU_MMIO_READ32 P a s = (Done x, t) \<and> ok x \<and> on_board view T b' R t"
    using s assms(2,3) by (auto simp: on_board_def steady_def intro: blind_io)
qed

lemma board_writes:
  assumes "board_contract P elapse line view" and "device_blind R" and "steady T"
    and "board_write a v b = Some b'" and "a \<noteq> 0x1000f000"
  shows "total (on_board view T b R) (MINEMU_MMIO_WRITE32 P a v) (\<lambda>_. on_board view T b' R)"
proof (rule totalI)
  fix s assume s: "on_board view T b R s"
  then have "board_write a v (snd (view (dev s))) = Some b'" using assms(4) by (simp add: on_board_def)
  then have "\<exists>n. view (reg_write P a v (dev s)) = (timer_pass n (fst (view (dev s))), b')"
    using assms(1) unfolding board_contract_def by blast
  then show "\<exists>x t. MINEMU_MMIO_WRITE32 P a v s = (Done x, t) \<and> on_board view T b' R t"
    using s assms(2,3,5) by (auto simp: MINEMU_MMIO_WRITE32_def on_board_def steady_def intro: blind_io)
qed

lemma timer_reads:
  assumes "board_contract P elapse line view" and "device_blind R"
    and "\<And>t. T t \<Longrightarrow> T' (timer_tick t) \<and> (if tm_pending (timer_tick t) then 1 else 0) = v"
  shows "total (on_board view T b R) (MINEMU_MMIO_READ32 P 0x10001008) (\<lambda>u s. u = v \<and> on_board view T' b R s)"
proof (rule totalI)
  fix s assume s: "on_board view T b R s"
  let ?d = "snd (reg_read P 0x10001008 (dev s))"
  have c: "view ?d = (timer_tick (fst (view (dev s))), snd (view (dev s)))"
    "fst (reg_read P 0x10001008 (dev s)) = (if tm_pending (timer_tick (fst (view (dev s)))) then 1 else 0)"
    using assms(1) unfolding board_contract_def by blast+
  moreover have "fst (reg_read P 0x10001008 (dev s)) = v"
    unfolding c(2) using assms(3) [of "fst (view (dev s))"] s by (simp add: on_board_def)
  moreover have "R (s\<lparr>dev := ?d, io := io s @ [RegRead 0x10001008 v]\<rparr>)"
    by (rule blind_io [OF assms(2)]) (use s in \<open>simp_all add: on_board_def\<close>)
  ultimately show "\<exists>x t. MINEMU_MMIO_READ32 P 0x10001008 s = (Done x, t) \<and> x = v \<and> on_board view T' b R t"
    using s assms(3) [of "fst (view (dev s))"] by (simp add: MINEMU_MMIO_READ32_def on_board_def split_def)
qed

lemma timer_writes:
  assumes "board_contract P elapse line view" and "device_blind R" and "a \<in> {0x10001000, 0x10001004, 0x1000100c}"
    and "\<And>t. T t \<Longrightarrow> T' (timer_write a v t)"
  shows "total (on_board view T b R) (MINEMU_MMIO_WRITE32 P a v) (\<lambda>_. on_board view T' b R)"
proof (rule totalI)
  fix s assume s: "on_board view T b R s"
  have "view (reg_write P a v (dev s)) = (timer_write a v (fst (view (dev s))), snd (view (dev s)))"
    using assms(1,3) unfolding board_contract_def by blast
  moreover have "R (s\<lparr>dev := reg_write P a v (dev s), io := io s @ [RegWrite a v]\<rparr>)"
    by (rule blind_io [OF assms(2)]) (use s assms(3) in \<open>auto simp: on_board_def\<close>)
  ultimately show "\<exists>x t. MINEMU_MMIO_WRITE32 P a v s = (Done x, t) \<and> on_board view T' b R t"
    using s assms(4) by (simp add: MINEMU_MMIO_WRITE32_def on_board_def)
qed

lemma time_passes:
  assumes "board_contract P elapse line view" and "device_blind R"
    and "\<And>t. T t \<Longrightarrow> T' (timer_pass n t)"
  shows "total (on_board view T b R) (modify (\<lambda>s. s\<lparr>dev := elapse n (dev s)\<rparr>)) (\<lambda>_. on_board view T' b R)"
proof (rule total_modify)
  fix s assume s: "on_board view T b R s"
  have "view (elapse n (dev s)) = (timer_pass n (fst (view (dev s))), snd (view (dev s)))"
    using assms(1) unfolding board_contract_def by blast
  with s assms(2,3) show "on_board view T' b R (s\<lparr>dev := elapse n (dev s)\<rparr>)"
    by (auto simp: on_board_def intro: blind_dev)
qed

text \<open>Interrupts between two instructions: none while no source is requested, one and then the rest.\<close>

lemma line_up:
  "board_contract P elapse line view \<Longrightarrow> bd_claimed (snd (view d)) = None \<Longrightarrow>
   line d = (requests (timer_raised (fst (view d))) (snd (view d)) \<noteq> [])"
  unfolding board_contract_def by blast

lemma takes_none:
  "(\<And>s. A s \<Longrightarrow> \<not> line (dev s) \<or> cpsr s AND 0x80 \<noteq> 0) \<Longrightarrow> 0 < fuel \<Longrightarrow>
   total A (take_irqs line irq fuel) (\<lambda>_. A)"
  by (cases fuel) (auto simp: total_def)

lemma takes_one:
  assumes "\<And>s. A s \<Longrightarrow> line (dev s) \<and> cpsr s AND 0x80 = 0" and "total A irq (\<lambda>_. B)"
    and "total B (take_irqs line irq fuel) C"
  shows "total A (take_irqs line irq (Suc fuel)) C"
proof (rule totalI)
  fix s assume "A s"
  with assms(1) have "take_irqs line irq (Suc fuel) s = bind irq (\<lambda>_. take_irqs line irq fuel) s" by simp
  moreover have "total A (bind irq (\<lambda>_. take_irqs line irq fuel)) C" by (rule total_bind [OF assms(2,3)])
  ultimately show "\<exists>x t. take_irqs line irq (Suc fuel) s = (Done x, t) \<and> C x t"
    using \<open>A s\<close> by (metis totalE)
qed

end
