(* ===== verification/InterruptCase.thy ===== *)
theory InterruptCase
  imports Board
begin

text \<open>
  The conformance case \<^verbatim>\<open>headless/interrupts\<close>: exact deadlines of the system timer, claims in the order of
  the priorities, and interrupts that reach the dispatcher through the vector of \<open>Trap\<close> while the main
  program waits for them.
\<close>

section \<open>The case\<close>

record 'd intr_state = "'d processor" +
  irq_count :: u32
  irq_order :: "u32 list"

definition intr_irq_dispatch :: "'d platform \<Rightarrow> u32 \<Rightarrow> ('d intr_state, u32) cmd" where
  "intr_irq_dispatch P frame =
     bind (gets cpsr) (\<lambda>cpsr.
     bind (MINEMU_REQUIRE P (cpsr AND 0x80 \<noteq> 0) 22) (\<lambda>_.
     bind (gets (\<lambda>s. tf_exception_id (trap_frame_at (ram s) frame))) (\<lambda>source.
     bind (gets irq_count) (\<lambda>n.
     bind (MINEMU_REQUIRE P (n < 2) 20) (\<lambda>_.
     bind (MINEMU_REQUIRE P (source = MINEMU_IRQ_UART0 \<or> source = MINEMU_IRQ_UART1) 21) (\<lambda>_.
     bind (modify (\<lambda>s. s\<lparr>irq_count := n + 1\<rparr>)) (\<lambda>_.
     bind (store_at irq_order irq_order_update n source) (\<lambda>_.
     bind (if source = MINEMU_IRQ_UART0 then MINEMU_MMIO_READ32 P (MINEMU_UART0 ''rx_data'')
           else MINEMU_MMIO_READ32 P (MINEMU_UART1 ''rx_data'')) (\<lambda>_.
     bind (MINEMU_MMIO_WRITE32 P (MINEMU_INTERRUPT ''eoi'') source) (\<lambda>_.
     ret frame))))))))))"

definition intr_handlers :: "'d platform \<Rightarrow> 'd intr_state handlers" where
  "intr_handlers P = \<lparr> on_undefined = (\<lambda>p. minemu_fail_stop), on_svc = (\<lambda>p. minemu_fail_stop),
     on_abort = (\<lambda>p. minemu_fail_stop), on_irq = intr_irq_dispatch P \<rparr>"

definition wait_uart :: "'d platform \<Rightarrow> nat \<Rightarrow> (string \<Rightarrow> u32) \<Rightarrow> (('d, 'z) machine_scheme, unit) cmd" where
  "wait_uart P fuel uart =
     poll_while fuel (bind (MINEMU_MMIO_READ32 P (uart ''status'')) (\<lambda>status.
       ret (status AND MINEMU_UART_STATUS_RX_READY = 0)))"

definition claim :: "'d platform \<Rightarrow> (('d, 'z) machine_scheme, u32) cmd" where
  "claim P = MINEMU_MMIO_READ32 P (MINEMU_INTERRUPT ''claim'')"

definition finish :: "'d platform \<Rightarrow> u32 \<Rightarrow> (('d, 'z) machine_scheme, unit) cmd" where
  "finish P source =
     bind (if source = MINEMU_IRQ_SYSTICK then MINEMU_MMIO_WRITE32 P (MINEMU_SYSTICK ''ack'') MINEMU_SYSTICK_ACK
           else if source = MINEMU_IRQ_UART0
           then bind (MINEMU_MMIO_READ32 P (MINEMU_UART0 ''rx_data'')) (\<lambda>_. ret ())
           else if source = MINEMU_IRQ_UART1
           then bind (MINEMU_MMIO_READ32 P (MINEMU_UART1 ''rx_data'')) (\<lambda>_. ret ())
           else ret ()) (\<lambda>_.
     MINEMU_MMIO_WRITE32 P (MINEMU_INTERRUPT ''eoi'') source)"

text \<open>\<^verbatim>\<open>deadlines.S\<close>: every instruction takes one tick; \<open>elapse\<close> is what those do that access no device.\<close>

definition minemu_systick_exact_128 ::
    "'d platform \<Rightarrow> (nat \<Rightarrow> 'd \<Rightarrow> 'd) \<Rightarrow> u32 \<Rightarrow> (('d, 'z) machine_scheme, 64 word) cmd" where
  "minemu_systick_exact_128 P elapse control =
     bind (MINEMU_MMIO_WRITE32 P (MINEMU_SYSTICK ''control'') control) (\<lambda>_.
     bind (modify (\<lambda>s. s\<lparr>dev := elapse 126 (dev s)\<rparr>)) (\<lambda>_.
     bind (MINEMU_MMIO_READ32 P (MINEMU_SYSTICK ''status'')) (\<lambda>r0.
     bind (MINEMU_MMIO_READ32 P (MINEMU_SYSTICK ''status'')) (\<lambda>r1.
     ret (ucast r0 OR push_bit 32 (ucast r1))))))"

definition minemu_systick_exact_64 ::
    "'d platform \<Rightarrow> (nat \<Rightarrow> 'd \<Rightarrow> 'd) \<Rightarrow> u32 \<Rightarrow> (('d, 'z) machine_scheme, u32) cmd" where
  "minemu_systick_exact_64 P elapse control =
     bind (MINEMU_MMIO_WRITE32 P (MINEMU_SYSTICK ''control'') control) (\<lambda>_.
     bind (modify (\<lambda>s. s\<lparr>dev := elapse 62 (dev s)\<rparr>)) (\<lambda>_.
     bind (MINEMU_MMIO_READ32 P (MINEMU_SYSTICK ''status'')) (\<lambda>r0.
     bind (MINEMU_MMIO_READ32 P (MINEMU_SYSTICK ''status'')) (\<lambda>r1.
     bind (modify (\<lambda>s. s\<lparr>dev := elapse 1 (dev s)\<rparr>)) (\<lambda>_.
     bind (MINEMU_MMIO_WRITE32 P (MINEMU_SYSTICK ''ack'') 1) (\<lambda>_.
     bind (modify (\<lambda>s. s\<lparr>dev := elapse 60 (dev s)\<rparr>)) (\<lambda>_.
     bind (MINEMU_MMIO_READ32 P (MINEMU_SYSTICK ''status'')) (\<lambda>r3.
     bind (MINEMU_MMIO_READ32 P (MINEMU_SYSTICK ''status'')) (\<lambda>r2.
     ret (((r0 OR push_bit 8 r1) OR push_bit 16 r3) OR push_bit 24 r2))))))))))"

definition require_claim :: "'d platform \<Rightarrow> u32 \<Rightarrow> u32 \<Rightarrow> (('d, 'z) machine_scheme, unit) cmd" where
  "require_claim P source code = bind (claim P) (\<lambda>v. MINEMU_REQUIRE P (v = source) code)"

text \<open>The parts of the main function, in the order of the source.\<close>

definition intr_timer :: "'d platform \<Rightarrow> (nat \<Rightarrow> 'd \<Rightarrow> 'd) \<Rightarrow> ('d intr_state, unit) cmd list" where
  "intr_timer P elapse =
     [minemu_irq_disable,
      MINEMU_MMIO_WRITE32 P (MINEMU_SYSTICK ''period'') 128,
      bind (minemu_systick_exact_128 P elapse (MINEMU_SYSTICK_CONTROL_ENABLE OR MINEMU_SYSTICK_CONTROL_IRQ_ENABLE))
        (\<lambda>samples. bind (MINEMU_REQUIRE P (low32 samples = 0) 1) (\<lambda>_.
                   MINEMU_REQUIRE P (high32 samples = 1) 13))]"

definition intr_levels :: "'d platform \<Rightarrow> nat \<Rightarrow> ('d intr_state, unit) cmd list" where
  "intr_levels P fuel =
     [wait_uart P fuel MINEMU_UART0,
      wait_uart P fuel MINEMU_UART1,
      MINEMU_MMIO_WRITE32 P (MINEMU_UART0 ''control'') 1,
      MINEMU_MMIO_WRITE32 P (MINEMU_UART1 ''control'') 1,
      MINEMU_MMIO_WRITE32 P (MINEMU_INTERRUPT ''enable'') 7,
      require_claim P MINEMU_IRQ_SYSTICK 2,
      require_claim P MINEMU_IRQ_SYSTICK 3,
      finish P MINEMU_IRQ_SYSTICK]"

definition intr_claims :: "'d platform \<Rightarrow> nat \<Rightarrow> ('d intr_state, unit) cmd list" where
  "intr_claims P fuel =
     [MINEMU_MMIO_WRITE32 P (MINEMU_INTERRUPT ''priority_uart0'') 10,
      MINEMU_MMIO_WRITE32 P (MINEMU_INTERRUPT ''priority_uart1'') 5,
      require_claim P MINEMU_IRQ_UART1 4,
      require_claim P MINEMU_IRQ_UART1 5,
      finish P MINEMU_IRQ_UART1,
      require_claim P MINEMU_IRQ_UART0 6,
      finish P MINEMU_IRQ_UART0,
      wait_uart P fuel MINEMU_UART0,
      wait_uart P fuel MINEMU_UART1,
      MINEMU_MMIO_WRITE32 P (MINEMU_INTERRUPT ''priority_uart0'') 7,
      MINEMU_MMIO_WRITE32 P (MINEMU_INTERRUPT ''priority_uart1'') 7,
      require_claim P MINEMU_IRQ_UART0 7,
      finish P MINEMU_IRQ_UART0,
      require_claim P MINEMU_IRQ_UART1 8,
      finish P MINEMU_IRQ_UART1,
      require_claim P 0xffffffff 9]"

definition intr_periodic :: "'d platform \<Rightarrow> (nat \<Rightarrow> 'd \<Rightarrow> 'd) \<Rightarrow> ('d intr_state, unit) cmd list" where
  "intr_periodic P elapse =
     [MINEMU_MMIO_WRITE32 P (MINEMU_SYSTICK ''period'') 64,
      bind (minemu_systick_exact_64 P elapse (MINEMU_SYSTICK_CONTROL_ENABLE OR MINEMU_SYSTICK_CONTROL_PERIODIC))
        (\<lambda>periodic_samples. MINEMU_REQUIRE P (periodic_samples = 0x01000100) 14),
      MINEMU_MMIO_WRITE32 P (MINEMU_SYSTICK ''ack'') MINEMU_SYSTICK_ACK]"

definition require_order :: "'d platform \<Rightarrow> u32 \<Rightarrow> u32 \<Rightarrow> u32 \<Rightarrow> ('d intr_state, unit) cmd" where
  "require_order P i source code =
     bind (load_at irq_order i) (\<lambda>v. MINEMU_REQUIRE P (v = source) code)"

definition intr_taken :: "'d platform \<Rightarrow> ('d \<Rightarrow> bool) \<Rightarrow> (nat \<Rightarrow> 'd \<Rightarrow> 'd) \<Rightarrow> ('d intr_state, unit) cmd \<Rightarrow> nat
    \<Rightarrow> ('d intr_state, unit) cmd list" where
  "intr_taken P line elapse irq fuel =
     [wait_uart P fuel MINEMU_UART0,
      wait_uart P fuel MINEMU_UART1,
      MINEMU_MMIO_WRITE32 P (MINEMU_INTERRUPT ''priority_uart0'') 9,
      MINEMU_MMIO_WRITE32 P (MINEMU_INTERRUPT ''priority_uart1'') 3,
      minemu_irq_enable,
      irq_wait line elapse irq fuel (\<lambda>s. irq_count s < 2),
      minemu_irq_disable,
      require_order P 0 MINEMU_IRQ_UART1 11,
      require_order P 1 MINEMU_IRQ_UART0 12]"

definition intr_kernel_main :: "'d platform \<Rightarrow> ('d \<Rightarrow> bool) \<Rightarrow> (nat \<Rightarrow> 'd \<Rightarrow> 'd) \<Rightarrow> (nat \<Rightarrow> u32) \<Rightarrow> nat
    \<Rightarrow> ('d intr_state, unit) cmd" where
  "intr_kernel_main P line elapse junk fuel =
     bind (block (intr_timer P elapse @ intr_levels P fuel @ intr_claims P fuel @ intr_periodic P elapse
            @ intr_taken P line elapse (deliver P junk (intr_handlers P) Irq) fuel)) (\<lambda>_.
     bind (minemu_trace_event P 0x20050001) (\<lambda>_. minemu_fail_stop))"

section \<open>Its pieces on devices that keep the contract\<close>

definition intr_rest :: "u32 list \<Rightarrow> 'd intr_state \<Rightarrow> bool" where
  "intr_rest tr s \<longleftrightarrow> length (gpr s) = 13 \<and> cpsr s AND 0x80 \<noteq> 0 \<and> trace_values (io s) = tr
     \<and> irq_count s = 0 \<and> length (irq_order s) = 2"

lemma rest_blind: "device_blind (intr_rest tr)"
  by (simp add: device_blind_def intr_rest_def)

lemma claims:
  assumes "board_contract P elapse line view" and "device_blind R" and "steady T"
    and "\<And>t. T t \<Longrightarrow> served (timer_raised t) b = i" and "bd_claimed b \<in> {None, Some i}"
    and "b' = b\<lparr>bd_claimed := if i = 0xffffffff then None else Some i\<rparr>"
  shows "total (on_board view T b R) (require_claim P i code) (\<lambda>_. on_board view T b' R)"
  unfolding require_claim_def claim_def
proof (rule total_bind)
  show "total (on_board view T b R) (MINEMU_MMIO_READ32 P (MINEMU_INTERRUPT ''claim''))
      (\<lambda>v s. v = i \<and> on_board view T b' R s)"
    unfolding register_addresses
    by (rule board_reads [OF assms(1-3), where ok = "\<lambda>v. v = i"]) (use assms(4-6) in \<open>simp add: board_read_def Let_def\<close>)
qed (rule total_require; simp)

lemma finish_timer:
  assumes "board_contract P elapse line view" and "device_blind R" and "tm_left t = 0" and "bd_claimed b = Some 0"
  shows "total (on_board view ((=) t) b R) (finish P 0)
    (\<lambda>_. on_board view ((=) (t\<lparr>tm_pending := False\<rparr>)) (b\<lparr>bd_claimed := None\<rparr>) R)"
  unfolding finish_def register_addresses if_True simp_thms
proof (rule total_bind)
  show "total (on_board view ((=) t) b R) (MINEMU_MMIO_WRITE32 P 0x1000100c 1)
      (\<lambda>_. on_board view ((=) (t\<lparr>tm_pending := False\<rparr>)) b R)"
    by (rule timer_writes [OF assms(1,2)]) (use assms(3) in \<open>simp_all add: timer_write_def timer_tick_def\<close>)
  show "total (on_board view ((=) (t\<lparr>tm_pending := False\<rparr>)) b R) (MINEMU_MMIO_WRITE32 P 0x1000000c 0)
      (\<lambda>_. on_board view ((=) (t\<lparr>tm_pending := False\<rparr>)) (b\<lparr>bd_claimed := None\<rparr>) R)"
    by (rule board_writes [OF assms(1,2) steady_stopped]) (use assms(3,4) in \<open>simp_all add: board_write_def\<close>)
qed

lemma finish_uart:
  assumes "board_contract P elapse line view" and "device_blind R" and "steady T" and "bd_claimed b = Some i"
    and "i = 1 \<and> b' = b\<lparr>bd_full0 := False\<rparr> \<or> i = 2 \<and> b' = b\<lparr>bd_full1 := False\<rparr>"
  shows "total (on_board view T b R) (finish P i) (\<lambda>_. on_board view T (b'\<lparr>bd_claimed := None\<rparr>) R)"
proof -
  have w: "total (on_board view T b' R) (MINEMU_MMIO_WRITE32 P 0x1000000c i)
      (\<lambda>_. on_board view T (b'\<lparr>bd_claimed := None\<rparr>) R)"
    by (rule board_writes [OF assms(1-3)]) (use assms(4,5) in \<open>auto simp: board_write_def\<close>)
  have r: "total (on_board view T b R) (bind (MINEMU_MMIO_READ32 P a) (\<lambda>_. ret ())) (\<lambda>_. on_board view T b' R)"
    if "i = 1 \<and> a = 0x10004000 \<or> i = 2 \<and> a = 0x10005000" for a
    by (rule total_bind, rule board_reads [OF assms(1-3), where ok = "\<lambda>v. True" and b' = b'])
      (use that assms(5) in \<open>auto simp: board_read_def intro: total_ret\<close>)
  show ?thesis
    using assms(5) total_bind [OF r w] by (auto simp: finish_def register_addresses)
qed

text \<open>The wait for a byte: at once, or after the polls the next round takes.\<close>

lemma uart_polls:
  assumes "board_contract P elapse line view" and "device_blind R" and "steady T"
    and "uart = MINEMU_UART0 \<and> uart_poll (bd_full0 b) b = (r, b')
      \<or> uart = MINEMU_UART1 \<and> uart_poll (bd_full1 b) b = (r, b')"
  shows "total (on_board view T b R)
    (bind (MINEMU_MMIO_READ32 P (uart ''status'')) (\<lambda>status. ret (status AND MINEMU_UART_STATUS_RX_READY = 0)))
    (\<lambda>c s. c = (\<not> r) \<and> on_board view T b' R s)"
proof (rule total_bind)
  show "total (on_board view T b R) (MINEMU_MMIO_READ32 P (uart ''status''))
      (\<lambda>v s. v AND 1 = (if r then 1 else 0) \<and> on_board view T b' R s)"
    by (rule board_reads [OF assms(1-3), where ok = "\<lambda>v. v AND 1 = (if r then 1 else 0)"])
      (use assms(4) in \<open>auto simp: board_read_def register_addresses simp del: uart_poll.simps\<close>)
qed (rule total_ret; auto)

lemma wait_full:
  assumes "board_contract P elapse line view" and "device_blind R" and "steady T" and "0 < fuel"
    and "uart = MINEMU_UART0 \<and> bd_full0 b \<or> uart = MINEMU_UART1 \<and> bd_full1 b"
  shows "total (on_board view T b R) (wait_uart P fuel uart) (\<lambda>_. on_board view T b R)"
proof -
  from \<open>0 < fuel\<close> obtain n where n: "fuel = Suc n" by (cases fuel) auto
  show ?thesis
    unfolding wait_uart_def n
    by (rule total_poll_done, rule total_weaken [OF uart_polls [OF assms(1-3), where r = True and b' = b]])
      (use assms(5) in auto)
qed

lemma wait_empty:
  assumes "board_contract P elapse line view" and "device_blind R" and "steady T"
    and "uart = MINEMU_UART0 \<and> \<not> bd_full0 b \<or> uart = MINEMU_UART1 \<and> \<not> bd_full1 b"
    and "bd_inputs b = n # ns" and "n < fuel"
    and "b' = b\<lparr>bd_full0 := True, bd_full1 := True, bd_inputs := ns\<rparr>"
  shows "total (on_board view T b R) (wait_uart P fuel uart) (\<lambda>_. on_board view T b' R)"
  using assms(4-)
proof (induction n arbitrary: b fuel)
  case 0
  then obtain k where k: "fuel = Suc k" by (cases fuel) auto
  show ?case
    unfolding wait_uart_def k
    by (rule total_poll_done, rule total_weaken [OF uart_polls [OF assms(1-3), where r = True and b' = b']])
      (use 0 in auto)
next
  case (Suc n)
  then obtain k where k: "fuel = Suc k" by (cases fuel) auto
  have "total (on_board view T (b\<lparr>bd_inputs := n # ns\<rparr>) R) (wait_uart P k uart) (\<lambda>_. on_board view T b' R)"
    by (rule Suc.IH) (use Suc.prems k in auto)
  then show ?case
    unfolding wait_uart_def k
    by (rule total_poll_step [rotated])
      (rule total_weaken [OF uart_polls [OF assms(1-3), where r = False and b' = "b\<lparr>bd_inputs := n # ns\<rparr>"]],
        use Suc.prems in auto)
qed

section \<open>Deadlines\<close>

text \<open>The timer is pending at the tick it is set to, and not one before.\<close>

lemma exact_128:
  assumes "board_contract P elapse line view" and "device_blind R"
    and "tm_left t = 0" "tm_period t = 128" "\<not> tm_pending t"
  shows "total (on_board view ((=) t) b R) (minemu_systick_exact_128 P elapse 5)
    (\<lambda>r s. r = ucast (0 :: u32) OR push_bit 32 (ucast (1 :: u32))
      \<and> on_board view ((=) (t\<lparr>tm_control := 5, tm_pending := True, tm_left := 0\<rparr>)) b R s)"
proof -
  let ?B = "\<lambda>n. on_board view ((=) (t\<lparr>tm_control := 5, tm_left := n\<rparr>)) b R"
  have w: "total (on_board view ((=) t) b R) (MINEMU_MMIO_WRITE32 P 0x10001004 5) (\<lambda>_. ?B 128)"
    by (rule timer_writes [OF assms(1,2)]) (use assms(3-5) in \<open>simp_all add: timer_write_def timer_tick_def\<close>)
  have e: "total (?B 128) (modify (\<lambda>s. s\<lparr>dev := elapse 126 (dev s)\<rparr>)) (\<lambda>_. ?B 2)"
    by (rule time_passes [OF assms(1,2)]) (use assms(3-5) in \<open>auto simp: pass_running\<close>)
  have r0: "total (?B 2) (MINEMU_MMIO_READ32 P 0x10001008) (\<lambda>u s. u = 0 \<and> ?B 1 s)"
    by (rule timer_reads [OF assms(1,2)]) (use assms(3-5) in \<open>auto simp: timer_tick_def\<close>)
  have r1: "total (?B 1) (MINEMU_MMIO_READ32 P 0x10001008) (\<lambda>u s. u = 1
      \<and> on_board view ((=) (t\<lparr>tm_control := 5, tm_pending := True, tm_left := 0\<rparr>)) b R s)"
    by (rule timer_reads [OF assms(1,2)]) (use assms(3-5) in \<open>auto simp: timer_tick_def\<close>)
  show ?thesis
    unfolding minemu_systick_exact_128_def register_addresses
    by (rule total_bind [OF w], rule total_bind [OF e], rule total_bind_value [OF r0],
        rule total_bind_value [OF r1], rule total_ret) simp
qed

lemma exact_64:
  assumes "board_contract P elapse line view" and "device_blind R"
    and "tm_left t = 0" "tm_period t = 64" "\<not> tm_pending t"
  shows "total (on_board view ((=) t) b R) (minemu_systick_exact_64 P elapse 3)
    (\<lambda>r s. r = 0x01000100 \<and> on_board view (\<lambda>t. tm_control t = 3) b R s)"
proof -
  let ?B = "\<lambda>n p. on_board view ((=) (t\<lparr>tm_control := 3, tm_left := n, tm_pending := p\<rparr>)) b R"
  have w: "total (on_board view ((=) t) b R) (MINEMU_MMIO_WRITE32 P 0x10001004 3) (\<lambda>_. ?B 64 False)"
    by (rule timer_writes [OF assms(1,2)]) (use assms(3-5) in \<open>simp_all add: timer_write_def timer_tick_def\<close>)
  have e: "total (?B k p) (modify (\<lambda>s. s\<lparr>dev := elapse n (dev s)\<rparr>)) (\<lambda>_. ?B m p)" if "0 < m" "k = m + n" for k m n p
    by (rule time_passes [OF assms(1,2)]) (use that in \<open>auto simp: pass_running\<close>)
  have r0: "total (?B 2 False) (MINEMU_MMIO_READ32 P 0x10001008) (\<lambda>u s. u = 0 \<and> ?B 1 False s)"
    by (rule timer_reads [OF assms(1,2)]) (use assms(3-5) in \<open>auto simp: timer_tick_def\<close>)
  have r1: "total (?B 1 False) (MINEMU_MMIO_READ32 P 0x10001008) (\<lambda>u s. u = 1 \<and> ?B 64 True s)"
    by (rule timer_reads [OF assms(1,2)]) (use assms(3-5) in \<open>auto simp: timer_tick_def\<close>)
  have a: "total (?B 63 True) (MINEMU_MMIO_WRITE32 P 0x1000100c 1) (\<lambda>_. ?B 62 False)"
    by (rule timer_writes [OF assms(1,2)]) (use assms(3-5) in \<open>simp_all add: timer_write_def timer_tick_def\<close>)
  have r2: "total (?B 64 True) (ret x) (\<lambda>r s. r = x \<and> on_board view (\<lambda>t. tm_control t = 3) b R s)" for x :: u32
    by (rule total_ret) (auto simp: on_board_def dest!: sym [of _ "fst v" for v])
  show ?thesis
    unfolding minemu_systick_exact_64_def register_addresses
    by (rule total_bind [OF w], rule total_bind [OF e [where m = 2]], simp, simp, rule total_bind_value [OF r0],
        rule total_bind_value [OF r1], rule total_bind [OF e [where m = 63]], simp, simp, rule total_bind [OF a],
        rule total_bind [OF e [where m = 2]], simp, simp, rule total_bind_value [OF r0],
        rule total_bind_value [OF r1], rule total_weaken [OF r2]) simp_all
qed

section \<open>Interrupts taken\<close>

definition intr_run :: "u32 list \<Rightarrow> u32 \<Rightarrow> u32 list \<Rightarrow> 'd intr_state \<Rightarrow> bool" where
  "intr_run tr n order s \<longleftrightarrow> length (gpr s) = 13 \<and> cpsr s AND 0x80 = 0 \<and> trace_values (io s) = tr
     \<and> irq_count s = n \<and> irq_order s = order"

lemma run_blind: "device_blind (intr_run tr n order)"
  by (simp add: device_blind_def intr_run_def)

text \<open>One interrupt of a UART: claimed, recorded, drained and ended, and the main program resumed.\<close>

lemma irq_delivered:
  fixes view :: "'d \<Rightarrow> timer \<times> board"
  assumes c: "board_contract P elapse line view" and T: "steady T"
    and i: "\<And>t. T t \<Longrightarrow> served (timer_raised t) b = i" and none: "bd_claimed b = None"
    and n: "n < 2" "length order = 2"
    and b': "i = 1 \<and> b' = b\<lparr>bd_full0 := False\<rparr> \<or> i = 2 \<and> b' = b\<lparr>bd_full1 := False\<rparr>"
  shows "total (on_board view T b (intr_run tr n order)) (deliver P junk (intr_handlers P) Irq)
    (\<lambda>_. on_board view T b' (intr_run tr (n + 1) (order[unat n := i])))"
proof (rule totalI)
  fix s :: "'d intr_state" assume s: "on_board view T b (intr_run tr n order) s"
  let ?p = "exc_sp s - 88" and ?c = "called P Irq s" and ?claimed = "b\<lparr>bd_claimed := Some i\<rparr>"
  have len: "length (gpr s) = 13" using s by (simp add: on_board_def intr_run_def)
  have "board_read (timer_raised (fst (view (dev s)))) 0x10000008 (snd (view (dev s))) =
      Some (\<lambda>v. v = i, ?claimed)"
    using s i none b' by (auto simp: on_board_def board_read_def Let_def)
  then have "fst (reg_read P 0x10000008 (dev s)) = i"
    "\<exists>n. view (snd (reg_read P 0x10000008 (dev s))) = (timer_pass n (fst (view (dev s))), ?claimed)"
    using c unfolding board_contract_def by blast+
  then have claim: "claimed_of P s = i" and at: "T (fst (view (dev ?c)))" "snd (view (dev ?c)) = ?claimed"
    using s T by (auto simp: claimed_of_def called_def Let_def on_board_def steady_def)
  have frame: "trap_frame_at (ram ?c) ?p = trap_frame_of Irq i s"
    using trap_frame_called [OF len, of P Irq] claim by simp
  let ?t = "?c\<lparr>irq_count := n + 1, irq_order := order[unat n := i]\<rparr>"
  let ?R = "\<lambda>x :: 'd intr_state. ram x = ram ?c \<and> length (gpr x) = 13 \<and> trace_values (io x) = tr
      \<and> irq_count x = n + 1 \<and> irq_order x = order[unat n := i]"
  have R: "device_blind ?R" by (simp add: device_blind_def)
  have t: "on_board view T ?claimed ?R ?t"
    using at len s by (simp add: on_board_def intr_run_def called_def Let_def take_exception_def)
  have "total (on_board view T ?claimed ?R)
      (if i = MINEMU_IRQ_UART0 then MINEMU_MMIO_READ32 P 0x10004000 else MINEMU_MMIO_READ32 P 0x10005000)
      (\<lambda>v x. True \<and> on_board view T (b'\<lparr>bd_claimed := Some i\<rparr>) ?R x)"
    using b' board_reads [OF c R T, where ok = "\<lambda>v. True" and b = ?claimed and b' = "b'\<lparr>bd_claimed := Some i\<rparr>"]
    by (auto simp: board_read_def)
  moreover have "total (on_board view T (b'\<lparr>bd_claimed := Some i\<rparr>) ?R) (MINEMU_MMIO_WRITE32 P 0x1000000c i)
      (\<lambda>_. on_board view T b' ?R)"
    by (rule board_writes [OF c R T]) (use b' none in \<open>auto simp: board_write_def\<close>)
  ultimately have "total (on_board view T ?claimed ?R)
      (bind (if i = MINEMU_IRQ_UART0 then MINEMU_MMIO_READ32 P 0x10004000 else MINEMU_MMIO_READ32 P 0x10005000)
        (\<lambda>_. bind (MINEMU_MMIO_WRITE32 P 0x1000000c i) (\<lambda>_. ret ?p)))
      (\<lambda>q x. q = ?p \<and> on_board view T b' ?R x)"
    by (auto intro!: total_bind total_ret)
  from this t obtain q x where x: "bind (if i = MINEMU_IRQ_UART0 then MINEMU_MMIO_READ32 P 0x10004000
        else MINEMU_MMIO_READ32 P 0x10005000) (\<lambda>_. bind (MINEMU_MMIO_WRITE32 P 0x1000000c i) (\<lambda>_. ret ?p)) ?t = (Done q, x)"
      "q = ?p \<and> on_board view T b' ?R x" by (rule totalE)
  have c_facts: "cpsr ?c AND 0x80 \<noteq> 0" "irq_count ?c = n" "irq_order ?c = order"
    using s by (simp_all add: called_def take_exception_def Let_def on_board_def intr_run_def bit.conj_disj_distrib2)
  have "dispatched junk (intr_handlers P) Irq ?p ?c = (Done ?p, x)"
    using x c_facts frame n b'
    by (auto simp: dispatched_def intr_handlers_def intr_irq_dispatch_def cmd_simps register_addresses
        trap_frame_of_def word_less_nat_alt)
  then have "deliver P junk (intr_handlers P) Irq s = (Done (), resume 4 ?p x)"
    using deliver_result [OF len, of junk "intr_handlers P" Irq P ?p x] x(2) by (simp add: on_board_def)
  moreover have "on_board view T b' (intr_run tr (n + 1) (order[unat n := i])) (resume 4 ?p x)"
  proof -
    have "cpsr (resume 4 ?p x) = cpsr s"
      using x(2) frame by (simp add: resume_def Let_def on_board_def trap_frame_of_def)
    moreover have "irq_count (resume 4 ?p x) = irq_count x" "irq_order (resume 4 ?p x) = irq_order x"
      by (simp_all add: resume_def Let_def)
    ultimately show ?thesis using x(2) s by (simp add: on_board_def intr_run_def)
  qed
  ultimately show "\<exists>u t. deliver P junk (intr_handlers P) Irq s = (Done u, t)
      \<and> on_board view T b' (intr_run tr (n + 1) (order[unat n := i])) t" by blast
qed

text \<open>The wait of the main program: both UARTs are served before it looks again.\<close>

lemma wait_serves:
  fixes view :: "'d \<Rightarrow> timer \<times> board"
  assumes c: "board_contract P elapse line view" and T: "steady T" "\<And>t. T t \<Longrightarrow> \<not> timer_raised t"
    and b: "bd_full0 b" "bd_full1 b" "bd_irq0 b" "bd_irq1 b" "bd_enable b = 7" "bd_claimed b = None"
      "bd_prio1 b < bd_prio0 b"
    and "length order = 2" and "3 \<le> fuel"
  shows "total (on_board view T b (intr_run tr 0 order))
    (irq_wait line elapse (deliver P junk (intr_handlers P) Irq) fuel (\<lambda>s. irq_count s < 2))
    (\<lambda>_. on_board view T (b\<lparr>bd_full0 := False, bd_full1 := False\<rparr>) (intr_run tr 2 [2, 1]))"
proof -
  from \<open>3 \<le> fuel\<close> obtain n where n: "fuel = Suc (Suc (Suc n))" by (auto simp: le_iff_add numeral_3_eq_3)
  let ?irq = "deliver P junk (intr_handlers P) Irq" and ?b1 = "b\<lparr>bd_full1 := False\<rparr>"
    and ?b2 = "b\<lparr>bd_full0 := False, bd_full1 := False\<rparr>"
  let ?Q = "on_board view T ?b2 (intr_run tr 2 [2, 1])"
  obtain x y where order: "order = [x, y]" using \<open>length order = 2\<close> by (auto simp: length_Suc_conv numeral_2_eq_2)
  have up: "line (dev s) \<and> cpsr s AND 0x80 = 0"
    if "on_board view T b' (intr_run tr k order') s" "b' = b \<or> b' = ?b1" for s b' k order'
    using that line_up [OF c, of "dev s"] b by (auto simp: on_board_def intr_run_def requests_def)
  have up1: "line (dev s) \<and> cpsr s AND 0x80 = 0" if "on_board view T b (intr_run tr 0 order) s" for s
    by (rule up [OF that]) simp
  have up2: "line (dev s) \<and> cpsr s AND 0x80 = 0" if "on_board view T ?b1 (intr_run tr 1 [2, y]) s" for s
    by (rule up [OF that]) simp
  have first: "total (on_board view T b (intr_run tr 0 order)) ?irq (\<lambda>_. on_board view T ?b1 (intr_run tr 1 [2, y]))"
    using irq_delivered [OF c T(1), of b 2 0 order ?b1 tr junk] b T(2)
    by (simp add: served_def requests_def order)
  have second: "total (on_board view T ?b1 (intr_run tr 1 [2, y])) ?irq (\<lambda>_. ?Q)"
    using irq_delivered [OF c T(1), of ?b1 1 1 "[2, y]" ?b2 tr junk] b T(2)
    by (simp add: served_def requests_def)
  have down: "\<not> line (dev s)" if "?Q s" for s
    using that line_up [OF c, of "dev s"] b T(2) by (auto simp: on_board_def requests_def)
  have tick: "total (on_board view T b' R) (modify (\<lambda>s. s\<lparr>dev := elapse 1 (dev s)\<rparr>)) (\<lambda>_. on_board view T b' R)"
    if "device_blind R" for b' and R :: "'d intr_state \<Rightarrow> bool"
    by (rule time_passes [OF c that]) (rule T(1) [unfolded steady_def, rule_format])
  have none: "total ?Q (take_irqs line ?irq (Suc k)) (\<lambda>_. ?Q)" for k
    using down by (intro takes_none) auto
  have serve: "total (on_board view T b (intr_run tr 0 order)) (boundary line elapse ?irq fuel) (\<lambda>_. ?Q)"
    unfolding boundary_def n
    using takes_one [where line = line, OF up2 second none, of n] takes_one [where line = line, OF up1 first]
    by (blast intro: total_bind [OF tick [OF run_blind]])
  have rest: "total ?Q (boundary line elapse ?irq fuel) (\<lambda>_. ?Q)"
    unfolding boundary_def n by (rule total_bind [OF tick [OF run_blind]], rule none)
  have look: "total ?Q (gets (\<lambda>s. irq_count s < 2)) (\<lambda>c s. c = False \<and> ?Q s)"
    by (rule total_gets) (simp add: on_board_def intr_run_def)
  have "total (on_board view T b (intr_run tr 0 order))
      (bind (boundary line elapse ?irq fuel) (\<lambda>_. bind (gets (\<lambda>s. irq_count s < 2)) (\<lambda>c.
        bind (boundary line elapse ?irq fuel) (\<lambda>_. ret c)))) (\<lambda>c s. \<not> c \<and> ?Q s)"
    by (rule total_bind [OF serve], rule total_bind_value [OF look], rule total_bind [OF rest], rule total_ret) simp
  from total_poll_done [OF this, of "Suc (Suc n)"] show ?thesis
    by (simp add: irq_wait_def n)
qed

section \<open>The run of the case\<close>

abbreviation (input) case_board :: "bool \<Rightarrow> bool \<Rightarrow> nat list \<Rightarrow> u32 \<Rightarrow> u32 \<Rightarrow> u32 option \<Rightarrow> board" where
  "case_board full0 full1 inputs prio0 prio1 source \<equiv> \<lparr> bd_full0 = full0, bd_full1 = full1, bd_inputs = inputs,
     bd_irq0 = True, bd_irq1 = True, bd_enable = 7, bd_prio0 = prio0, bd_prio1 = prio1, bd_claimed = source \<rparr>"

lemma claims_now:
  "board_contract P elapse line view \<Longrightarrow> device_blind R \<Longrightarrow> tm_left t = 0 \<Longrightarrow>
   served (timer_raised t) b = i \<Longrightarrow> bd_claimed b \<in> {None, Some i} \<Longrightarrow>
   b' = b\<lparr>bd_claimed := if i = 0xffffffff then None else Some i\<rparr> \<Longrightarrow>
   total (on_board view ((=) t) b R) (require_claim P i code) (\<lambda>_. on_board view ((=) t) b' R)"
  by (rule claims) (auto intro: steady_stopped)

lemma intr_levels_run:
  fixes view :: "'d \<Rightarrow> timer \<times> board"
  assumes c: "board_contract P elapse line view" and R: "device_blind R"
    and t: "tm_left t = 0" "tm_pending t" "tm_control t = 5"
    and b: "\<not> bd_full0 b" "\<not> bd_full1 b" "bd_inputs b = n # ns" "bd_claimed b = None" and "n < fuel"
  shows "total (on_board view ((=) t) b R) (block (intr_levels P fuel))
    (\<lambda>_. on_board view ((=) (t\<lparr>tm_pending := False\<rparr>)) (case_board True True ns (bd_prio0 b) (bd_prio1 b) None) R)"
proof -
  obtain i0 i1 e p0 p1 where b_eq: "b = \<lparr> bd_full0 = False, bd_full1 = False, bd_inputs = n # ns,
      bd_irq0 = i0, bd_irq1 = i1, bd_enable = e, bd_prio0 = p0, bd_prio1 = p1, bd_claimed = None \<rparr>"
    using b by (cases b) auto
  have up: "timer_raised t" using t by (simp add: timer_raised_def)
  have f0: "0 < fuel" using \<open>n < fuel\<close> by simp
  note T = steady_stopped [OF t(1)] and cl = claims_now [OF c R t(1)]
  show ?thesis
    unfolding intr_levels_def register_addresses b_eq
    by (rule total_block_Cons, rule wait_empty [OF c R T], simp, simp, rule \<open>n < fuel\<close>, simp,
       rule total_block_Cons, rule wait_full [OF c R T f0], simp,
       rule total_block_Cons, rule board_writes [OF c R T], simp add: board_write_def, simp,
       rule total_block_Cons, rule board_writes [OF c R T], simp add: board_write_def, simp,
       rule total_block_Cons, rule board_writes [OF c R T], simp add: board_write_def, simp,
       rule total_block_Cons, rule cl, simp add: served_def requests_def up, simp, simp,
       rule total_block_Cons, rule cl, simp add: served_def requests_def up, simp, simp,
       rule total_block_Cons, rule finish_timer [OF c R t(1)], simp,
       rule total_block_Nil, simp)
qed

lemma intr_claims_run:
  fixes view :: "'d \<Rightarrow> timer \<times> board"
  assumes c: "board_contract P elapse line view" and R: "device_blind R"
    and t: "tm_left t = 0" "\<not> tm_pending t" and "n < fuel"
  shows "total (on_board view ((=) t) (case_board True True (n # ns) p0 p1 None) R) (block (intr_claims P fuel))
    (\<lambda>_. on_board view ((=) t) (case_board False False ns 7 7 None) R)"
proof -
  have down: "\<not> timer_raised t" using t by (simp add: timer_raised_def)
  have f0: "0 < fuel" using \<open>n < fuel\<close> by simp
  note T = steady_stopped [OF t(1)] and cl = claims_now [OF c R t(1)]
  note fin = finish_uart [OF c R T]
  show ?thesis
    unfolding intr_claims_def reg_addrs
    by (rule total_block_Cons, rule board_writes [OF c R T], simp add: board_write_def, simp,
       rule total_block_Cons, rule board_writes [OF c R T], simp add: board_write_def, simp,
       rule total_block_Cons, rule cl, simp add: served_def requests_def down, simp, simp,
       rule total_block_Cons, rule cl, simp add: served_def requests_def down, simp, simp,
       rule total_block_Cons, rule fin, simp, rule disjI2, simp,
       rule total_block_Cons, rule cl, simp add: served_def requests_def down, simp, simp,
       rule total_block_Cons, rule fin, simp, rule disjI1, simp,
       rule total_block_Cons, rule wait_empty [OF c R T], simp, simp, rule \<open>n < fuel\<close>, simp,
       rule total_block_Cons, rule wait_full [OF c R T f0], simp,
       rule total_block_Cons, rule board_writes [OF c R T], simp add: board_write_def, simp,
       rule total_block_Cons, rule board_writes [OF c R T], simp add: board_write_def, simp,
       rule total_block_Cons, rule cl, simp add: served_def requests_def down, simp, simp,
       rule total_block_Cons, rule fin, simp, rule disjI1, simp,
       rule total_block_Cons, rule cl, simp add: served_def requests_def down, simp, simp,
       rule total_block_Cons, rule fin, simp, rule disjI2, simp,
       rule total_block_Cons, rule cl, simp add: served_def requests_def down, simp, simp,
       rule total_block_Nil, simp)
qed

lemma intr_timer_run:
  fixes view :: "'d \<Rightarrow> timer \<times> board"
  assumes c: "board_contract P elapse line view" and t: "tm_left t = 0" "\<not> tm_pending t"
  shows "total (on_board view ((=) t) b (\<lambda>s. length (gpr s) = 13 \<and> trace_values (io s) = tr
      \<and> irq_count s = 0 \<and> length (irq_order s) = 2))
    (block (intr_timer P elapse))
    (\<lambda>_. on_board view ((=) (t\<lparr>tm_period := 128, tm_control := 5, tm_pending := True, tm_left := 0\<rparr>)) b (intr_rest tr))"
proof -
  let ?t = "t\<lparr>tm_period := 128\<rparr>"
  have p: "total (on_board view ((=) t) b (intr_rest tr)) (MINEMU_MMIO_WRITE32 P 0x10001000 128)
      (\<lambda>_. on_board view ((=) ?t) b (intr_rest tr))"
    by (rule timer_writes [OF c rest_blind]) (use t in \<open>simp_all add: timer_write_def timer_tick_def\<close>)
  have e: "total (on_board view ((=) ?t) b (intr_rest tr)) (minemu_systick_exact_128 P elapse (1 OR 4))
    (\<lambda>r s. r = ucast (0 :: u32) OR push_bit 32 (ucast (1 :: u32))
      \<and> on_board view ((=) (?t\<lparr>tm_control := 5, tm_pending := True, tm_left := 0\<rparr>)) b (intr_rest tr) s)"
    using exact_128 [OF c rest_blind, of ?t b tr] t by simp
  show ?thesis
    unfolding intr_timer_def register_addresses
    by (rule total_block_Cons [where B = "on_board view ((=) t) b (intr_rest tr)"],
        simp add: minemu_irq_disable_def total_def cmd_simps on_board_def intr_rest_def bit.conj_disj_distrib2,
        rule total_block_Cons [OF p], rule total_block_Cons [OF total_bind_value [OF e]],
        rule total_bind, rule total_require, rule samples_parts, assumption,
        rule total_require, rule samples_parts, assumption,
        rule total_block_Nil, simp)
qed

lemma intr_periodic_run:
  fixes view :: "'d \<Rightarrow> timer \<times> board"
  assumes c: "board_contract P elapse line view" and R: "device_blind R" and t: "tm_left t = 0" "\<not> tm_pending t"
  shows "total (on_board view ((=) t) b R) (block (intr_periodic P elapse))
    (\<lambda>_. on_board view (\<lambda>t. tm_control t = 3) b R)"
proof -
  have p: "total (on_board view ((=) t) b R) (MINEMU_MMIO_WRITE32 P 0x10001000 64)
      (\<lambda>_. on_board view ((=) (t\<lparr>tm_period := 64\<rparr>)) b R)"
    by (rule timer_writes [OF c R]) (use t in \<open>simp_all add: timer_write_def timer_tick_def\<close>)
  have e: "total (on_board view ((=) (t\<lparr>tm_period := 64\<rparr>)) b R) (minemu_systick_exact_64 P elapse (1 OR 2))
    (\<lambda>r s. r = 0x01000100 \<and> on_board view (\<lambda>t. tm_control t = 3) b R s)"
    using exact_64 [OF c R, of "t\<lparr>tm_period := 64\<rparr>" b] t by simp
  have a: "total (on_board view (\<lambda>t. tm_control t = 3) b R) (MINEMU_MMIO_WRITE32 P 0x1000100c 1)
      (\<lambda>_. on_board view (\<lambda>t. tm_control t = 3) b R)"
    by (rule timer_writes [OF c R]) (simp_all add: timer_write_def)
  show ?thesis
    unfolding intr_periodic_def register_addresses
    by (rule total_block_Cons [OF p], rule total_block_Cons [OF total_bind_value [OF e]],
        rule total_require, simp, assumption, rule total_block_Cons [OF a], rule total_block_Nil, simp)
qed

lemma intr_taken_run:
  fixes view :: "'d \<Rightarrow> timer \<times> board"
  assumes c: "board_contract P elapse line view" and fuel: "n < fuel" "3 \<le> fuel"
  shows "total (on_board view (\<lambda>t. tm_control t = 3) (case_board False False [n] 7 7 None) (intr_rest tr))
    (block (intr_taken P line elapse (deliver P junk (intr_handlers P) Irq) fuel))
    (\<lambda>_ s. trace_values (io s) = tr)"
proof -
  let ?T = "\<lambda>t. tm_control t = 3" and ?full = "case_board True True [] 9 3 None"
  note T = steady_control [of 3]
  have f0: "0 < fuel" using fuel by simp
  have "total (on_board view ?T ?full (intr_run tr 0 order))
      (irq_wait line elapse (deliver P junk (intr_handlers P) Irq) fuel (\<lambda>s. irq_count s < 2))
      (\<lambda>_. on_board view ?T (case_board False False [] 9 3 None) (intr_run tr 2 [2, 1]))" if "length order = 2" for order
    using wait_serves [OF c T, where b = ?full and order = order and fuel = fuel and tr = tr and junk = junk] that fuel
    by (simp add: timer_raised_def)
  then have serve: "total (\<lambda>s. \<exists>order. length order = 2 \<and> on_board view ?T ?full (intr_run tr 0 order) s)
      (irq_wait line elapse (deliver P junk (intr_handlers P) Irq) fuel (\<lambda>s. irq_count s < 2))
      (\<lambda>_. on_board view ?T (case_board False False [] 9 3 None) (intr_run tr 2 [2, 1]))"
    unfolding total_def by blast
  have enable: "total (on_board view ?T ?full (intr_rest tr)) minemu_irq_enable
      (\<lambda>_ s. \<exists>order. length order = 2 \<and> on_board view ?T ?full (intr_run tr 0 order) s)"
    by (auto simp: minemu_irq_enable_def total_def cmd_simps on_board_def intr_rest_def intr_run_def and.assoc)
  have tail: "total (on_board view ?T (case_board False False [] 9 3 None) (intr_run tr 2 [2, 1]))
      (block [minemu_irq_disable, require_order P 0 MINEMU_IRQ_UART1 11, require_order P 1 MINEMU_IRQ_UART0 12])
      (\<lambda>_ s. trace_values (io s) = tr)"
    by (simp add: total_def cmd_simps require_order_def on_board_def intr_run_def)
  show ?thesis
    unfolding intr_taken_def reg_addrs
    by (rule total_block_Cons, rule wait_empty [OF c rest_blind T], simp, simp, rule fuel(1), simp,
        rule total_block_Cons, rule wait_full [OF c rest_blind T f0], simp,
        rule total_block_Cons, rule board_writes [OF c rest_blind T], simp add: board_write_def, simp,
        rule total_block_Cons, rule board_writes [OF c rest_blind T], simp add: board_write_def, simp,
        rule total_block_Cons [OF enable], rule total_block_Cons [OF serve], rule tail)
qed

text \<open>
  C26: on devices that keep the contract, with a round of input for each of the three waits, the case
  ends with its success value: the deadlines are exact to the tick, claims follow level and priority,
  and both interrupts reach the dispatcher, in order of priority, before the wait looks again.
\<close>

theorem interrupts_case_passes:
  fixes s :: "'d intr_state"
  assumes c: "board_contract P elapse line view"
    and s: "length (gpr s) = 13" "irq_count s = 0" "length (irq_order s) = 2"
    and t: "view (dev s) = (t, b)" "tm_left t = 0" "\<not> tm_pending t"
    and b: "\<not> bd_full0 b" "\<not> bd_full1 b" "bd_inputs b = [n1, n2, n3]" "bd_claimed b = None"
    and fuel: "n1 < fuel" "n2 < fuel" "n3 < fuel" "3 \<le> fuel"
  shows "\<exists>u. intr_kernel_main P line elapse junk fuel s = (FailStop, u)
    \<and> trace_values (io u) = trace_values (io s) @ [0x20050001]"
proof -
  define tr where "tr = trace_values (io s)"
  let ?t1 = "t\<lparr>tm_period := 128, tm_control := 5, tm_pending := True, tm_left := 0\<rparr>"
  let ?t2 = "?t1\<lparr>tm_pending := False\<rparr>"
  have "total (on_board view ((=) t) b (\<lambda>s. length (gpr s) = 13 \<and> trace_values (io s) = tr
        \<and> irq_count s = 0 \<and> length (irq_order s) = 2))
      (block (intr_timer P elapse @ intr_levels P fuel @ intr_claims P fuel @ intr_periodic P elapse
        @ intr_taken P line elapse (deliver P junk (intr_handlers P) Irq) fuel))
      (\<lambda>_ s. trace_values (io s) = tr)"
    by (rule total_append [OF intr_timer_run [OF c t(2,3)]],
        rule total_append [OF intr_levels_run [OF c rest_blind _ _ _ b fuel(1)]], simp, simp, simp,
        rule total_append [OF intr_claims_run [OF c rest_blind _ _ fuel(2)]], simp, simp,
        rule total_append [OF intr_periodic_run [OF c rest_blind]], simp, simp,
        rule intr_taken_run [OF c fuel(3,4)])
  then show ?thesis
    unfolding intr_kernel_main_def tr_def [symmetric]
    by (rule total_concludes) (use s t in \<open>simp add: on_board_def tr_def\<close>)
qed

definition intr_test_state :: "(timer \<times> board) intr_state" where
  "intr_test_state = \<lparr> dev = (\<lparr> tm_period = 0, tm_control = 0, tm_left = 0, tm_pending = False \<rparr>,
       \<lparr> bd_full0 = False, bd_full1 = False, bd_inputs = [0, 5, 7], bd_irq0 = False, bd_irq1 = False,
         bd_enable = 0, bd_prio0 = 64, bd_prio1 = 64, bd_claimed = None \<rparr>),
     cpsr = 0x93, io = [], ram = (\<lambda>a. 0), gpr = replicate 13 0, pc = 0xc0001000, exc_sp = 0xc0200000, exc_lr = 0,
     exc_spsr = 0, usr_sp = 0, usr_lr = 0, fault_status = 0, fault_address = 0, irq_count = 0, irq_order = [0, 0] \<rparr>"

theorem interrupts_case_passes_witness:
  "\<exists>u. intr_kernel_main sample_board sample_line sample_elapse (\<lambda>n. 7) 8 intr_test_state = (FailStop, u)
    \<and> trace_values (io u) = [0x20050001]"
  using interrupts_case_passes [OF sample_board_contract, of intr_test_state "fst (dev intr_test_state)"
      "snd (dev intr_test_state)" 0 5 7 8 "\<lambda>n. 7"]
  by (simp add: intr_test_state_def)

end
