(* ===== verification/ExceptionCase.thy ===== *)
theory ExceptionCase
  imports Bootstrap Paging Board
begin

text \<open>
  The conformance case \<^verbatim>\<open>headless/exceptions\<close>: a system call, an undefined instruction, a failed
  condition, a data and a prefetch abort in the kernel, then a user program whose every instruction
  raises something, and a timer interrupt; each through the vector table of \<open>Trap\<close> on the stack of
  its mode, with the dispatchers and the assembly of \<^verbatim>\<open>trampolines.S\<close>.
\<close>

section \<open>Exceptions on banked stacks\<close>

text \<open>An exception of a mode uses the stack pointer of that mode.\<close>

definition deliver_banked :: "'d platform \<Rightarrow> (nat \<Rightarrow> u32) \<Rightarrow> ('d, 'z) bootstrap_state_scheme handlers \<Rightarrow> trap
    \<Rightarrow> (('d, 'z) bootstrap_state_scheme, unit) cmd" where
  "deliver_banked P junk H trap =
     bind (modify (\<lambda>s. s\<lparr>exc_sp := banked_sp s (trap_mode trap)\<rparr>)) (\<lambda>_.
     bind (deliver P junk H trap) (\<lambda>_.
     modify (\<lambda>s. s\<lparr>banked_sp := (banked_sp s)(trap_mode trap := exc_sp s)\<rparr>)))"

text \<open>Control is at an address; an instruction in a straight line goes on to the next.\<close>

definition arrive :: "u32 \<Rightarrow> (('d, 'z) processor_scheme, unit) cmd" where
  "arrive a = bind (gets pc) (\<lambda>p. if p = a then ret () else fault)"

definition next_pc :: "(('d, 'z) processor_scheme, unit) cmd" where
  "next_pc = modify (\<lambda>s. s\<lparr>pc := pc s + 4\<rparr>)"

text \<open>
  Instructions from an address on, each fetched through the MMU; one whose abort was stepped over is
  not executed.
\<close>

fun run_code :: "'d mmu \<Rightarrow> (('d, 'z) processor_scheme, unit) cmd \<Rightarrow> nat \<Rightarrow> u32
    \<Rightarrow> (('d, 'z) processor_scheme, unit) cmd list \<Rightarrow> (('d, 'z) processor_scheme, unit) cmd" where
  "run_code M abort fuel a [] = ret ()"
| "run_code M abort fuel a (c # cs) =
     bind (arrive a) (\<lambda>_.
     bind (mem_access M abort fuel Fetch a) (\<lambda>r.
     bind (case r of Some v \<Rightarrow> c | None \<Rightarrow> ret ()) (\<lambda>_.
     run_code M abort fuel (a + 4) cs)))"

definition mov_next :: "nat \<Rightarrow> u32 \<Rightarrow> (('d, 'z) processor_scheme, unit) cmd" where
  "mov_next n v = bind (mov n (\<lambda>s. v)) (\<lambda>_. next_pc)"

definition ldr_data :: "'d mmu \<Rightarrow> (('d, 'z) processor_scheme, unit) cmd \<Rightarrow> nat \<Rightarrow> nat \<Rightarrow> nat
    \<Rightarrow> (('d, 'z) processor_scheme, unit) cmd" where
  "ldr_data M abort fuel n m =
     bind (gets (\<lambda>s. gpr s ! m)) (\<lambda>a.
     bind (mem_access M abort fuel Load a) (\<lambda>r.
     case r of Some v \<Rightarrow> mov_next n v | None \<Rightarrow> ret ()))"

definition str_data :: "'d mmu \<Rightarrow> (('d, 'z) processor_scheme, unit) cmd \<Rightarrow> nat \<Rightarrow> nat \<Rightarrow> nat
    \<Rightarrow> (('d, 'z) processor_scheme, unit) cmd" where
  "str_data M abort fuel n m =
     bind (gets (\<lambda>s. gpr s ! m)) (\<lambda>a.
     bind (gets (\<lambda>s. gpr s ! n)) (\<lambda>v.
     bind (mem_access M abort fuel (Store v) a) (\<lambda>r.
     case r of Some v \<Rightarrow> next_pc | None \<Rightarrow> ret ())))"

text \<open>\<^verbatim>\<open>mrc p15, 0, rn, c5, c0, 0\<close>: undefined in user mode.\<close>

definition mrc_dfsr :: "(('d, 'z) processor_scheme, unit) cmd \<Rightarrow> nat \<Rightarrow> (('d, 'z) processor_scheme, unit) cmd" where
  "mrc_dfsr undefined_instruction n =
     bind (gets in_user_mode) (\<lambda>user.
     if user then undefined_instruction else bind minemu_mmu_dfsr (\<lambda>v. mov_next n v))"

definition bx :: "nat \<Rightarrow> (('d, 'z) processor_scheme, unit) cmd" where
  "bx n = modify (\<lambda>s. s\<lparr>pc := gpr s ! n\<rparr>)"

text \<open>\<^verbatim>\<open>cmp rn, #v\<close>: the condition flags in bits 31 to 28 of the status word.\<close>

definition cmp_imm :: "nat \<Rightarrow> u32 \<Rightarrow> (('d, 'z) processor_scheme, unit) cmd" where
  "cmp_imm n v = modify (\<lambda>s. let r = gpr s ! n; d = r - v in
     s\<lparr>cpsr := (cpsr s AND 0x0fffffff) OR (if bit d 31 then 0x80000000 else 0) OR (if r = v then 0x40000000 else 0)
       OR (if v \<le> r then 0x20000000 else 0) OR (if bit r 31 \<noteq> bit v 31 \<and> bit d 31 \<noteq> bit r 31 then 0x10000000 else 0)\<rparr>)"

section \<open>The case\<close>

record 'd exc_state = "'d bootstrap_state" +
  undefined_stage :: u32
  abort_stage :: u32
  svc_count :: u32
  irq_count :: u32
  user_device_stage :: u32
  expected_svc_frame :: u32

text \<open>The link addresses of the arrays, the stacks and the two probes.\<close>

record exc_symbols =
  data_table :: u32
  data_page :: u32
  svc_stack_top :: u32
  irq_stack_top :: u32
  abt_stack_top :: u32
  und_stack_top :: u32
  prefetch_probe :: u32
  user_probe :: u32

abbreviation (input) "DATA_VADDR \<equiv> (0x20000000 :: u32)"

definition require_exact_stack :: "'d platform \<Rightarrow> u32 \<Rightarrow> u32 \<Rightarrow> u32 \<Rightarrow> (('d, 'z) machine_scheme, unit) cmd" where
  "require_exact_stack P frame stack_top code = MINEMU_REQUIRE P (frame = stack_top - 88 \<and> frame AND 7 = 0) code"

definition direct_pte :: "u32 \<Rightarrow> u32" where
  "direct_pte address = 0xc0012000 + (drop_bit 12 address AND 0x3ff) * 4"

definition exc_svc_dispatch :: "'d platform \<Rightarrow> exc_symbols \<Rightarrow> u32 \<Rightarrow> ('d exc_state, u32) cmd" where
  "exc_svc_dispatch P S frame =
     bind (gets expected_svc_frame) (\<lambda>expected.
     bind (MINEMU_REQUIRE P (frame = expected \<and> svc_stack_top S - 4096 \<le> frame \<and> frame < svc_stack_top S
       \<and> frame AND 7 = 0) 59) (\<lambda>_.
     bind (gets (\<lambda>s. trap_frame_at (ram s) frame)) (\<lambda>f.
     bind (MINEMU_REQUIRE P (tf_exception_id f = MINEMU_EXCEPTION_SVC) 30) (\<lambda>_.
     bind (MINEMU_REQUIRE P (tf_return_lr f = tf_fault_pc f + 4 \<and> tf_reserved f = 0) 53) (\<lambda>_.
     bind (gets svc_count) (\<lambda>n.
     bind (MINEMU_REQUIRE P (tf_spsr f AND 0x1f = (if n = 0 then 0x13 else 0x10)) 31) (\<lambda>_.
     bind (modify (\<lambda>s. s\<lparr>svc_count := svc_count s + 1\<rparr>)) (\<lambda>_.
     bind (only_if (tf_spsr f AND 0x1f = 0x10)
       (store_field (frame + 56) (\<lambda>s. (ram s (frame + 56) AND NOT 0x1f) OR 0x13))) (\<lambda>_.
     ret frame)))))))))"

definition exc_irq_dispatch :: "'d platform \<Rightarrow> exc_symbols \<Rightarrow> u32 \<Rightarrow> ('d exc_state, u32) cmd" where
  "exc_irq_dispatch P S frame =
     bind (gets cpsr) (\<lambda>cpsr.
     bind (require_exact_stack P frame (irq_stack_top S) 60) (\<lambda>_.
     bind (MINEMU_REQUIRE P (cpsr AND 0x80 \<noteq> 0) 61) (\<lambda>_.
     bind (gets (\<lambda>s. trap_frame_at (ram s) frame)) (\<lambda>f.
     bind (MINEMU_REQUIRE P (tf_exception_id f = MINEMU_IRQ_SYSTICK) 32) (\<lambda>_.
     bind (MINEMU_REQUIRE P (tf_return_lr f = tf_fault_pc f + 4 \<and> tf_reserved f = 0) 54) (\<lambda>_.
     bind (MINEMU_MMIO_READ32 P (MINEMU_SYSTICK ''status'')) (\<lambda>status.
     bind (MINEMU_REQUIRE P (status AND 1 \<noteq> 0) 33) (\<lambda>_.
     bind (MINEMU_MMIO_WRITE32 P (MINEMU_SYSTICK ''ack'') MINEMU_SYSTICK_ACK) (\<lambda>_.
     bind (MINEMU_MMIO_WRITE32 P (MINEMU_INTERRUPT ''eoi'') MINEMU_IRQ_SYSTICK) (\<lambda>_.
     bind (modify (\<lambda>s. s\<lparr>irq_count := irq_count s + 1\<rparr>)) (\<lambda>_.
     ret frame)))))))))))"

definition exc_undefined_dispatch :: "'d platform \<Rightarrow> exc_symbols \<Rightarrow> u32 \<Rightarrow> ('d exc_state, unit) cmd" where
  "exc_undefined_dispatch P S frame =
     bind (require_exact_stack P frame (und_stack_top S) 62) (\<lambda>_.
     bind (gets (\<lambda>s. trap_frame_at (ram s) frame)) (\<lambda>f.
     bind (MINEMU_REQUIRE P (tf_exception_id f = MINEMU_EXCEPTION_UNDEFINED) 34) (\<lambda>_.
     bind (MINEMU_REQUIRE P (tf_return_lr f = tf_fault_pc f + 4 \<and> tf_reserved f = 0) 55) (\<lambda>_.
     bind (gets undefined_stage) (\<lambda>stage.
     bind (if stage = 1 then MINEMU_REQUIRE P (tf_spsr f AND 0x1f = 0x13) 35
           else if stage = 2 then MINEMU_REQUIRE P (tf_spsr f AND 0x1f = 0x10) 36
           else minemu_conformance_fail P 37) (\<lambda>_.
     modify (\<lambda>s. s\<lparr>undefined_stage := 0\<rparr>)))))))"

definition abort_repair :: "'d platform \<Rightarrow> exc_symbols \<Rightarrow> minemu_trap_frame \<Rightarrow> ('d exc_state, unit) cmd" where
  "abort_repair P S f =
     bind (gets abort_stage) (\<lambda>stage.
     if stage = 1 then
       bind (MINEMU_REQUIRE P (tf_exception_id f = MINEMU_EXCEPTION_DATA_ABORT) 40) (\<lambda>_.
       bind (MINEMU_REQUIRE P (tf_dfar f = DATA_VADDR \<and> tf_dfsr f = 1) 41) (\<lambda>_.
       store_field (data_table S) (\<lambda>s. minemu_test_paddr (data_page S) OR 1 OR 16 OR 2)))
     else if stage = 2 then
       bind (MINEMU_REQUIRE P (tf_exception_id f = MINEMU_EXCEPTION_PREFETCH_ABORT) 42) (\<lambda>_.
       bind (MINEMU_REQUIRE P (tf_dfar f = prefetch_probe S) 43) (\<lambda>_.
       bind (MINEMU_REQUIRE P (tf_dfsr f = 0x404) 44) (\<lambda>_.
       store_field (direct_pte (prefetch_probe S)) (\<lambda>s. ram s (direct_pte (prefetch_probe S)) OR 8))))
     else if stage = 3 then
       bind (MINEMU_REQUIRE P (tf_exception_id f = MINEMU_EXCEPTION_PREFETCH_ABORT) 45) (\<lambda>_.
       bind (MINEMU_REQUIRE P (tf_dfar f = user_probe S) 46) (\<lambda>_.
       bind (MINEMU_REQUIRE P (tf_dfsr f = 0x504) 47) (\<lambda>_.
       store_field (direct_pte (user_probe S)) (\<lambda>s. ram s (direct_pte (user_probe S)) OR 4))))
     else
       bind (minemu_trace_event P (0xe0070000 OR push_bit 8 (tf_exception_id f AND 0xff) OR (tf_dfsr f AND 0xff))) (\<lambda>_.
       bind (minemu_trace_event P (tf_dfar f)) (\<lambda>_.
       minemu_conformance_fail P 48)))"

definition exc_abort_dispatch :: "'d platform \<Rightarrow> 'd mmu \<Rightarrow> exc_symbols \<Rightarrow> u32 \<Rightarrow> ('d exc_state, unit) cmd" where
  "exc_abort_dispatch P M S frame =
     bind (require_exact_stack P frame (abt_stack_top S) 63) (\<lambda>_.
     bind (gets (\<lambda>s. trap_frame_at (ram s) frame)) (\<lambda>f.
     bind (if tf_exception_id f = MINEMU_EXCEPTION_DATA_ABORT
           then MINEMU_REQUIRE P (tf_return_lr f = tf_fault_pc f + 8) 56
           else only_if (tf_exception_id f = MINEMU_EXCEPTION_PREFETCH_ABORT)
             (MINEMU_REQUIRE P (tf_return_lr f = tf_fault_pc f + 4) 57)) (\<lambda>_.
     bind (MINEMU_REQUIRE P (tf_reserved f = 0) 58) (\<lambda>_.
     bind (gets user_device_stage) (\<lambda>device.
     if device = 1 \<and> tf_exception_id f = MINEMU_EXCEPTION_DATA_ABORT \<and> tf_dfar f = 0x10003000 then
       bind (MINEMU_REQUIRE P (tf_dfsr f = 0x102) 50) (\<lambda>_.
       bind (store_field (frame + 52) (\<lambda>s. ram s (frame + 52) + 4)) (\<lambda>_.
       modify (\<lambda>s. s\<lparr>user_device_stage := 2\<rparr>)))
     else if device = 2 \<and> tf_exception_id f = MINEMU_EXCEPTION_DATA_ABORT \<and> tf_dfar f = 0x1000f000 then
       bind (MINEMU_REQUIRE P (tf_dfsr f = 0x303) 52) (\<lambda>_.
       bind (store_field (frame + 52) (\<lambda>s. ram s (frame + 52) + 4)) (\<lambda>_.
       modify (\<lambda>s. s\<lparr>user_device_stage := 3\<rparr>)))
     else
       bind (abort_repair P S f) (\<lambda>_.
       bind (tlbiall M) (\<lambda>_.
       modify (\<lambda>s. s\<lparr>abort_stage := 0\<rparr>))))))))"

definition exc_handlers :: "'d platform \<Rightarrow> 'd mmu \<Rightarrow> exc_symbols \<Rightarrow> 'd exc_state handlers" where
  "exc_handlers P M S = \<lparr> on_undefined = exc_undefined_dispatch P S, on_svc = exc_svc_dispatch P S,
     on_abort = exc_abort_dispatch P M S, on_irq = exc_irq_dispatch P S \<rparr>"

section \<open>The assembly\<close>

text \<open>What the code uses besides memory: the exceptions it raises, delivered through the vectors.\<close>

record 'd exc_traps =
  take_undefined :: "('d exc_state, unit) cmd"
  take_svc :: "('d exc_state, unit) cmd"
  take_prefetch :: "('d exc_state, unit) cmd"
  take_data :: "('d exc_state, unit) cmd"
  take_irq :: "('d exc_state, unit) cmd"

definition exc_traps_of :: "'d platform \<Rightarrow> 'd mmu \<Rightarrow> exc_symbols \<Rightarrow> (nat \<Rightarrow> u32) \<Rightarrow> 'd exc_traps" where
  "exc_traps_of P M S junk = (let d = deliver_banked P junk (exc_handlers P M S) in
     \<lparr> take_undefined = d Undefined, take_svc = d Svc, take_prefetch = d Prefetch_abort,
       take_data = d Data_abort, take_irq = d Irq \<rparr>)"

text \<open>An instruction that raises an exception; control has to come back to the next one.\<close>

definition raise_here :: "('d exc_state, unit) cmd \<Rightarrow> ('d exc_state, unit) cmd" where
  "raise_here trap = bind (gets pc) (\<lambda>a. bind trap (\<lambda>_. arrive (a + 4)))"

definition minemu_trigger_undefined :: "'d exc_traps \<Rightarrow> ('d exc_state, unit) cmd" where
  "minemu_trigger_undefined X = raise_here (take_undefined X)"

definition minemu_cp15_condition_false :: "('d exc_state, unit) cmd" where
  "minemu_cp15_condition_false = block
     [mov 0 (\<lambda>s. 0), cmp_imm 0 1,
      bind (gets (\<lambda>s. cpsr s AND 0x40000000 \<noteq> 0)) (\<lambda>equal.
      bind (gets (\<lambda>s. gpr s ! 0)) (\<lambda>r0. only_if equal (minemu_mmu_set_enabled r0)))]"

definition minemu_prefetch_probe :: "'d mmu \<Rightarrow> 'd exc_traps \<Rightarrow> nat \<Rightarrow> exc_symbols \<Rightarrow> ('d exc_state, unit) cmd" where
  "minemu_prefetch_probe M X fuel S =
     bind (gets pc) (\<lambda>a.
     bind (modify (\<lambda>s. s\<lparr>pc := prefetch_probe S\<rparr>)) (\<lambda>_.
     bind (run_code M (take_prefetch X) fuel (prefetch_probe S) [modify (\<lambda>s. s\<lparr>pc := a + 4\<rparr>)]) (\<lambda>_.
     arrive (a + 4))))"

definition minemu_user_probe :: "'d mmu \<Rightarrow> 'd exc_traps \<Rightarrow> nat \<Rightarrow> ('d exc_state, unit) cmd list" where
  "minemu_user_probe M X fuel =
     [mov_next 0 0x10003000, ldr_data M (take_data X) fuel 1 0,
      mov_next 0 0x1000f000, str_data M (take_data X) fuel 1 0,
      mrc_dfsr (take_undefined X) 0, take_svc X, bx 4]"

text \<open>The link register holds the address after the call; in system mode the stack pointer is the user one.\<close>

definition minemu_run_user_probe :: "'d mmu \<Rightarrow> 'd exc_traps \<Rightarrow> nat \<Rightarrow> exc_symbols \<Rightarrow> ('d exc_state, unit) cmd" where
  "minemu_run_user_probe M X fuel S =
     bind (gets pc) (\<lambda>a. block
     [mov 4 (\<lambda>s. a + 4), mov 0 (\<lambda>s. 0x20001000), set_mode 0xdf,
      modify (\<lambda>s. s\<lparr>usr_sp := gpr s ! 0\<rparr>), set_mode 0xd3, mov 0 (\<lambda>s. user_probe S),
      modify (\<lambda>s. s\<lparr>exc_spsr := 0x10\<rparr>), modify (\<lambda>s. s\<lparr>pc := gpr s ! 0, cpsr := exc_spsr s\<rparr>),
      run_code M (take_prefetch X) fuel (user_probe S) (minemu_user_probe M X fuel),
      arrive (a + 4)])"

section \<open>The main function\<close>

definition set_static :: "('d exc_state \<Rightarrow> 'd exc_state) \<Rightarrow> ('d exc_state, unit) cmd" where
  "set_static f = modify f"

definition require_static :: "'d platform \<Rightarrow> ('d exc_state \<Rightarrow> bool) \<Rightarrow> u32 \<Rightarrow> ('d exc_state, unit) cmd" where
  "require_static P c code = bind (gets c) (\<lambda>b. MINEMU_REQUIRE P b code)"

text \<open>\<^verbatim>\<open>mov %0, sp\<close> and the subtraction of the frame size.\<close>

definition expect_frame :: "('d exc_state, unit) cmd" where
  "expect_frame = modify (\<lambda>s. s\<lparr>expected_svc_frame := banked_sp s 0x13 - 88\<rparr>)"

definition exc_set_up :: "exc_symbols \<Rightarrow> ('d exc_state, unit) cmd list" where
  "exc_set_up S =
     [bind (for_cmd (\<lambda>i. bind (store_field (data_table S + 4 * i) (\<lambda>s. 0)) (\<lambda>_. ret (None :: unit option))) 0 1024)
        (\<lambda>_. ret ()),
      store_field (0xc0010000 + 4 * drop_bit 22 DATA_VADDR) (\<lambda>s. minemu_test_paddr (data_table S) OR 1)]"

definition exc_kernel :: "'d platform \<Rightarrow> 'd mmu \<Rightarrow> 'd exc_traps \<Rightarrow> nat \<Rightarrow> u32 \<Rightarrow> exc_symbols
    \<Rightarrow> ('d exc_state, unit) cmd list" where
  "exc_kernel P M X fuel old S =
     [expect_frame,
      raise_here (take_svc X),
      require_static P (\<lambda>s. svc_count s = 1) 1,
      set_static (\<lambda>s. s\<lparr>undefined_stage := 1\<rparr>),
      minemu_trigger_undefined X,
      require_static P (\<lambda>s. undefined_stage s = 0) 2,
      minemu_cp15_condition_false,
      set_static (\<lambda>s. s\<lparr>abort_stage := 1\<rparr>),
      bind (volatile_read M (take_data X) fuel old DATA_VADDR) (\<lambda>v. MINEMU_REQUIRE P (v = 0) 3),
      require_static P (\<lambda>s. abort_stage s = 0) 4,
      store_field (direct_pte (prefetch_probe S)) (\<lambda>s. ram s (direct_pte (prefetch_probe S)) AND NOT 8),
      tlbiall M,
      set_static (\<lambda>s. s\<lparr>abort_stage := 2\<rparr>),
      minemu_prefetch_probe M X fuel S,
      require_static P (\<lambda>s. abort_stage s = 0) 5]"

text \<open>
  The user program runs with IRQ unmasked. No source is enabled before \<open>exc_irq\<close> writes the enable
  register, which is zero from reset on, so interrupts are looked for only from there on.
\<close>

definition exc_user :: "'d platform \<Rightarrow> 'd mmu \<Rightarrow> 'd exc_traps \<Rightarrow> nat \<Rightarrow> exc_symbols
    \<Rightarrow> ('d exc_state, unit) cmd list" where
  "exc_user P M X fuel S =
     [store_field (direct_pte (user_probe S)) (\<lambda>s. ram s (direct_pte (user_probe S)) AND NOT 4),
      tlbiall M,
      set_static (\<lambda>s. s\<lparr>abort_stage := 3\<rparr>),
      set_static (\<lambda>s. s\<lparr>undefined_stage := 2\<rparr>),
      set_static (\<lambda>s. s\<lparr>user_device_stage := 1\<rparr>),
      expect_frame,
      minemu_run_user_probe M X fuel S,
      require_static P (\<lambda>s. abort_stage s = 0) 6,
      require_static P (\<lambda>s. undefined_stage s = 0) 7,
      require_static P (\<lambda>s. svc_count s = 2) 8,
      require_static P (\<lambda>s. user_device_stage s = 3) 10]"

text \<open>
  The user program comes back with IRQ unmasked, so an interrupt may be taken after every
  instruction of this part.
\<close>

definition exc_irq :: "'d platform \<Rightarrow> ('d \<Rightarrow> bool) \<Rightarrow> (nat \<Rightarrow> 'd \<Rightarrow> 'd) \<Rightarrow> 'd exc_traps \<Rightarrow> nat
    \<Rightarrow> ('d exc_state, unit) cmd list" where
  "exc_irq P line elapse X fuel =
     [MINEMU_MMIO_WRITE32 P (MINEMU_INTERRUPT ''enable'') 1,
      boundary line elapse (take_irq X) fuel,
      MINEMU_MMIO_WRITE32 P (MINEMU_SYSTICK ''period'') 64,
      boundary line elapse (take_irq X) fuel,
      MINEMU_MMIO_WRITE32 P (MINEMU_SYSTICK ''control'') (MINEMU_SYSTICK_CONTROL_ENABLE OR MINEMU_SYSTICK_CONTROL_IRQ_ENABLE),
      boundary line elapse (take_irq X) fuel,
      minemu_irq_enable,
      irq_wait line elapse (take_irq X) fuel (\<lambda>s. irq_count s = 0),
      minemu_irq_disable,
      require_static P (\<lambda>s. irq_count s = 1) 9]"

definition exc_kernel_main :: "'d platform \<Rightarrow> 'd mmu \<Rightarrow> ('d \<Rightarrow> bool) \<Rightarrow> (nat \<Rightarrow> 'd \<Rightarrow> 'd) \<Rightarrow> (nat \<Rightarrow> u32) \<Rightarrow> nat
    \<Rightarrow> u32 \<Rightarrow> exc_symbols \<Rightarrow> ('d exc_state, unit) cmd" where
  "exc_kernel_main P M line elapse junk fuel old S =
     (let X = exc_traps_of P M S junk in
      bind (block (exc_set_up S @ exc_kernel P M X fuel old S @ exc_user P M X fuel S
             @ exc_irq P line elapse X fuel)) (\<lambda>_.
      bind (minemu_trace_event P 0x20070001) (\<lambda>_. minemu_fail_stop)))"

end
