(* ===== verification/ExceptionRun.thy ===== *)
theory ExceptionRun
  imports ExceptionCase
begin

text \<open>
  The run of the case of \<open>ExceptionCase\<close> on an MMU and devices that keep their contracts: what every
  dispatcher does to the state, what every instruction of the probes does, and the run as a whole.
\<close>

section \<open>The setting\<close>

text \<open>The words of memory the run depends on besides the data table.\<close>

definition exc_words :: "exc_symbols \<Rightarrow> u32 list" where
  "exc_words S = [0xc0010100, 0xc0010200, 0xc0010c00, 0xc002200c, 0xc002203c, direct_pte (prefetch_probe S),
     direct_pte (user_probe S), data_page S]"

text \<open>
  The link: the arrays are pages of the direct map, the probes pages of its first table, the stacks
  aligned, and no trap frame lies on a word the run depends on.
\<close>

definition exc_linked :: "exc_symbols \<Rightarrow> u32 \<Rightarrow> bool" where
  "exc_linked S sp \<longleftrightarrow>
     distinct (data_table S # exc_words S) \<and> list_all (\<lambda>a. page_of a \<noteq> data_table S) (exc_words S)
     \<and> page_of (data_table S) = data_table S
     \<and> page_of (data_page S) = data_page S \<and> 0xc0000000 \<le> data_page S \<and> data_page S < 0xc4000000
     \<and> list_all (\<lambda>p. page_of p = p \<and> 0xc0000000 \<le> p \<and> p < 0xc0400000) [prefetch_probe S, user_probe S]
     \<and> prefetch_probe S \<noteq> user_probe S
     \<and> list_all (\<lambda>t. (t - 88) AND 7 = 0) [irq_stack_top S, abt_stack_top S, und_stack_top S, sp]
     \<and> svc_stack_top S - 4096 \<le> sp - 88 \<and> sp - 88 < svc_stack_top S
     \<and> list_all (\<lambda>t. list_all (\<lambda>a. \<not> in_frame (t - 88) a) (data_table S # exc_words S))
         [abt_stack_top S, und_stack_top S, sp]"

text \<open>The MMU and the other devices do not disturb each other, except that time passes.\<close>

definition apart :: "'d mmu \<Rightarrow> ('d \<Rightarrow> timer \<times> board) \<Rightarrow> bool" where
  "apart M bview \<longleftrightarrow>
     (\<forall>user kind a m d. \<exists>n. bview (snd (snd (mmu_access M user kind a m d))) = (timer_pass n (fst (bview d)), snd (bview d)))
     \<and> (\<forall>d. \<exists>n. bview (mmu_flush M d) = (timer_pass n (fst (bview d)), snd (bview d)))"

record 'd exc_env =
  ev_platform :: "'d platform"
  ev_mmu :: "'d mmu"
  ev_mview :: "'d \<Rightarrow> tlb_view"
  ev_bview :: "'d \<Rightarrow> timer \<times> board"
  ev_symbols :: exc_symbols
  ev_sp :: u32
  ev_timer :: timer
  ev_board :: board
  ev_trace :: "u32 list"

definition env_ok :: "'d exc_env \<Rightarrow> bool" where
  "env_ok E \<longleftrightarrow> mmu_contract (ev_mmu E) (ev_mview E) \<and> apart (ev_mmu E) (ev_bview E)
     \<and> exc_linked (ev_symbols E) (ev_sp E) \<and> tm_left (ev_timer E) = 0"

text \<open>What changes during the run: entries kept by the TLB, table words, statics and the fault status.\<close>

record exc_facts =
  xf_cached :: "u32 \<Rightarrow> u32 option"
  xf_table :: u32
  xf_prefetch :: u32
  xf_user :: u32
  xf_undefined :: u32
  xf_abort :: u32
  xf_svc :: u32
  xf_irq :: u32
  xf_device :: u32
  xf_frame :: u32
  xf_status :: u32

definition exc_core :: "'d exc_env \<Rightarrow> exc_facts \<Rightarrow> 'd exc_state \<Rightarrow> bool" where
  "exc_core E f s \<longleftrightarrow> (let S = ev_symbols E; v = ev_mview E (dev s) in
     trace_values (io s) = ev_trace E
     \<and> tv_root v = 0x40010000 \<and> tv_cached v = xf_cached f \<and> ev_bview E (dev s) = (ev_timer E, ev_board E)
     \<and> banked_sp s 0x13 = ev_sp E \<and> banked_sp s 0x12 = irq_stack_top S
     \<and> banked_sp s 0x17 = abt_stack_top S \<and> banked_sp s 0x1b = und_stack_top S
     \<and> ram s 0xc0010100 = 0x40022001 \<and> ram s 0xc0010c00 = 0x40012001
     \<and> ram s 0xc0010200 = minemu_test_paddr (data_table S) OR 1
     \<and> ram s 0xc002200c AND 5 = 1 \<and> ram s 0xc002203c AND 5 = 1
     \<and> ram s (data_table S) = xf_table f \<and> ram s (data_page S) = 0
     \<and> ram s (direct_pte (prefetch_probe S)) = xf_prefetch f \<and> ram s (direct_pte (user_probe S)) = xf_user f
     \<and> undefined_stage s = xf_undefined f \<and> abort_stage s = xf_abort f \<and> svc_count s = xf_svc f
     \<and> irq_count s = xf_irq f \<and> user_device_stage s = xf_device f \<and> expected_svc_frame s = xf_frame f
     \<and> fault_status s = xf_status f)"

lemma core_resume [simp]: "exc_core E f (resume offset q s) = exc_core E f s"
  by (simp add: exc_core_def resume_def Let_def)

lemma core_registers [simp]:
  "exc_core E f (s\<lparr>gpr := r\<rparr>) = exc_core E f s" "exc_core E f (s\<lparr>pc := a\<rparr>) = exc_core E f s"
  "exc_core E f (s\<lparr>cpsr := c\<rparr>) = exc_core E f s" "exc_core E f (s\<lparr>exc_sp := q\<rparr>) = exc_core E f s"
  "exc_core E f (s\<lparr>exc_spsr := c\<rparr>) = exc_core E f s" "exc_core E f (s\<lparr>exc_lr := c\<rparr>) = exc_core E f s"
  "exc_core E f (s\<lparr>usr_sp := c\<rparr>) = exc_core E f s" "exc_core E f (s\<lparr>fault_address := c\<rparr>) = exc_core E f s"
  "exc_core E f (s\<lparr>usr_lr := c\<rparr>) = exc_core E f s"
  by (simp_all add: exc_core_def)

lemma core_statics:
  assumes "exc_core E f s"
  shows "undefined_stage s = xf_undefined f" "abort_stage s = xf_abort f" "svc_count s = xf_svc f"
    "irq_count s = xf_irq f" "user_device_stage s = xf_device f" "expected_svc_frame s = xf_frame f"
    "fault_status s = xf_status f"
  using assms by (simp_all add: exc_core_def Let_def)

lemma core_set:
  assumes "exc_core E f s"
  shows "exc_core E (f\<lparr>xf_undefined := n\<rparr>) (s\<lparr>undefined_stage := n\<rparr>)" "exc_core E (f\<lparr>xf_abort := n\<rparr>) (s\<lparr>abort_stage := n\<rparr>)"
    "exc_core E (f\<lparr>xf_svc := n\<rparr>) (s\<lparr>svc_count := n\<rparr>)" "exc_core E (f\<lparr>xf_device := n\<rparr>) (s\<lparr>user_device_stage := n\<rparr>)"
    "exc_core E (f\<lparr>xf_frame := n\<rparr>) (s\<lparr>expected_svc_frame := n\<rparr>)"
    "exc_core E (f\<lparr>xf_status := n\<rparr>) (s\<lparr>fault_status := n\<rparr>)"
  using assms by (simp_all add: exc_core_def Let_def)

lemma core_banked: "exc_core E f s \<Longrightarrow> q = banked_sp s m \<Longrightarrow> exc_core E f (s\<lparr>banked_sp := (banked_sp s)(m := q)\<rparr>)"
  by (simp add: fun_upd_idem)

text \<open>Where the stacks of the traps are.\<close>

lemma core_stack:
  "exc_core E f s \<Longrightarrow> banked_sp s (trap_mode trap) = (case trap of Undefined \<Rightarrow> und_stack_top (ev_symbols E)
     | Svc \<Rightarrow> ev_sp E | Irq \<Rightarrow> irq_stack_top (ev_symbols E) | _ \<Rightarrow> abt_stack_top (ev_symbols E))"
  by (cases trap) (simp_all add: exc_core_def Let_def)

lemma linked_frames:
  assumes "exc_linked S sp" and "q \<in> {abt_stack_top S, und_stack_top S, sp}"
  shows "\<not> in_frame (q - 88) (data_table S)" "a \<in> set (exc_words S) \<Longrightarrow> \<not> in_frame (q - 88) a"
  using assms by (auto simp: exc_linked_def list_all_iff)

section \<open>A trap as a whole\<close>

text \<open>The state in which a dispatcher runs.\<close>

lemma core_called:
  assumes "env_ok E" and "exc_core E f s" and "length (gpr s) = 13" and "trap \<noteq> Irq"
    and "q = banked_sp s (trap_mode trap)"
  shows "exc_core E f (called P trap (s\<lparr>exc_sp := q\<rparr>))"
    and "trap_frame_at (ram (called P trap (s\<lparr>exc_sp := q\<rparr>))) (q - 88) = trap_frame_of trap (claimed_of P s) s"
    and "exc_sp (called P trap (s\<lparr>exc_sp := q\<rparr>)) = q - 88" "length (gpr (called P trap (s\<lparr>exc_sp := q\<rparr>))) = 13"
proof -
  let ?s = "s\<lparr>exc_sp := q\<rparr>" and ?S = "ev_symbols E"
  have link: "exc_linked ?S (ev_sp E)" using assms(1) by (simp add: env_ok_def)
  have q: "q \<in> {abt_stack_top ?S, und_stack_top ?S, ev_sp E}"
    using assms(4,5) core_stack [OF assms(2), of trap] by (cases trap) auto
  have out: "ram (called P trap ?s) a = ram s a" if "\<not> in_frame (q - 88) a" for a
    using called_outside [of ?s a P trap] assms(3) that by simp
  have "ram (called P trap ?s) (data_table ?S) = ram s (data_table ?S)"
    "\<And>a. a \<in> set (exc_words ?S) \<Longrightarrow> ram (called P trap ?s) a = ram s a"
    using linked_frames [OF link q] by (auto intro: out)
  moreover have "dev (called P trap ?s) = dev s" "io (called P trap ?s) = io s" "banked_sp (called P trap ?s) = banked_sp s"
    "undefined_stage (called P trap ?s) = undefined_stage s" "abort_stage (called P trap ?s) = abort_stage s"
    "svc_count (called P trap ?s) = svc_count s" "irq_count (called P trap ?s) = irq_count s"
    "user_device_stage (called P trap ?s) = user_device_stage s"
    "expected_svc_frame (called P trap ?s) = expected_svc_frame s" "fault_status (called P trap ?s) = fault_status s"
    using assms(4) by (simp_all add: called_def Let_def take_exception_def)
  ultimately show "exc_core E f (called P trap ?s)"
    using assms(2) by (simp add: exc_core_def Let_def exc_words_def)
  have "trap_frame_of trap (claimed_of P ?s) ?s = trap_frame_of trap (claimed_of P s) s"
    by (simp add: trap_frame_of_def claimed_of_def)
  then show "trap_frame_at (ram (called P trap ?s)) (q - 88) = trap_frame_of trap (claimed_of P s) s"
    using trap_frame_called [of ?s P trap] assms(3) by simp
qed (use assms(3) in simp_all)

lemma trap_runs:
  assumes "env_ok E" and "exc_core E f s" and "length (gpr s) = 13" and "trap \<noteq> Irq"
    and q: "q = banked_sp s (trap_mode trap)"
    and run: "dispatched junk H trap (q - 88) (called P trap (s\<lparr>exc_sp := q\<rparr>)) = (Done (q - 88), t)"
    and t: "exc_core E f' t" "length (gpr t) = 13" "exc_sp t = q - 88" "banked_sp t = banked_sp s"
      "trap_frame_at (ram t) (q - 88) = F"
  shows "\<exists>u. deliver_banked P junk H trap s = (Done (), u) \<and> exc_core E f' u \<and> length (gpr u) = 13
    \<and> gpr u = tf_r F \<and> pc u = tf_return_lr F - return_offset trap \<and> cpsr u = tf_spsr F"
proof -
  let ?s = "s\<lparr>exc_sp := q\<rparr>" and ?r = "resume (return_offset trap) (q - 88) t"
  have "deliver P junk H trap ?s = (Done (), ?r)"
    by (rule deliver_result) (use assms in simp_all)
  then have "deliver_banked P junk H trap s = (Done (), ?r\<lparr>banked_sp := (banked_sp ?r)(trap_mode trap := exc_sp ?r)\<rparr>)"
    using q by (simp add: deliver_banked_def cmd_simps bind_Done)
  moreover have "exc_core E f' (?r\<lparr>banked_sp := (banked_sp ?r)(trap_mode trap := exc_sp ?r)\<rparr>)"
    by (rule core_banked) (use t q in \<open>simp_all add: resume_def Let_def\<close>)
  moreover have "gpr ?r = tf_r F" "pc ?r = tf_return_lr F - return_offset trap" "cpsr ?r = tf_spsr F"
    using t(5) by (simp_all add: resume_def Let_def)
  moreover have "length (gpr ?r) = 13" by simp
  ultimately show ?thesis by auto
qed

section \<open>The dispatchers\<close>

lemma core_words:
  assumes "env_ok E"
  shows "distinct (data_table (ev_symbols E) # exc_words (ev_symbols E))"
    and "list_all (\<lambda>t. (t - 88) AND 7 = 0) [irq_stack_top (ev_symbols E), abt_stack_top (ev_symbols E),
      und_stack_top (ev_symbols E), ev_sp E]"
    and "svc_stack_top (ev_symbols E) - 4096 \<le> ev_sp E - 88" "ev_sp E - 88 < svc_stack_top (ev_symbols E)"
  using assms by (simp_all add: env_ok_def exc_linked_def)

text \<open>A store into the frame leaves the words of the run alone.\<close>

lemma core_frame_store:
  assumes "env_ok E" and "exc_core E f s" and "q \<in> {abt_stack_top (ev_symbols E), und_stack_top (ev_symbols E), ev_sp E}"
    and "in_frame (q - 88) a"
  shows "exc_core E f (s\<lparr>ram := (ram s)(a := w)\<rparr>)"
proof -
  have link: "exc_linked (ev_symbols E) (ev_sp E)" using assms(1) by (simp add: env_ok_def)
  have "a \<noteq> data_table (ev_symbols E)" "a \<notin> set (exc_words (ev_symbols E))"
    using linked_frames [OF link assms(3)] assms(4) by auto
  with assms(2) show ?thesis by (auto simp: exc_core_def Let_def exc_words_def)
qed

lemma core_store:
  assumes ok: "env_ok E" and at: "exc_core E f s" and S: "S = ev_symbols E"
  shows "exc_core E (f\<lparr>xf_table := w\<rparr>) (s\<lparr>ram := (ram s)(data_table S := w)\<rparr>)"
    and "exc_core E (f\<lparr>xf_prefetch := w\<rparr>) (s\<lparr>ram := (ram s)(direct_pte (prefetch_probe S) := w)\<rparr>)"
    and "exc_core E (f\<lparr>xf_user := w\<rparr>) (s\<lparr>ram := (ram s)(direct_pte (user_probe S) := w)\<rparr>)"
  using core_words(1) [OF ok] at unfolding S exc_words_def
  by (auto simp: exc_core_def Let_def)

lemma core_flush:
  assumes ok: "env_ok E" and at: "exc_core E f s" and M: "M = ev_mmu E"
  shows "exc_core E (f\<lparr>xf_cached := Map.empty\<rparr>) (s\<lparr>io := io s @ [TlbInvalidateAll], dev := mmu_flush M (dev s)\<rparr>)"
proof -
  obtain n where "ev_bview E (mmu_flush M (dev s)) = (timer_pass n (ev_timer E), ev_board E)"
    using ok at unfolding M by (auto simp: env_ok_def apart_def exc_core_def Let_def) (metis fst_conv snd_conv)
  then have "ev_bview E (mmu_flush M (dev s)) = (ev_timer E, ev_board E)"
    using ok by (simp add: env_ok_def pass_stopped)
  moreover have "ev_mview E (mmu_flush M (dev s)) = (ev_mview E (dev s))\<lparr>tv_cached := Map.empty\<rparr>"
    using ok behaves_flush [of True True M "ev_mview E"] by (simp add: env_ok_def M mmu_contract_def)
  ultimately show ?thesis using at by (simp add: exc_core_def Let_def)
qed

lemma undefined_taken:
  assumes ok: "env_ok E" and at: "exc_core E f s" and len: "length (gpr s) = 13"
    and stage: "xf_undefined f = 1 \<and> cpsr s AND 0x1f = 0x13 \<or> xf_undefined f = 2 \<and> cpsr s AND 0x1f = 0x10"
  shows "\<exists>u. deliver_banked P junk (exc_handlers P M (ev_symbols E)) Undefined s = (Done (), u)
    \<and> exc_core E (f\<lparr>xf_undefined := 0\<rparr>) u \<and> length (gpr u) = 13 \<and> gpr u = gpr s \<and> pc u = pc s + 4 \<and> cpsr u = cpsr s"
proof -
  let ?q = "banked_sp s (trap_mode Undefined)" and ?F = "trap_frame_of Undefined (claimed_of P s) s"
  let ?c = "called P Undefined (s\<lparr>exc_sp := ?q\<rparr>)"
  note c = core_called [OF ok at len trap.distinct(7) refl, of P]
  have q: "?q = und_stack_top (ev_symbols E)" using core_stack [OF at, of Undefined] by simp
  note st = core_statics(1) [OF c(1)]
  have run: "dispatched junk (exc_handlers P M (ev_symbols E)) Undefined (?q - 88) ?c =
      (Done (?q - 88), ?c\<lparr>undefined_stage := 0\<rparr>)"
    using stage core_words(2) [OF ok] c(2) st q
    by (auto simp: dispatched_def exc_handlers_def exc_undefined_dispatch_def require_exact_stack_def cmd_simps
        trap_frame_of_def)
  have F: "trap_frame_at (ram (?c\<lparr>undefined_stage := 0\<rparr>)) (?q - 88) = ?F" using c(2) by simp
  have b: "banked_sp ?c = banked_sp s" by (simp add: called_def Let_def take_exception_def)
  show ?thesis
    using trap_runs [OF ok at len _ refl run core_set(1) [OF c(1)] _ _ _ F] c b
    by (simp add: trap_frame_of_def)
qed

lemma svc_taken:
  assumes ok: "env_ok E" and at: "exc_core E f s" and len: "length (gpr s) = 13"
    and frame: "xf_frame f = ev_sp E - 88"
    and mode: "xf_svc f = 0 \<and> cpsr s AND 0x1f = 0x13 \<and> after = cpsr s
      \<or> xf_svc f = 1 \<and> cpsr s AND 0x1f = 0x10 \<and> after = (cpsr s AND NOT 0x1f) OR 0x13"
  shows "\<exists>u. deliver_banked P junk (exc_handlers P M (ev_symbols E)) Svc s = (Done (), u)
    \<and> exc_core E (f\<lparr>xf_svc := xf_svc f + 1\<rparr>) u \<and> length (gpr u) = 13 \<and> gpr u = gpr s \<and> pc u = pc s + 4 \<and> cpsr u = after"
proof -
  let ?q = "banked_sp s (trap_mode Svc)" and ?F = "trap_frame_of Svc (claimed_of P s) s"
  let ?c = "called P Svc (s\<lparr>exc_sp := ?q\<rparr>)" and ?f = "f\<lparr>xf_svc := xf_svc f + 1\<rparr>"
  let ?t = "?c\<lparr>svc_count := xf_svc f + 1\<rparr>"
  let ?u = "if xf_svc f = 0 then ?t else ?t\<lparr>ram := (ram ?c)(?q - 88 + 56 := after)\<rparr>"
  note c = core_called [OF ok at len trap.distinct(13) refl, of P]
  have q: "?q = ev_sp E" using core_stack [OF at, of Svc] by simp
  note st = core_statics [OF c(1)]
  have psr: "ram ?c (?q - 88 + 56) = cpsr s"
    using arg_cong [OF c(2), of tf_spsr] by (simp add: trap_frame_at_def trap_frame_of_def)
  have run: "dispatched junk (exc_handlers P M (ev_symbols E)) Svc (?q - 88) ?c = (Done (?q - 88), ?u)"
    using mode
  proof (elim disjE conjE)
    assume "xf_svc f = 0" "cpsr s AND 0x1f = 0x13"
    then show ?thesis
      using core_words(2-4) [OF ok] c(2) st q frame
      by (simp add: dispatched_def exc_handlers_def exc_svc_dispatch_def cmd_simps trap_frame_of_def)
  next
    assume "xf_svc f = 1" "cpsr s AND 0x1f = 0x10" "after = (cpsr s AND NOT 0x1f) OR 0x13"
    then show ?thesis
      using core_words(2-4) [OF ok] c(2) st q frame psr
      by (simp add: dispatched_def exc_handlers_def exc_svc_dispatch_def cmd_simps trap_frame_of_def store_field_def)
  qed
  have F: "trap_frame_at (ram ?u) (?q - 88) = ?F\<lparr>tf_spsr := after\<rparr>"
  proof (cases "xf_svc f = 0")
    case True
    then have "ram ?u = ram ?c" by simp
    moreover have "?F\<lparr>tf_spsr := after\<rparr> = ?F" using True mode by (auto simp: trap_frame_of_def)
    ultimately show ?thesis using c(2) by (simp only:)
  next
    case False
    then have "ram ?u = (ram ?c)(?q - 88 + 56 := after)" by simp
    then show ?thesis by (simp only: frame_fields c(2))
  qed
  have t: "exc_core E ?f ?t" by (rule core_set(3) [OF c(1)])
  have core: "exc_core E ?f ?u"
  proof (cases "xf_svc f = 0")
    case True
    with t show ?thesis by simp
  next
    case False
    have "exc_core E ?f (?t\<lparr>ram := (ram ?t)(?q - 88 + 56 := after)\<rparr>)"
      by (rule core_frame_store [OF ok t, of ?q]) (simp_all only: q in_frame_fields insert_iff simp_thms)
    with False show ?thesis by simp
  qed
  have b: "banked_sp ?u = banked_sp s" by (simp add: called_def Let_def take_exception_def)
  have u: "length (gpr ?u) = 13" "exc_sp ?u = ?q - 88" using c(3,4) by simp_all
  show ?thesis
    using trap_runs [OF ok at len trap.distinct(13) refl run core u b F] by (simp add: trap_frame_of_def)
qed

text \<open>An access of the user program to a device: the handler steps over it.\<close>

lemma device_skipped:
  assumes ok: "env_ok E" and at: "exc_core E f s" and len: "length (gpr s) = 13"
    and stage: "xf_device f = 1 \<and> fault_address s = 0x10003000 \<and> xf_status f = 0x102 \<and> n = 2
      \<or> xf_device f = 2 \<and> fault_address s = 0x1000f000 \<and> xf_status f = 0x303 \<and> n = 3"
  shows "\<exists>u. deliver_banked P junk (exc_handlers P M (ev_symbols E)) Data_abort s = (Done (), u)
    \<and> exc_core E (f\<lparr>xf_device := n\<rparr>) u \<and> length (gpr u) = 13 \<and> gpr u = gpr s \<and> pc u = pc s + 4 \<and> cpsr u = cpsr s"
proof -
  let ?q = "banked_sp s (trap_mode Data_abort)" and ?F = "trap_frame_of Data_abort (claimed_of P s) s"
  let ?c = "called P Data_abort (s\<lparr>exc_sp := ?q\<rparr>)" and ?f = "f\<lparr>xf_device := n\<rparr>"
  let ?t = "?c\<lparr>user_device_stage := n\<rparr>"
  let ?u = "?t\<lparr>ram := (ram ?c)(?q - 88 + 52 := pc s + 8 + 4)\<rparr>"
  note c = core_called [OF ok at len trap.distinct(19) refl, of P]
  have q: "?q = abt_stack_top (ev_symbols E)" using core_stack [OF at, of Data_abort] by simp
  note st = core_statics [OF c(1)] and st' = core_statics [OF at]
  have lr: "ram ?c (?q - 88 + 52) = pc s + 8"
    using arg_cong [OF c(2), of tf_return_lr] by (simp add: trap_frame_at_def trap_frame_of_def)
  have run: "dispatched junk (exc_handlers P M (ev_symbols E)) Data_abort (?q - 88) ?c = (Done (?q - 88), ?u)"
    using stage
    by (elim disjE conjE) (use core_words(2) [OF ok] c(2) st st' q lr in
      \<open>simp add: dispatched_def exc_handlers_def exc_abort_dispatch_def require_exact_stack_def cmd_simps
        trap_frame_of_def store_field_def\<close>)+
  have F: "trap_frame_at (ram ?u) (?q - 88) = ?F\<lparr>tf_return_lr := pc s + 8 + 4\<rparr>"
  proof -
    have "ram ?u = (ram ?c)(?q - 88 + 52 := pc s + 8 + 4)" by simp
    then show ?thesis by (simp only: frame_fields c(2))
  qed
  have "exc_core E ?f ?t" by (rule core_set(4) [OF c(1)])
  then have core: "exc_core E ?f ?u"
    using core_frame_store [OF ok, of ?f ?t ?q "?q - 88 + 52" "pc s + 8 + 4"] in_frame_fields(1) [of "?q - 88"] q by simp
  have b: "banked_sp ?u = banked_sp s" by (simp add: called_def Let_def take_exception_def)
  have u: "length (gpr ?u) = 13" "exc_sp ?u = ?q - 88" using c(3,4) by simp_all
  show ?thesis
    using trap_runs [OF ok at len trap.distinct(19) refl run core u b F] by (simp add: trap_frame_of_def add.commute)
qed

text \<open>The three repairs: the data table, and the rights of the two probe pages.\<close>

lemma repairs:
  assumes frame: "trap_frame_at (ram c) p = F" and p: "p = abt_stack_top S - 88" "p AND 7 = 0" and F: "tf_reserved F = 0"
    and eid: "tf_exception_id F = - 1 \<and> tf_return_lr F = tf_fault_pc F + 8 \<or> tf_exception_id F = - 2 \<and> tf_return_lr F = tf_fault_pc F + 4"
    and device: "\<not> (user_device_stage c = 1 \<and> tf_exception_id F = - 1 \<and> tf_dfar F = 0x10003000)"
      "\<not> (user_device_stage c = 2 \<and> tf_exception_id F = - 1 \<and> tf_dfar F = 0x1000f000)"
  shows "exc_abort_dispatch P M S p c = bind (abort_repair P S F) (\<lambda>_. bind (tlbiall M) (\<lambda>_.
    modify (\<lambda>s. s\<lparr>abort_stage := 0\<rparr>))) c"
proof -
  have r: "bind (MINEMU_REQUIRE P b code) f c = f () c" if b for b code f
    using that by (simp add: bind_require)
  have id: "bind (if tf_exception_id F = - 1 then MINEMU_REQUIRE P (tf_return_lr F = tf_fault_pc F + 8) 56
      else only_if (tf_exception_id F = - 2) (MINEMU_REQUIRE P (tf_return_lr F = tf_fault_pc F + 4) 57)) f c = f () c" for f
    using eid by (auto simp: r bind_only_if)
  have device': "(user_device_stage c = 1 \<and> tf_exception_id F = - 1 \<and> tf_dfar F = 0x10003000) = False"
      "(user_device_stage c = 2 \<and> tf_exception_id F = - 1 \<and> tf_dfar F = 0x1000f000) = False"
    using device by blast+
  have stack: "p = abt_stack_top S - 88 \<and> p AND 7 = 0" using p by blast
  show ?thesis
    unfolding exc_abort_dispatch_def require_exact_stack_def
    by (simp only: r [OF stack] bind_gets frame id r [OF F] device' if_False)
qed

lemma abort_repaired:
  assumes ok: "env_ok E" and at: "exc_core E f s" and len: "length (gpr s) = 13" and S: "S = ev_symbols E" "M = ev_mmu E"
    and stage: "trap = Data_abort \<and> xf_device f = 0 \<and> xf_abort f = 1 \<and> fault_address s = DATA_VADDR \<and> xf_status f = 1
        \<and> g = f\<lparr>xf_table := minemu_test_paddr (data_page S) OR 1 OR 16 OR 2\<rparr>
      \<or> trap = Prefetch_abort \<and> xf_abort f = 2 \<and> fault_address s = prefetch_probe S \<and> xf_status f = 0x404
        \<and> g = f\<lparr>xf_prefetch := xf_prefetch f OR 8\<rparr>
      \<or> trap = Prefetch_abort \<and> xf_abort f = 3 \<and> fault_address s = user_probe S \<and> xf_status f = 0x504
        \<and> g = f\<lparr>xf_user := xf_user f OR 4\<rparr>"
  shows "\<exists>u. deliver_banked P junk (exc_handlers P M S) trap s = (Done (), u)
    \<and> exc_core E (g\<lparr>xf_cached := Map.empty, xf_abort := 0\<rparr>) u
    \<and> length (gpr u) = 13 \<and> gpr u = gpr s \<and> pc u = pc s \<and> cpsr u = cpsr s"
proof -
  let ?q = "banked_sp s (trap_mode trap)" and ?F = "trap_frame_of trap (claimed_of P s) s"
  let ?c = "called P trap (s\<lparr>exc_sp := ?q\<rparr>)"
  have trap: "trap \<noteq> Irq" "trap = Data_abort \<or> trap = Prefetch_abort" using stage by auto
  note c = core_called [OF ok at len trap(1) refl, of P]
  have q: "?q = abt_stack_top S" using core_stack [OF at, of trap] trap(2) S by auto
  have link: "exc_linked S (ev_sp E)" using ok S by (simp add: env_ok_def)
  note st = core_statics [OF c(1)] and st' = core_statics [OF at]
  have pte: "ram ?c (direct_pte (prefetch_probe S)) = xf_prefetch f" "ram ?c (direct_pte (user_probe S)) = xf_user f"
    using c(1) S by (simp_all add: exc_core_def Let_def)
  have "\<exists>a w. abort_repair P S ?F ?c = (Done (), ?c\<lparr>ram := (ram ?c)(a := w)\<rparr>) \<and> \<not> in_frame (?q - 88) a
      \<and> exc_core E g (?c\<lparr>ram := (ram ?c)(a := w)\<rparr>)"
    using stage
  proof (elim disjE conjE)
    assume "trap = Data_abort" "xf_abort f = 1" "fault_address s = DATA_VADDR" "xf_status f = 1"
      and g: "g = f\<lparr>xf_table := minemu_test_paddr (data_page S) OR 1 OR 16 OR 2\<rparr>"
    then have "abort_repair P S ?F ?c = (Done (), ?c\<lparr>ram := (ram ?c)(data_table S := minemu_test_paddr (data_page S) OR 1 OR 16 OR 2)\<rparr>)"
      using st st' by (simp add: abort_repair_def cmd_simps trap_frame_of_def store_field_def)
    then show ?thesis
      using core_store(1) [OF ok c(1) S(1)] linked_frames(1) [OF link, of ?q] q g by blast
  next
    assume "trap = Prefetch_abort" "xf_abort f = 2" "fault_address s = prefetch_probe S" "xf_status f = 0x404"
      and g: "g = f\<lparr>xf_prefetch := xf_prefetch f OR 8\<rparr>"
    then have "abort_repair P S ?F ?c = (Done (), ?c\<lparr>ram := (ram ?c)(direct_pte (prefetch_probe S) := xf_prefetch f OR 8)\<rparr>)"
      using st st' pte by (simp add: abort_repair_def cmd_simps trap_frame_of_def store_field_def)
    moreover have "\<not> in_frame (?q - 88) (direct_pte (prefetch_probe S))"
      by (rule linked_frames(2) [OF link]) (simp_all add: q exc_words_def)
    ultimately show ?thesis using core_store(2) [OF ok c(1) S(1)] g by blast
  next
    assume "trap = Prefetch_abort" "xf_abort f = 3" "fault_address s = user_probe S" "xf_status f = 0x504"
      and g: "g = f\<lparr>xf_user := xf_user f OR 4\<rparr>"
    then have "abort_repair P S ?F ?c = (Done (), ?c\<lparr>ram := (ram ?c)(direct_pte (user_probe S) := xf_user f OR 4)\<rparr>)"
      using st st' pte by (simp add: abort_repair_def cmd_simps trap_frame_of_def store_field_def)
    moreover have "\<not> in_frame (?q - 88) (direct_pte (user_probe S))"
      by (rule linked_frames(2) [OF link]) (simp_all add: q exc_words_def)
    ultimately show ?thesis using core_store(3) [OF ok c(1) S(1)] g by blast
  qed
  then obtain a w where r: "abort_repair P S ?F ?c = (Done (), ?c\<lparr>ram := (ram ?c)(a := w)\<rparr>)"
    "\<not> in_frame (?q - 88) a" "exc_core E g (?c\<lparr>ram := (ram ?c)(a := w)\<rparr>)" by blast
  let ?t = "?c\<lparr>ram := (ram ?c)(a := w)\<rparr>"
  let ?u = "?t\<lparr>io := io ?t @ [TlbInvalidateAll], dev := mmu_flush M (dev ?t), abort_stage := 0\<rparr>"
  have run: "dispatched junk (exc_handlers P M S) trap (?q - 88) ?c = (Done (?q - 88), ?u)"
  proof -
    have "exc_abort_dispatch P M S (?q - 88) ?c = bind (abort_repair P S ?F) (\<lambda>_. bind (tlbiall M) (\<lambda>_.
        modify (\<lambda>s. s\<lparr>abort_stage := 0\<rparr>))) ?c"
      by (rule repairs [OF c(2)]) (use stage core_words(2) [OF ok] st st' q S in \<open>auto simp: trap_frame_of_def\<close>)
    also have "\<dots> = (Done (), ?u)"
      unfolding bind_Done [where c = "abort_repair P S ?F" and s = ?c, OF r(1)]
      by (simp add: bind_Done [OF tlbiall_result] modify_def)
    finally show ?thesis
      using trap(2) by (auto simp: dispatched_def exc_handlers_def bind_Done ret_def)
  qed
  have core: "exc_core E (g\<lparr>xf_cached := Map.empty, xf_abort := 0\<rparr>) ?u"
    by (rule core_set(2) [OF core_flush [OF ok r(3) S(2)]])
  have F: "trap_frame_at (ram ?u) (?q - 88) = ?F"
    using c(2) r(2) trap_frame_cong [of "?q - 88" "ram ?u" "ram ?c"] by fastforce
  have b: "banked_sp ?u = banked_sp s" using trap(1) by (simp add: called_def Let_def take_exception_def)
  have u: "length (gpr ?u) = 13" "exc_sp ?u = ?q - 88" using c(3,4) by simp_all
  show ?thesis
    using trap_runs [OF ok at len trap(1) refl run core u b F] trap(2) by (auto simp: trap_frame_of_def)
qed

end
