(* ===== verification/ExceptionWalk.thy ===== *)
theory ExceptionWalk
  imports ExceptionRun
begin

text \<open>
  The accesses of the case of \<open>ExceptionCase\<close>: the table words they are decided by, those that are
  granted, those that are tried again after a repair, and those of the user program to devices,
  which are stepped over.
\<close>

section \<open>The table words\<close>

lemma slot_of:
  assumes "phys m (0x40010000 + 4 * drop_bit 22 a) = table OR 1" and "page_of table = table"
  shows "pte_slot m 0x40010000 a = Some (table + 4 * (drop_bit 12 a AND 0x3ff) + 0x80000000)"
proof -
  have "page_of (table OR 1) = table" "(table OR 1) AND 1 = 1"
    using assms(2) by (simp_all add: pte_parts entry_and page_of_def [of 1])
  with assms(1) show ?thesis by (simp add: pte_slot_def)
qed

lemma probe_index: "0xc0000000 \<le> p \<Longrightarrow> p < 0xc0400000 \<Longrightarrow> drop_bit 22 p = (0x300 :: u32)"
proof -
  assume "0xc0000000 \<le> p" "p < 0xc0400000"
  then have "unat p div 4194304 = 768" by (simp add: word_le_nat_alt word_less_nat_alt div_nat_eqI)
  then show "drop_bit 22 p = (0x300 :: u32)" by (simp add: walk_indices(1))
qed

lemma linked_probe:
  assumes "env_ok E" and "p \<in> {prefetch_probe (ev_symbols E), user_probe (ev_symbols E)}"
  shows "page_of p = p" "0xc0000000 \<le> p" "p < 0xc0400000" "in_ram (minemu_test_paddr p)"
proof -
  show p: "page_of p = p" "0xc0000000 \<le> p" "p < 0xc0400000"
    using assms by (auto simp: env_ok_def exc_linked_def)
  from p(3) have "p < 0xc4000000" by (rule less_trans) simp
  with p(2) show "in_ram (minemu_test_paddr p)" by (rule in_ram_paddr)
qed

lemma core_slots:
  assumes ok: "env_ok E" and at: "exc_core E f s" and S: "S = ev_symbols E"
  shows "pte_slot (ram s) 0x40010000 DATA_VADDR = Some (data_table S)"
    and "p \<in> {prefetch_probe S, user_probe S} \<Longrightarrow> pte_slot (ram s) 0x40010000 p = Some (direct_pte p)"
    and "pte_slot (ram s) 0x40010000 0x10003000 = Some 0xc002200c"
    and "pte_slot (ram s) 0x40010000 0x1000f000 = Some 0xc002203c"
proof -
  have "page_of (minemu_test_paddr (data_table S)) = minemu_test_paddr (data_table S)"
    using ok S by (intro direct_paddr) (simp add: env_ok_def exc_linked_def)
  then show "pte_slot (ram s) 0x40010000 DATA_VADDR = Some (data_table S)"
    using at S by (subst slot_of [where table = "minemu_test_paddr (data_table S)"])
      (simp_all add: exc_core_def Let_def phys_def)
  show "pte_slot (ram s) 0x40010000 p = Some (direct_pte p)" if "p \<in> {prefetch_probe S, user_probe S}"
    using at probe_index [of p] linked_probe [OF ok, of p] that S
    by (subst slot_of [where table = "0x40012000"])
      (simp_all add: exc_core_def Let_def phys_def page_of_def direct_pte_def ac_simps)
  show "pte_slot (ram s) 0x40010000 0x10003000 = Some 0xc002200c"
    "pte_slot (ram s) 0x40010000 0x1000f000 = Some 0xc002203c"
    using at by (subst slot_of [where table = "0x40022000"]; simp add: exc_core_def Let_def phys_def page_of_def)+
qed

section \<open>An access\<close>

lemma exc_access:
  assumes ok: "env_ok E" and at: "exc_core E f s"
    and spec: "mmu_spec user kind a (ram s) (ev_mview E (dev s)) = Some (r, m, w)"
  obtains d where "mmu_access (ev_mmu E) user kind a (ram s) (dev s) = (r, m, d)" and "ev_mview E d = w"
    and "ev_bview E d = (ev_timer E, ev_board E)"
proof -
  have M: "mmu_behaves True True (ev_mmu E) (ev_mview E)" using ok by (simp add: env_ok_def mmu_contract_def)
  obtain d where d: "mmu_access (ev_mmu E) user kind a (ram s) (dev s) = (r, m, d)" "ev_mview E d = w"
    using behaves_access [OF M spec] by blast
  have "\<exists>n. ev_bview E (snd (snd (mmu_access (ev_mmu E) user kind a (ram s) (dev s)))) =
      (timer_pass n (fst (ev_bview E (dev s))), snd (ev_bview E (dev s)))"
    using ok unfolding env_ok_def apart_def by blast
  then have "ev_bview E d = (ev_timer E, ev_board E)"
    using ok at d(1) by (auto simp: exc_core_def Let_def env_ok_def pass_stopped)
  with d that show ?thesis by blast
qed

text \<open>An aborted access enters the handler with the status and the address.\<close>

lemma core_fault:
  assumes ok: "env_ok E" and at: "exc_core E f s" and M: "M = ev_mmu E"
    and spec: "mmu_spec (in_user_mode s) kind a (ram s) (ev_mview E (dev s)) =
      Some (Aborted status, ram s, ev_mview E (dev s))"
  obtains t where "mem_access M abort (Suc n) kind a s =
      bind abort (\<lambda>_ u. if pc u = pc s then mem_access M abort n kind a u else (Done None, u)) t"
    and "exc_core E (f\<lparr>xf_status := status\<rparr>) t" and "gpr t = gpr s" "pc t = pc s" "cpsr t = cpsr s"
    and "fault_address t = a"
proof -
  obtain d where d: "mmu_access M (in_user_mode s) kind a (ram s) (dev s) = (Aborted status, ram s, d)"
    "ev_mview E d = ev_mview E (dev s)" "ev_bview E d = (ev_timer E, ev_board E)"
    using exc_access [OF ok at spec] M by blast
  let ?t = "s\<lparr>ram := ram s, dev := d, fault_status := status, fault_address := a\<rparr>"
  have "exc_core E (f\<lparr>xf_status := status\<rparr>) ?t" using at d(2,3) by (simp add: exc_core_def Let_def)
  with d(1) show ?thesis by (intro that [of ?t]) simp_all
qed

text \<open>A granted one.\<close>

lemma core_grant:
  assumes ok: "env_ok E" and at: "exc_core E f s" and M: "M = ev_mmu E"
    and spec: "mmu_spec (in_user_mode s) kind a (ram s) (ev_mview E (dev s)) = Some (Granted v, m, w)"
  obtains d where "mem_access M abort (Suc n) kind a s = (Done (Some v), s\<lparr>ram := m, dev := d\<rparr>)"
    and "ev_mview E d = w" and "ev_bview E d = (ev_timer E, ev_board E)"
proof -
  obtain d where "mmu_access M (in_user_mode s) kind a (ram s) (dev s) = (Granted v, m, d)"
    "ev_mview E d = w" "ev_bview E d = (ev_timer E, ev_board E)"
    using exc_access [OF ok at spec] M by blast
  then show ?thesis by (intro that [of d]) simp_all
qed

section \<open>Fetches from the probes\<close>

definition same_context :: "('d, 'z) processor_scheme \<Rightarrow> ('d, 'z) processor_scheme \<Rightarrow> bool" where
  "same_context s t \<longleftrightarrow> gpr t = gpr s \<and> pc t = pc s \<and> cpsr t = cpsr s"

lemma probe_spec:
  assumes ok: "env_ok E" and at: "exc_core E f s" and p: "p \<in> {prefetch_probe (ev_symbols E), user_probe (ev_symbols E)}"
    and none: "xf_cached f p = None" and w: "ram s (direct_pte p) = w" "w AND 1 \<noteq> 0"
  shows "\<not> permitted user Fetch w \<Longrightarrow> mmu_spec user Fetch p (ram s) (ev_mview E (dev s)) =
      Some (Aborted (0x404 OR from_user user), ram s, ev_mview E (dev s))"
    and "permitted user Fetch w \<Longrightarrow> page_of w = minemu_test_paddr p \<Longrightarrow>
      \<exists>v. mmu_spec user Fetch p (ram s) (ev_mview E (dev s)) = Some (Granted v, (ram s)(direct_pte p := w OR 32),
        (ev_mview E (dev s))\<lparr>tv_cached := (xf_cached f)(p \<mapsto> w OR 32)\<rparr>)"
proof -
  have slot: "pte_slot (ram s) 0x40010000 p = Some (direct_pte p)" by (rule core_slots(2) [OF ok at refl p])
  have v: "tv_root (ev_mview E (dev s)) = 0x40010000" "tv_cached (ev_mview E (dev s)) = xf_cached f"
    using at by (simp_all add: exc_core_def Let_def)
  note q = linked_probe [OF ok p]
  show "mmu_spec user Fetch p (ram s) (ev_mview E (dev s)) =
      Some (Aborted (0x404 OR from_user user), ram s, ev_mview E (dev s))" if "\<not> permitted user Fetch w"
    using that slot v q none w by (simp add: mmu_spec_def Let_def)
  show "\<exists>v. mmu_spec user Fetch p (ram s) (ev_mview E (dev s)) = Some (Granted v, (ram s)(direct_pte p := w OR 32),
        (ev_mview E (dev s))\<lparr>tv_cached := (xf_cached f)(p \<mapsto> w OR 32)\<rparr>)"
    if "permitted user Fetch w" "page_of w = minemu_test_paddr p"
    using that slot v q none w by (simp add: mmu_spec_def Let_def page_off_aligned ram_access_def)
qed

text \<open>Which of the facts changes when the entry of a probe is touched.\<close>

definition probe_word :: "exc_symbols \<Rightarrow> u32 \<Rightarrow> exc_facts \<Rightarrow> u32" where
  "probe_word S p f = (if p = prefetch_probe S then xf_prefetch f else xf_user f)"

definition set_probe_word :: "exc_symbols \<Rightarrow> u32 \<Rightarrow> u32 \<Rightarrow> exc_facts \<Rightarrow> exc_facts" where
  "set_probe_word S p w f = (if p = prefetch_probe S then f\<lparr>xf_prefetch := w\<rparr> else f\<lparr>xf_user := w\<rparr>)"

lemma core_probe:
  assumes ok: "env_ok E" and at: "exc_core E f s" and p: "p \<in> {prefetch_probe (ev_symbols E), user_probe (ev_symbols E)}"
  shows "ram s (direct_pte p) = probe_word (ev_symbols E) p f"
    and "exc_core E (set_probe_word (ev_symbols E) p w f) (s\<lparr>ram := (ram s)(direct_pte p := w)\<rparr>)"
proof -
  show "ram s (direct_pte p) = probe_word (ev_symbols E) p f"
    using at p by (auto simp: exc_core_def Let_def probe_word_def)
  show "exc_core E (set_probe_word (ev_symbols E) p w f) (s\<lparr>ram := (ram s)(direct_pte p := w)\<rparr>)"
    using core_store(2,3) [OF ok at refl, of w] p by (auto simp: set_probe_word_def)
qed

lemma fetch_walks:
  assumes ok: "env_ok E" and at: "exc_core E f s" and M: "M = ev_mmu E" and S: "S = ev_symbols E"
    and p: "p \<in> {prefetch_probe S, user_probe S}"
    and f: "xf_cached f p = None" "probe_word S p f = w"
    and w: "w AND 1 \<noteq> 0" "permitted (in_user_mode s) Fetch w" "page_of w = minemu_test_paddr p"
  shows "\<exists>v t. mem_access M abort (Suc n) Fetch p s = (Done (Some v), t)
    \<and> exc_core E ((set_probe_word S p (w OR 32) f)\<lparr>xf_cached := (xf_cached f)(p \<mapsto> w OR 32)\<rparr>) t \<and> same_context s t"
proof -
  have p': "p \<in> {prefetch_probe (ev_symbols E), user_probe (ev_symbols E)}" using p S by simp
  have r: "ram s (direct_pte p) = w" using core_probe(1) [OF ok at p'] f(2) S by simp
  obtain v where "mmu_spec (in_user_mode s) Fetch p (ram s) (ev_mview E (dev s)) =
      Some (Granted v, (ram s)(direct_pte p := w OR 32), (ev_mview E (dev s))\<lparr>tv_cached := (xf_cached f)(p \<mapsto> w OR 32)\<rparr>)"
    using probe_spec(2) [OF ok at p' f(1) r w(1) w(2,3)] by blast
  from core_grant [OF ok at M this, where abort = abort and n = n] obtain d where d:
    "mem_access M abort (Suc n) Fetch p s = (Done (Some v), s\<lparr>ram := (ram s)(direct_pte p := w OR 32), dev := d\<rparr>)"
    "ev_mview E d = (ev_mview E (dev s))\<lparr>tv_cached := (xf_cached f)(p \<mapsto> w OR 32)\<rparr>"
    "ev_bview E d = (ev_timer E, ev_board E)" by blast
  let ?t = "s\<lparr>ram := (ram s)(direct_pte p := w OR 32), dev := d\<rparr>"
  have "exc_core E (set_probe_word S p (w OR 32) f) (s\<lparr>ram := (ram s)(direct_pte p := w OR 32)\<rparr>)"
    using core_probe(2) [OF ok at p'] S by simp
  then have "exc_core E ((set_probe_word S p (w OR 32) f)\<lparr>xf_cached := (xf_cached f)(p \<mapsto> w OR 32)\<rparr>) ?t"
    using d(2,3) by (simp add: exc_core_def Let_def)
  with d(1) show ?thesis by (auto simp: same_context_def)
qed

text \<open>The first fetch from a probe aborts, its entry is repaired, and the second one is granted.\<close>

lemma fetch_repaired:
  assumes ok: "env_ok E" and at: "exc_core E f s" and len: "length (gpr s) = 13"
    and S: "S = ev_symbols E" "M = ev_mmu E" and f: "xf_cached f p = None" "probe_word S p f = w"
    and w: "w AND 1 \<noteq> 0" "page_of w = minemu_test_paddr p"
    and stage: "xf_abort f = 2 \<and> p = prefetch_probe S \<and> \<not> in_user_mode s \<and> w AND 8 = 0 \<and> r = 8 \<and> status = 0x404
      \<or> xf_abort f = 3 \<and> p = user_probe S \<and> in_user_mode s \<and> w AND 8 \<noteq> 0 \<and> w AND 4 = 0 \<and> r = 4 \<and> status = 0x504"
    and abort: "abort = deliver_banked P junk (exc_handlers P M S) Prefetch_abort"
  shows "\<exists>v t. mem_access M abort (Suc (Suc n)) Fetch p s = (Done (Some v), t)
    \<and> exc_core E ((set_probe_word S p (w OR r OR 32) f)\<lparr>xf_cached := [p \<mapsto> w OR r OR 32], xf_abort := 0, xf_status := status\<rparr>) t
    \<and> same_context s t"
proof -
  have p: "p \<in> {prefetch_probe S, user_probe S}" "p \<in> {prefetch_probe (ev_symbols E), user_probe (ev_symbols E)}"
    using stage S by auto
  have ne: "prefetch_probe S \<noteq> user_probe S" using ok S by (simp add: env_ok_def exc_linked_def)
  have m: "ram s (direct_pte p) = w" using core_probe(1) [OF ok at p(2)] f(2) S by simp
  have "mmu_spec (in_user_mode s) Fetch p (ram s) (ev_mview E (dev s)) =
      Some (Aborted status, ram s, ev_mview E (dev s))"
    using probe_spec(1) [OF ok at p(2) f(1) m w(1), of "in_user_mode s"] stage
    by (auto simp: permitted_def from_user_def)
  from core_fault [OF ok at S(2) this, where abort = abort and n = "Suc n"] obtain t where t:
    "mem_access M abort (Suc (Suc n)) Fetch p s =
      bind abort (\<lambda>_ u. if pc u = pc s then mem_access M abort (Suc n) Fetch p u else (Done None, u)) t"
    "exc_core E (f\<lparr>xf_status := status\<rparr>) t" "gpr t = gpr s" "pc t = pc s" "cpsr t = cpsr s" "fault_address t = p"
    by blast
  let ?g = "(set_probe_word S p (w OR r) f)\<lparr>xf_status := status\<rparr>"
  have repair: "\<exists>u. deliver_banked P junk (exc_handlers P M S) Prefetch_abort t = (Done (), u)
      \<and> exc_core E (?g\<lparr>xf_cached := Map.empty, xf_abort := 0\<rparr>) u
      \<and> length (gpr u) = 13 \<and> gpr u = gpr t \<and> pc u = pc t \<and> cpsr u = cpsr t"
    by (rule abort_repaired [OF ok t(2) _ S]) (use stage t len f(2) ne in \<open>auto simp: set_probe_word_def probe_word_def\<close>)
  then obtain u where u: "abort t = (Done (), u)" "exc_core E (?g\<lparr>xf_cached := Map.empty, xf_abort := 0\<rparr>) u"
    "same_context s u" using abort t(3-5) by (auto simp: same_context_def)
  have "permitted (in_user_mode u) Fetch (w OR r)" "(w OR r) AND 1 \<noteq> 0" "page_of (w OR r) = minemu_test_paddr p"
    using stage w u(3) by (auto simp: permitted_def bit.conj_disj_distrib2 same_context_def in_user_mode_def page_of_or
      page_of_def [of 8] page_of_def [of 4])
  then have "\<exists>v t'. mem_access M abort (Suc n) Fetch p u = (Done (Some v), t')
    \<and> exc_core E ((set_probe_word S p (w OR r OR 32) (?g\<lparr>xf_cached := Map.empty, xf_abort := 0\<rparr>))
        \<lparr>xf_cached := [p \<mapsto> w OR r OR 32]\<rparr>) t' \<and> same_context u t'"
    using fetch_walks [OF ok u(2) S(2,1) p(1), of "w OR r" abort n]
    by (simp add: probe_word_def set_probe_word_def or.assoc split: if_splits)
  moreover have "(set_probe_word S p (w OR r OR 32) (?g\<lparr>xf_cached := Map.empty, xf_abort := 0\<rparr>))\<lparr>xf_cached := [p \<mapsto> w OR r OR 32]\<rparr>
      = (set_probe_word S p (w OR r OR 32) f)\<lparr>xf_cached := [p \<mapsto> w OR r OR 32], xf_abort := 0, xf_status := status\<rparr>"
    by (simp add: set_probe_word_def)
  ultimately show ?thesis
    using t(1) u(1,3) by (auto simp: bind_Done same_context_def)
qed

text \<open>Later fetches from a page the TLB keeps.\<close>

lemma fetch_kept:
  assumes ok: "env_ok E" and at: "exc_core E f s" and M: "M = ev_mmu E"
    and p: "p \<in> {prefetch_probe (ev_symbols E), user_probe (ev_symbols E)}" and i: "i < 1024"
    and kept: "xf_cached f p = Some w" "permitted (in_user_mode s) Fetch w" "page_of w = minemu_test_paddr p"
  shows "\<exists>v t. mem_access M abort (Suc n) Fetch (p + 4 * i) s = (Done (Some v), t)
    \<and> exc_core E f t \<and> same_context s t"
proof -
  note q = linked_probe [OF ok p]
  have page: "page_of (p + 4 * i) = p" by (rule word_in_page [OF q(1) i])
  then have a: "unat p \<le> unat (p + 4 * i)" "unat (p + 4 * i) < unat p + 4096"
    using page_of_unique [of p "p + 4 * i"] page_off_aligned [OF q(1)] unat_page_off [of p] by auto
  have off: "page_off (p + 4 * i) = 4 * i" using page_split [of "p + 4 * i"] page by (metis add_left_cancel)
  have "in_ram (minemu_test_paddr (p + 4 * i))"
  proof (rule in_ram_paddr)
    show "0xc0000000 \<le> p + 4 * i" using a(1) q(2) by (simp add: word_le_nat_alt)
    show "p + 4 * i < 0xc4000000" using a(2) q(3) by (simp add: word_less_nat_alt)
  qed
  moreover have "minemu_test_paddr (p + 4 * i) = minemu_test_paddr p + 4 * i" by (simp add: minemu_test_paddr_def)
  moreover have "tv_cached (ev_mview E (dev s)) p = Some w" using at kept(1) by (simp add: exc_core_def Let_def)
  ultimately obtain v where "mmu_spec (in_user_mode s) Fetch (p + 4 * i) (ram s) (ev_mview E (dev s)) =
      Some (Granted v, ram s, ev_mview E (dev s))"
    using kept(2,3) page off by (simp add: mmu_spec_def)
  from core_grant [OF ok at M this, where abort = abort and n = n] obtain d where d:
    "mem_access M abort (Suc n) Fetch (p + 4 * i) s = (Done (Some v), s\<lparr>ram := ram s, dev := d\<rparr>)"
    "ev_mview E d = ev_mview E (dev s)" "ev_bview E d = (ev_timer E, ev_board E)" by blast
  have "exc_core E f (s\<lparr>ram := ram s, dev := d\<rparr>)" using at d(2,3) by (simp add: exc_core_def Let_def)
  with d(1) show ?thesis by (auto simp: same_context_def)
qed

section \<open>Accesses to data\<close>

text \<open>The read of the unmapped word: a translation fault, the mapping, and the word behind it.\<close>

lemma data_repaired:
  assumes ok: "env_ok E" and at: "exc_core E f s" and len: "length (gpr s) = 13"
    and S: "S = ev_symbols E" "M = ev_mmu E" and user: "\<not> in_user_mode s"
    and f: "xf_cached f DATA_VADDR = None" "xf_table f = 0" "xf_abort f = 1" "xf_device f = 0"
    and abort: "abort = deliver_banked P junk (exc_handlers P M S) Data_abort"
  shows "\<exists>w t. mem_access M abort (Suc (Suc n)) Load DATA_VADDR s = (Done (Some 0), t)
    \<and> exc_core E (f\<lparr>xf_cached := [DATA_VADDR \<mapsto> w], xf_table := w, xf_abort := 0, xf_status := 1\<rparr>) t
    \<and> same_context s t"
proof -
  let ?w = "minemu_test_paddr (data_page S) OR 1 OR 16 OR 2"
  have link: "page_of (data_page S) = data_page S" "0xc0000000 \<le> data_page S" "data_page S < 0xc4000000"
    "data_page S \<noteq> data_table S"
    using ok S by (auto simp: env_ok_def exc_linked_def exc_words_def)
  have slot: "pte_slot (ram u) 0x40010000 DATA_VADDR = Some (data_table S)" if "exc_core E g u" for g u
    by (rule core_slots(1) [OF ok that S(1)])
  have "mmu_spec (in_user_mode s) Load DATA_VADDR (ram s) (ev_mview E (dev s)) =
      Some (Aborted 1, ram s, ev_mview E (dev s))"
    using at slot [OF at] f user S by (simp add: mmu_spec_def exc_core_def Let_def page_of_def from_user_def)
  from core_fault [OF ok at S(2) this, where abort = abort and n = "Suc n"] obtain t where t:
    "mem_access M abort (Suc (Suc n)) Load DATA_VADDR s =
      bind abort (\<lambda>_ u. if pc u = pc s then mem_access M abort (Suc n) Load DATA_VADDR u else (Done None, u)) t"
    "exc_core E (f\<lparr>xf_status := 1\<rparr>) t" "gpr t = gpr s" "pc t = pc s" "cpsr t = cpsr s" "fault_address t = DATA_VADDR"
    by blast
  let ?g = "f\<lparr>xf_table := ?w, xf_status := 1\<rparr>"
  have repair: "\<exists>u. deliver_banked P junk (exc_handlers P M S) Data_abort t = (Done (), u)
      \<and> exc_core E (?g\<lparr>xf_cached := Map.empty, xf_abort := 0\<rparr>) u
      \<and> length (gpr u) = 13 \<and> gpr u = gpr t \<and> pc u = pc t \<and> cpsr u = cpsr t"
    by (rule abort_repaired [OF ok t(2) _ S]) (use t len f in auto)
  then obtain u where u: "abort t = (Done (), u)" "exc_core E (?g\<lparr>xf_cached := Map.empty, xf_abort := 0\<rparr>) u"
    "same_context s u" using abort t(3-5) by (auto simp: same_context_def)
  have w: "page_of ?w = minemu_test_paddr (data_page S)" "?w AND 1 \<noteq> 0" "?w AND 16 \<noteq> 0"
    using pte_parts(1) [OF direct_paddr [OF link(1)], of "1 OR 16 OR 2"]
      entry_and [OF direct_paddr [OF link(1)], of _ "1 OR 16 OR 2"]
    by (simp_all add: page_of_def [of 1] page_of_def [of 16] page_of_def [of 19] or.assoc)
  have ram: "in_ram (minemu_test_paddr (data_page S))" by (rule in_ram_paddr [OF link(2,3)])
  have user': "\<not> in_user_mode u" using user u(3) by (simp add: in_user_mode_def same_context_def)
  have "mmu_spec (in_user_mode u) Load DATA_VADDR (ram u) (ev_mview E (dev u)) =
      Some (Granted 0, (ram u)(data_table S := ?w OR 32),
        (ev_mview E (dev u))\<lparr>tv_cached := [DATA_VADDR \<mapsto> ?w OR 32]\<rparr>)"
    using u(2) slot [OF u(2)] user' w ram link(4) S(1)
    by (simp add: mmu_spec_def exc_core_def Let_def page_of_def [of DATA_VADDR] page_off_def permitted_def
        ram_access_def phys_def)
  from core_grant [OF ok u(2) S(2) this, where abort = abort and n = n] obtain d where d:
    "mem_access M abort (Suc n) Load DATA_VADDR u = (Done (Some 0), u\<lparr>ram := (ram u)(data_table S := ?w OR 32), dev := d\<rparr>)"
    "ev_mview E d = (ev_mview E (dev u))\<lparr>tv_cached := [DATA_VADDR \<mapsto> ?w OR 32]\<rparr>"
    "ev_bview E d = (ev_timer E, ev_board E)" by blast
  let ?r = "u\<lparr>ram := (ram u)(data_table S := ?w OR 32), dev := d\<rparr>"
  have "exc_core E (f\<lparr>xf_cached := [DATA_VADDR \<mapsto> ?w OR 32], xf_table := ?w OR 32, xf_abort := 0, xf_status := 1\<rparr>) ?r"
    using core_store(1) [OF ok u(2) S(1), of "?w OR 32"] d(2,3) by (simp add: exc_core_def Let_def)
  moreover have "mem_access M abort (Suc (Suc n)) Load DATA_VADDR s = (Done (Some 0), ?r)"
    unfolding t(1) bind_Done [where c = abort and s = t, OF u(1)] using u(3) d(1) by (simp add: same_context_def)
  moreover have "same_context s ?r" using u(3) by (simp add: same_context_def)
  ultimately show ?thesis by blast
qed

text \<open>The accesses of the user program to the device pages, which are not for it.\<close>

lemma device_access:
  assumes ok: "env_ok E" and at: "exc_core E f s" and len: "length (gpr s) = 13"
    and S: "S = ev_symbols E" "M = ev_mmu E" and user: "in_user_mode s" and none: "xf_cached f (page_of a) = None"
    and stage: "xf_device f = 1 \<and> kind = Load \<and> a = 0x10003000 \<and> status = 0x102 \<and> n = 2
      \<or> xf_device f = 2 \<and> kind = Store v \<and> a = 0x1000f000 \<and> status = 0x303 \<and> n = 3"
    and abort: "abort = deliver_banked P junk (exc_handlers P M S) Data_abort"
  shows "\<exists>t. mem_access M abort (Suc fuel) kind a s = (Done None, t)
    \<and> exc_core E (f\<lparr>xf_status := status, xf_device := n\<rparr>) t
    \<and> gpr t = gpr s \<and> pc t = pc s + 4 \<and> cpsr t = cpsr s"
proof -
  have bits: "pte AND 1 \<noteq> 0 \<and> pte AND 4 = 0" if "pte AND 5 = 1" for pte :: u32
    using arg_cong [OF that, of "\<lambda>x. x AND 1"] arg_cong [OF that, of "\<lambda>x. x AND 4"] by (simp add: and.assoc)
  have words: "ram s 0xc002200c AND 5 = 1" "ram s 0xc002203c AND 5 = 1" using at by (simp_all add: exc_core_def Let_def)
  have v: "tv_root (ev_mview E (dev s)) = 0x40010000" "tv_cached (ev_mview E (dev s)) = xf_cached f"
    using at by (simp_all add: exc_core_def Let_def)
  have "mmu_spec (in_user_mode s) kind a (ram s) (ev_mview E (dev s)) = Some (Aborted status, ram s, ev_mview E (dev s))"
    using stage core_slots(3,4) [OF ok at S(1)] bits [OF words(1)] bits [OF words(2)] v none user
    by (auto simp: mmu_spec_def Let_def permitted_def from_user_def)
  from core_fault [OF ok at S(2) this, where abort = abort and n = fuel] obtain t where t:
    "mem_access M abort (Suc fuel) kind a s =
      bind abort (\<lambda>_ u. if pc u = pc s then mem_access M abort fuel kind a u else (Done None, u)) t"
    "exc_core E (f\<lparr>xf_status := status\<rparr>) t" "gpr t = gpr s" "pc t = pc s" "cpsr t = cpsr s" "fault_address t = a"
    by blast
  have "\<exists>u. deliver_banked P junk (exc_handlers P M (ev_symbols E)) Data_abort t = (Done (), u)
      \<and> exc_core E (f\<lparr>xf_status := status\<rparr>\<lparr>xf_device := n\<rparr>) u
      \<and> length (gpr u) = 13 \<and> gpr u = gpr t \<and> pc u = pc t + 4 \<and> cpsr u = cpsr t"
    by (rule device_skipped [OF ok t(2)]) (use stage t len in auto)
  then obtain u where u: "abort t = (Done (), u)" "exc_core E (f\<lparr>xf_status := status, xf_device := n\<rparr>) u"
    "gpr u = gpr s" "pc u = pc s + 4" "cpsr u = cpsr s"
    using abort S t(3-5) by auto
  have "pc u \<noteq> pc s" using u(4) by simp
  then show ?thesis
    unfolding t(1) bind_Done [where c = abort and s = t, OF u(1)] using u by simp
qed

end
