(* ===== verification/ExceptionParts.thy ===== *)
theory ExceptionParts
  imports ExceptionWalk
begin

text \<open>
  The parts of the main function of \<open>ExceptionCase\<close> up to the interrupt, as triples over the facts
  of \<open>ExceptionRun\<close>: the kernel's own exceptions, and the user program.
\<close>

section \<open>The kernel between its exceptions\<close>

definition kern :: "'d exc_env \<Rightarrow> exc_facts \<Rightarrow> 'd exc_state \<Rightarrow> bool" where
  "kern E f s \<longleftrightarrow> exc_core E f s \<and> length (gpr s) = 13 \<and> cpsr s AND 0x1f = 0x13"

lemma kern_not_user: "kern E f s \<Longrightarrow> \<not> in_user_mode s"
  by (simp add: kern_def in_user_mode_def)

lemma traps_of [simp]:
  "take_undefined (exc_traps_of P M S junk) = deliver_banked P junk (exc_handlers P M S) Undefined"
  "take_svc (exc_traps_of P M S junk) = deliver_banked P junk (exc_handlers P M S) Svc"
  "take_prefetch (exc_traps_of P M S junk) = deliver_banked P junk (exc_handlers P M S) Prefetch_abort"
  "take_data (exc_traps_of P M S junk) = deliver_banked P junk (exc_handlers P M S) Data_abort"
  "take_irq (exc_traps_of P M S junk) = deliver_banked P junk (exc_handlers P M S) Irq"
  by (simp_all add: exc_traps_of_def Let_def)

lemma kern_sets:
  "total (kern E f) (set_static (\<lambda>s. s\<lparr>undefined_stage := n\<rparr>)) (\<lambda>_. kern E (f\<lparr>xf_undefined := n\<rparr>))"
  "total (kern E f) (set_static (\<lambda>s. s\<lparr>abort_stage := n\<rparr>)) (\<lambda>_. kern E (f\<lparr>xf_abort := n\<rparr>))"
  "total (kern E f) (set_static (\<lambda>s. s\<lparr>user_device_stage := n\<rparr>)) (\<lambda>_. kern E (f\<lparr>xf_device := n\<rparr>))"
  by (auto simp: set_static_def kern_def intro!: total_modify core_set)

lemma kern_requires:
  "(\<And>s. exc_core E f s \<Longrightarrow> c s) \<Longrightarrow> total (kern E f) (require_static P c code) (\<lambda>_. kern E f)"
  unfolding require_static_def by (rule total_check [where c = "\<lambda>x. x"]) (simp add: kern_def)

lemma kern_expects: "total (kern E f) expect_frame (\<lambda>_. kern E (f\<lparr>xf_frame := ev_sp E - 88\<rparr>))"
  unfolding expect_frame_def
proof (rule total_modify)
  fix s assume s: "kern E f s"
  then have "banked_sp s 0x13 = ev_sp E" by (simp add: kern_def exc_core_def Let_def)
  with s show "kern E (f\<lparr>xf_frame := ev_sp E - 88\<rparr>) (s\<lparr>expected_svc_frame := banked_sp s 0x13 - 88\<rparr>)"
    by (auto simp: kern_def intro: core_set)
qed

lemma kern_raises:
  assumes "\<And>s. kern E f s \<Longrightarrow> \<exists>u. trap s = (Done (), u) \<and> kern E g u \<and> pc u = pc s + 4"
  shows "total (kern E f) (raise_here trap) (\<lambda>_. kern E g)"
proof (rule totalI)
  fix s assume "kern E f s"
  with assms obtain u where u: "trap s = (Done (), u)" "kern E g u" "pc u = pc s + 4" by blast
  then show "\<exists>x t. raise_here trap s = (Done x, t) \<and> kern E g t"
    by (simp add: raise_here_def arrive_def cmd_simps bind_Done)
qed

lemma kern_svc:
  assumes ok: "env_ok E" and S: "S = ev_symbols E" and f: "xf_svc f = 0" "xf_frame f = ev_sp E - 88"
  shows "total (kern E f) (raise_here (take_svc (exc_traps_of P M S junk))) (\<lambda>_. kern E (f\<lparr>xf_svc := 1\<rparr>))"
proof (rule kern_raises)
  fix s assume s: "kern E f s"
  then have "xf_svc f = 0 \<and> cpsr s AND 0x1f = 0x13 \<and> cpsr s = cpsr s
      \<or> xf_svc f = 1 \<and> cpsr s AND 0x1f = 0x10 \<and> cpsr s = (cpsr s AND NOT 0x1f) OR 0x13"
    using f(1) by (simp add: kern_def)
  from svc_taken [OF ok _ _ f(2) this, of P junk M] s f(1) S
  show "\<exists>u. take_svc (exc_traps_of P M S junk) s = (Done (), u) \<and> kern E (f\<lparr>xf_svc := 1\<rparr>) u \<and> pc u = pc s + 4"
    by (auto simp: kern_def)
qed

lemma kern_undefined:
  assumes ok: "env_ok E" and S: "S = ev_symbols E" and f: "xf_undefined f = 1"
  shows "total (kern E f) (minemu_trigger_undefined (exc_traps_of P M S junk)) (\<lambda>_. kern E (f\<lparr>xf_undefined := 0\<rparr>))"
  unfolding minemu_trigger_undefined_def
proof (rule kern_raises)
  fix s assume s: "kern E f s"
  then have "xf_undefined f = 1 \<and> cpsr s AND 0x1f = 0x13 \<or> xf_undefined f = 2 \<and> cpsr s AND 0x1f = 0x10"
    using f by (simp add: kern_def)
  from undefined_taken [OF ok _ _ this, of P junk M] s S
  show "\<exists>u. take_undefined (exc_traps_of P M S junk) s = (Done (), u) \<and> kern E (f\<lparr>xf_undefined := 0\<rparr>) u \<and> pc u = pc s + 4"
    by (auto simp: kern_def)
qed

text \<open>The condition of the system-control write does not hold, so paging stays as it is.\<close>

lemma kern_condition: "total (kern E f) minemu_cp15_condition_false (\<lambda>_. kern E f)"
proof (rule totalI)
  fix s assume s: "kern E f s"
  then show "\<exists>x t. minemu_cp15_condition_false s = (Done x, t) \<and> kern E f t"
    by (simp add: minemu_cp15_condition_false_def mov_def cmp_imm_def cmd_simps kern_def Let_def
        bit.conj_disj_distrib2 and.assoc)
qed

lemma kern_stores:
  assumes ok: "env_ok E" and S: "S = ev_symbols E"
  shows "total (kern E f) (store_field (direct_pte (prefetch_probe S)) (\<lambda>s. ram s (direct_pte (prefetch_probe S)) AND m))
      (\<lambda>_. kern E (f\<lparr>xf_prefetch := xf_prefetch f AND m\<rparr>))"
    and "total (kern E f) (store_field (direct_pte (user_probe S)) (\<lambda>s. ram s (direct_pte (user_probe S)) AND m))
      (\<lambda>_. kern E (f\<lparr>xf_user := xf_user f AND m\<rparr>))"
proof -
  have w: "ram s (direct_pte (prefetch_probe S)) = xf_prefetch f" "ram s (direct_pte (user_probe S)) = xf_user f"
    if "exc_core E f s" for s using that S by (simp_all add: exc_core_def Let_def)
  show "total (kern E f) (store_field (direct_pte (prefetch_probe S)) (\<lambda>s. ram s (direct_pte (prefetch_probe S)) AND m))
      (\<lambda>_. kern E (f\<lparr>xf_prefetch := xf_prefetch f AND m\<rparr>))"
    "total (kern E f) (store_field (direct_pte (user_probe S)) (\<lambda>s. ram s (direct_pte (user_probe S)) AND m))
      (\<lambda>_. kern E (f\<lparr>xf_user := xf_user f AND m\<rparr>))"
    unfolding store_field_def
    by (rule total_modify, use core_store(2,3) [OF ok _ S] w in \<open>simp add: kern_def\<close>)+
qed

lemma kern_flush:
  assumes "env_ok E" and "M = ev_mmu E"
  shows "total (kern E f) (tlbiall M) (\<lambda>_. kern E (f\<lparr>xf_cached := Map.empty\<rparr>))"
  using core_flush [OF assms(1) _ assms(2)] by (simp add: total_def tlbiall_result kern_def)

lemma kern_read:
  assumes ok: "env_ok E" and S: "S = ev_symbols E" "M = ev_mmu E"
    and f: "xf_cached f DATA_VADDR = None" "xf_table f = 0" "xf_abort f = 1" "xf_device f = 0"
  shows "total (kern E f) (bind (volatile_read M (take_data (exc_traps_of P M S junk)) (Suc (Suc n)) old DATA_VADDR)
      (\<lambda>v. MINEMU_REQUIRE P (v = 0) code))
    (\<lambda>_ s. \<exists>w. kern E (f\<lparr>xf_cached := [DATA_VADDR \<mapsto> w], xf_table := w, xf_abort := 0, xf_status := 1\<rparr>) s)"
proof (rule totalI)
  fix s assume s: "kern E f s"
  then have "exc_core E f s" "length (gpr s) = 13" by (simp_all add: kern_def)
  from data_repaired [OF ok this S kern_not_user [OF s] f refl, where n = n and P = P and junk = junk] obtain w t where t:
    "mem_access M (take_data (exc_traps_of P M S junk)) (Suc (Suc n)) Load DATA_VADDR s = (Done (Some 0), t)"
    "exc_core E (f\<lparr>xf_cached := [DATA_VADDR \<mapsto> w], xf_table := w, xf_abort := 0, xf_status := 1\<rparr>) t" "same_context s t"
    by auto
  have "bind (volatile_read M (take_data (exc_traps_of P M S junk)) (Suc (Suc n)) old DATA_VADDR)
      (\<lambda>v. MINEMU_REQUIRE P (v = 0) code) s = (Done (), t)"
    unfolding volatile_read_def bind_bind
      bind_Done [where c = "mem_access M (take_data (exc_traps_of P M S junk)) (Suc (Suc n)) Load DATA_VADDR" and s = s, OF t(1)]
    by (simp add: bind_ret MINEMU_REQUIRE_def ret_def)
  with s t(2,3) show "\<exists>x t. bind (volatile_read M (take_data (exc_traps_of P M S junk)) (Suc (Suc n)) old DATA_VADDR)
      (\<lambda>v. MINEMU_REQUIRE P (v = 0) code) s = (Done x, t)
    \<and> (\<exists>w. kern E (f\<lparr>xf_cached := [DATA_VADDR \<mapsto> w], xf_table := w, xf_abort := 0, xf_status := 1\<rparr>) t)"
    by (auto simp: kern_def same_context_def)
qed

section \<open>Code fetched through the MMU\<close>

lemma total_run_code:
  assumes "\<And>s. A s \<Longrightarrow> pc s = a" and "total A (mem_access M abort fuel Fetch a) (\<lambda>r s. r \<noteq> None \<and> A' s)"
    and "total A' c (\<lambda>_. B)" and "total B (run_code M abort fuel (a + 4) cs) C"
  shows "total A (run_code M abort fuel a (c # cs)) C"
proof -
  have "total A (arrive a) (\<lambda>_. A)"
    using assms(1) by (simp add: total_def arrive_def cmd_simps)
  moreover have "total (\<lambda>s. r \<noteq> None \<and> A' s) (case r of Some v \<Rightarrow> c | None \<Rightarrow> ret ()) (\<lambda>_. B)" for r
    using assms(3) by (cases r) (simp_all add: total_def)
  ultimately show ?thesis
    unfolding run_code.simps using assms(2,4) by (blast intro: total_bind)
qed

text \<open>The call of the one instruction on a page of its own.\<close>

lemma kern_prefetch:
  assumes ok: "env_ok E" and S: "S = ev_symbols E" "M = ev_mmu E"
    and f: "xf_cached f (prefetch_probe S) = None" "xf_prefetch f = w" "xf_abort f = 2"
    and w: "w AND 1 \<noteq> 0" "w AND 8 = 0" "page_of w = minemu_test_paddr (prefetch_probe S)"
    and X: "X = exc_traps_of P M S junk"
  shows "total (kern E f) (minemu_prefetch_probe M X (Suc (Suc n)) S)
    (\<lambda>_. kern E (f\<lparr>xf_prefetch := w OR 8 OR 32, xf_cached := [prefetch_probe S \<mapsto> w OR 8 OR 32], xf_abort := 0,
      xf_status := 0x404\<rparr>))"
proof (rule totalI)
  let ?p = "prefetch_probe S" and ?abort = "take_prefetch X"
  let ?g = "f\<lparr>xf_prefetch := w OR 8 OR 32, xf_cached := [?p \<mapsto> w OR 8 OR 32], xf_abort := 0, xf_status := 0x404\<rparr>"
  fix s assume s: "kern E f s"
  let ?s = "s\<lparr>pc := ?p\<rparr>" and ?c = "modify (\<lambda>t. t\<lparr>pc := pc s + 4\<rparr>)"
  have at: "exc_core E f ?s" "length (gpr ?s) = 13" "\<not> in_user_mode ?s"
    using s kern_not_user [OF s] by (simp_all add: kern_def in_user_mode_def)
  have "\<exists>v t. mem_access M ?abort (Suc (Suc n)) Fetch ?p ?s = (Done (Some v), t)
    \<and> exc_core E ((set_probe_word S ?p (w OR 8 OR 32) f)\<lparr>xf_cached := [?p \<mapsto> w OR 8 OR 32], xf_abort := 0, xf_status := 0x404\<rparr>) t
    \<and> same_context ?s t"
    by (rule fetch_repaired [OF ok at(1,2) S f(1) _ w(1,3)]) (use f w at(3) X in \<open>simp_all add: probe_word_def\<close>)
  then obtain v t where t: "mem_access M ?abort (Suc (Suc n)) Fetch ?p ?s = (Done (Some v), t)"
    "exc_core E ?g t" "same_context ?s t" by (auto simp: set_probe_word_def)
  have "run_code M ?abort (Suc (Suc n)) ?p [?c] ?s = (Done (), t\<lparr>pc := pc s + 4\<rparr>)"
    by (simp only: run_code.simps) (simp add: arrive_def cmd_simps bind_Done [where s = ?s and
      c = "mem_access M ?abort (Suc (Suc n)) Fetch ?p", OF t(1)] del: mem_access.simps)
  then have "minemu_prefetch_probe M X (Suc (Suc n)) S s = (Done (), t\<lparr>pc := pc s + 4\<rparr>)"
    by (simp add: minemu_prefetch_probe_def bind_gets bind_modify bind_Done [where s = ?s and
      c = "run_code M ?abort (Suc (Suc n)) ?p [?c]"] arrive_def ret_def del: mem_access.simps run_code.simps)
  moreover have "kern E ?g (t\<lparr>pc := pc s + 4\<rparr>)"
    using s t(2,3) by (simp add: kern_def same_context_def)
  ultimately show "\<exists>x t. minemu_prefetch_probe M X (Suc (Suc n)) S s = (Done x, t) \<and> kern E ?g t" by blast
qed

section \<open>The user program\<close>

text \<open>At an address, with a status word, \<^verbatim>\<open>r0\<close>, and the return address in \<^verbatim>\<open>r4\<close>.\<close>

definition code_at :: "'d exc_env \<Rightarrow> exc_facts \<Rightarrow> u32 \<Rightarrow> u32 \<Rightarrow> u32 \<Rightarrow> u32 \<Rightarrow> 'd exc_state \<Rightarrow> bool" where
  "code_at E f a psr r0 r4 s \<longleftrightarrow> exc_core E f s \<and> length (gpr s) = 13 \<and> pc s = a \<and> cpsr s = psr
     \<and> gpr s ! 0 = r0 \<and> gpr s ! 4 = r4"

lemma code_pc: "code_at E f a psr r0 r4 s \<Longrightarrow> pc s = a"
  by (simp add: code_at_def)

lemma code_same: "code_at E f a psr r0 r4 s \<Longrightarrow> exc_core E g t \<Longrightarrow> same_context s t \<Longrightarrow> code_at E g a psr r0 r4 t"
  by (simp add: code_at_def same_context_def)

lemma code_first:
  assumes ok: "env_ok E" and S: "S = ev_symbols E" "M = ev_mmu E"
    and f: "xf_cached f (user_probe S) = None" "xf_user f = w" "xf_abort f = 3"
    and w: "w AND 1 \<noteq> 0" "w AND 8 \<noteq> 0" "w AND 4 = 0" "page_of w = minemu_test_paddr (user_probe S)"
    and X: "X = exc_traps_of P M S junk"
  shows "total (code_at E f (user_probe S) 0x10 r0 r4)
    (mem_access M (take_prefetch X) (Suc (Suc n)) Fetch (user_probe S))
    (\<lambda>r s. r \<noteq> None \<and> code_at E (f\<lparr>xf_user := w OR 4 OR 32, xf_cached := [user_probe S \<mapsto> w OR 4 OR 32],
      xf_abort := 0, xf_status := 0x504\<rparr>) (user_probe S) 0x10 r0 r4 s)"
proof (rule totalI)
  let ?p = "user_probe S"
  let ?g = "f\<lparr>xf_user := w OR 4 OR 32, xf_cached := [?p \<mapsto> w OR 4 OR 32], xf_abort := 0, xf_status := 0x504\<rparr>"
  fix s assume s: "code_at E f ?p 0x10 r0 r4 s"
  have ne: "prefetch_probe S \<noteq> ?p" using ok S by (simp add: env_ok_def exc_linked_def)
  have at: "exc_core E f s" "length (gpr s) = 13" "in_user_mode s"
    using s by (simp_all add: code_at_def in_user_mode_def)
  have "\<exists>v t. mem_access M (take_prefetch X) (Suc (Suc n)) Fetch ?p s = (Done (Some v), t)
    \<and> exc_core E ((set_probe_word S ?p (w OR 4 OR 32) f)\<lparr>xf_cached := [?p \<mapsto> w OR 4 OR 32], xf_abort := 0, xf_status := 0x504\<rparr>) t
    \<and> same_context s t"
    by (rule fetch_repaired [OF ok at(1,2) S f(1) _ w(1,4)]) (use f w at(3) X ne in \<open>auto simp: probe_word_def\<close>)
  then show "\<exists>r t. mem_access M (take_prefetch X) (Suc (Suc n)) Fetch ?p s = (Done r, t)
      \<and> r \<noteq> None \<and> code_at E ?g ?p 0x10 r0 r4 t"
    using code_same [OF s] ne by (auto simp: set_probe_word_def)
qed

lemma code_next:
  assumes ok: "env_ok E" and M: "M = ev_mmu E" and a: "a = user_probe (ev_symbols E) + 4 * i" "i < 1024"
    and kept: "xf_cached f (user_probe (ev_symbols E)) = Some w" "permitted True Fetch w"
      "page_of w = minemu_test_paddr (user_probe (ev_symbols E))"
  shows "total (code_at E f a psr r0 r4) (mem_access M abort (Suc n) Fetch a)
    (\<lambda>r s. r \<noteq> None \<and> code_at E f a psr r0 r4 s)"
proof (rule totalI)
  fix s assume s: "code_at E f a psr r0 r4 s"
  have "exc_core E f s" "permitted (in_user_mode s) Fetch w" using s kept(2) by (simp_all add: code_at_def permitted_def)
  from fetch_kept [OF ok this(1) M _ a(2) kept(1) this(2) kept(3), where abort = abort and n = n]
  show "\<exists>r t. mem_access M abort (Suc n) Fetch a s = (Done r, t) \<and> r \<noteq> None \<and> code_at E f a psr r0 r4 t"
    using code_same [OF s] a(1) by (auto simp del: mem_access.simps)
qed

text \<open>Its instructions.\<close>

lemma code_mov: "total (code_at E f a psr r0 r4) (mov_next 0 v) (\<lambda>_. code_at E f (a + 4) psr v r4)"
  by (simp add: total_def mov_next_def next_pc_def mov_def cmd_simps code_at_def)

lemma code_skips:
  assumes ok: "env_ok E" and S: "S = ev_symbols E" "M = ev_mmu E" and none: "xf_cached f (page_of r0) = None"
    and X: "X = exc_traps_of P M S junk" and s: "code_at E f a 0x10 r0 r4 s"
    and stage: "xf_device f = 1 \<and> kind = Load \<and> r0 = 0x10003000 \<and> status = 0x102 \<and> k = 2
      \<or> xf_device f = 2 \<and> kind = Store v \<and> r0 = 0x1000f000 \<and> status = 0x303 \<and> k = 3"
  shows "\<exists>t. mem_access M (take_data X) (Suc n) kind r0 s = (Done None, t)
    \<and> code_at E (f\<lparr>xf_status := status, xf_device := k\<rparr>) (a + 4) 0x10 r0 r4 t"
proof -
  have at: "exc_core E f s" "length (gpr s) = 13" "in_user_mode s"
    using s by (simp_all add: code_at_def in_user_mode_def)
  have "take_data X = deliver_banked P junk (exc_handlers P M S) Data_abort" by (simp add: X)
  from device_access [OF ok at(1,2) S at(3) none stage this, of n] s show ?thesis
    by (auto simp: code_at_def simp del: mem_access.simps)
qed

lemma code_device:
  assumes ok: "env_ok E" and S: "S = ev_symbols E" "M = ev_mmu E" and none: "xf_cached f (page_of r0) = None"
    and X: "X = exc_traps_of P M S junk"
  shows "xf_device f = 1 \<Longrightarrow> r0 = 0x10003000 \<Longrightarrow> total (code_at E f a 0x10 r0 r4) (ldr_data M (take_data X) (Suc n) 1 0)
      (\<lambda>_. code_at E (f\<lparr>xf_status := 0x102, xf_device := 2\<rparr>) (a + 4) 0x10 r0 r4)"
    and "xf_device f = 2 \<Longrightarrow> r0 = 0x1000f000 \<Longrightarrow> total (code_at E f a 0x10 r0 r4) (str_data M (take_data X) (Suc n) 1 0)
      (\<lambda>_. code_at E (f\<lparr>xf_status := 0x303, xf_device := 3\<rparr>) (a + 4) 0x10 r0 r4)"
proof -
  show "total (code_at E f a 0x10 r0 r4) (ldr_data M (take_data X) (Suc n) 1 0)
      (\<lambda>_. code_at E (f\<lparr>xf_status := 0x102, xf_device := 2\<rparr>) (a + 4) 0x10 r0 r4)" if "xf_device f = 1" "r0 = 0x10003000"
  proof (rule totalI)
    fix s assume s: "code_at E f a 0x10 r0 r4 s"
    from code_skips [OF ok S none X s, where kind = Load and status = "0x102" and k = "2" and n = n] that obtain t where
      t: "mem_access M (take_data X) (Suc n) Load r0 s = (Done None, t)"
        "code_at E (f\<lparr>xf_status := 0x102, xf_device := 2\<rparr>) (a + 4) 0x10 r0 r4 t"
      by (auto simp del: mem_access.simps)
    have "ldr_data M (take_data X) (Suc n) 1 0 s = (Done (), t)"
      using s unfolding ldr_data_def bind_gets
      by (simp add: code_at_def bind_Done [where c = "mem_access M (take_data X) (Suc n) Load r0", OF t(1)] ret_def del: mem_access.simps)
    with t(2) show "\<exists>x t. ldr_data M (take_data X) (Suc n) 1 0 s = (Done x, t)
        \<and> code_at E (f\<lparr>xf_status := 0x102, xf_device := 2\<rparr>) (a + 4) 0x10 r0 r4 t" by blast
  qed
  show "total (code_at E f a 0x10 r0 r4) (str_data M (take_data X) (Suc n) 1 0)
      (\<lambda>_. code_at E (f\<lparr>xf_status := 0x303, xf_device := 3\<rparr>) (a + 4) 0x10 r0 r4)" if "xf_device f = 2" "r0 = 0x1000f000"
  proof (rule totalI)
    fix s assume s: "code_at E f a 0x10 r0 r4 s"
    from code_skips [OF ok S none X s, where kind = "Store (gpr s ! Suc 0)" and v = "gpr s ! Suc 0" and status = "0x303" and k = "3" and n = n] that obtain t where
      t: "mem_access M (take_data X) (Suc n) (Store (gpr s ! Suc 0)) r0 s = (Done None, t)"
        "code_at E (f\<lparr>xf_status := 0x303, xf_device := 3\<rparr>) (a + 4) 0x10 r0 r4 t"
      by (auto simp del: mem_access.simps)
    have "str_data M (take_data X) (Suc n) 1 0 s = (Done (), t)"
      using s unfolding str_data_def bind_gets
      by (simp add: code_at_def bind_Done [where c = "mem_access M (take_data X) (Suc n) (Store (gpr s ! Suc 0)) r0", OF t(1)] ret_def del: mem_access.simps)
    with t(2) show "\<exists>x t. str_data M (take_data X) (Suc n) 1 0 s = (Done x, t)
        \<and> code_at E (f\<lparr>xf_status := 0x303, xf_device := 3\<rparr>) (a + 4) 0x10 r0 r4 t" by blast
  qed
qed

lemma code_mrc:
  assumes ok: "env_ok E" and S: "S = ev_symbols E" and f: "xf_undefined f = 2" and X: "X = exc_traps_of P M S junk"
  shows "total (code_at E f a 0x10 r0 r4) (mrc_dfsr (take_undefined X) n)
    (\<lambda>_. code_at E (f\<lparr>xf_undefined := 0\<rparr>) (a + 4) 0x10 r0 r4)"
proof (rule totalI)
  fix s assume s: "code_at E f a 0x10 r0 r4 s"
  then have "xf_undefined f = 1 \<and> cpsr s AND 0x1f = 0x13 \<or> xf_undefined f = 2 \<and> cpsr s AND 0x1f = 0x10"
    using f by (simp add: code_at_def)
  from undefined_taken [OF ok _ _ this, of P junk M] s S X
  show "\<exists>x t. mrc_dfsr (take_undefined X) n s = (Done x, t) \<and> code_at E (f\<lparr>xf_undefined := 0\<rparr>) (a + 4) 0x10 r0 r4 t"
    by (auto simp: mrc_dfsr_def cmd_simps code_at_def in_user_mode_def)
qed

text \<open>The system call ends user mode.\<close>

lemma code_svc:
  assumes ok: "env_ok E" and S: "S = ev_symbols E" and f: "xf_svc f = 1" "xf_frame f = ev_sp E - 88"
    and X: "X = exc_traps_of P M S junk"
  shows "total (code_at E f a 0x10 r0 r4) (take_svc X) (\<lambda>_. code_at E (f\<lparr>xf_svc := 2\<rparr>) (a + 4) 0x13 r0 r4)"
proof (rule totalI)
  fix s assume s: "code_at E f a 0x10 r0 r4 s"
  then have "xf_svc f = 0 \<and> cpsr s AND 0x1f = 0x13 \<and> 0x13 = cpsr s
      \<or> xf_svc f = 1 \<and> cpsr s AND 0x1f = 0x10 \<and> 0x13 = (cpsr s AND NOT 0x1f) OR 0x13"
    using f by (simp add: code_at_def)
  from svc_taken [OF ok _ _ f(2) this, of P junk M] s S f X
  show "\<exists>x t. take_svc X s = (Done x, t) \<and> code_at E (f\<lparr>xf_svc := 2\<rparr>) (a + 4) 0x13 r0 r4 t"
    by (auto simp: code_at_def)
qed

lemma code_bx: "total (code_at E f a psr r0 r4) (bx 4) (\<lambda>_. code_at E f r4 psr r0 r4)"
  by (simp add: total_def bx_def cmd_simps code_at_def)

text \<open>The program as a whole: fetched after one repair, it comes back in supervisor mode.\<close>

lemma user_program_runs:
  assumes ok: "env_ok E" and S: "S = ev_symbols E" "M = ev_mmu E" and X: "X = exc_traps_of P M S junk"
    and f: "xf_cached f = Map.empty" "xf_user f = w" "xf_abort f = 3" "xf_undefined f = 2" "xf_device f = 1"
      "xf_svc f = 1" "xf_frame f = ev_sp E - 88"
    and w: "w AND 1 \<noteq> 0" "w AND 8 \<noteq> 0" "w AND 4 = 0" "page_of w = minemu_test_paddr (user_probe S)"
  shows "total (code_at E f (user_probe S) 0x10 r0 r4)
    (run_code M (take_prefetch X) (Suc (Suc n)) (user_probe S) (minemu_user_probe M X (Suc (Suc n))))
    (\<lambda>_. code_at E (f\<lparr>xf_user := w OR 4 OR 32, xf_cached := [user_probe S \<mapsto> w OR 4 OR 32], xf_abort := 0,
      xf_status := 0x303, xf_device := 3, xf_undefined := 0, xf_svc := 2\<rparr>) r4 0x13 0x1000f000 r4)"
proof -
  let ?p = "user_probe S" and ?w = "w OR 4 OR 32"
  let ?g = "f\<lparr>xf_user := ?w, xf_cached := [?p \<mapsto> ?w], xf_abort := 0, xf_status := 0x504\<rparr>"
  have kept: "permitted True Fetch ?w" "page_of ?w = minemu_test_paddr (user_probe (ev_symbols E))"
    using w S by (simp_all add: permitted_def bit.conj_disj_distrib2 page_of_or page_of_def [of 36])
  note next' = code_next [OF ok S(2) _ _ _ kept]
  have q: "page_of ?p = ?p" "0xc0000000 \<le> ?p" using linked_probe [OF ok, of ?p] S by simp_all
  have ne: "?p \<noteq> page_of 0x10003000" "?p \<noteq> page_of 0x1000f000" using q by (auto simp: page_of_def word_le_nat_alt)
  have first: "total (code_at E f ?p 0x10 r0 r4) (mem_access M (take_prefetch X) (Suc (Suc n)) Fetch ?p)
      (\<lambda>r s. r \<noteq> None \<and> code_at E ?g ?p 0x10 r0 r4 s)"
    by (rule code_first [OF ok S _ f(2,3) w X]) (simp add: f(1))
  show ?thesis
    unfolding minemu_user_probe_def
    by (rule total_run_code, erule code_pc, rule first, rule code_mov,
       rule total_run_code, erule code_pc, rule next' [where i = 1], simp add: S, simp, simp add: S,
       rule code_device(1) [OF ok S _ X], use ne in \<open>simp add: f\<close>, simp add: f, simp,
       rule total_run_code, erule code_pc, rule next' [where i = 2], simp add: S, simp, simp add: S, rule code_mov,
       rule total_run_code, erule code_pc, rule next' [where i = 3], simp add: S, simp, simp add: S,
       rule code_device(2) [OF ok S _ X], use ne in \<open>simp add: f\<close>, simp, simp,
       rule total_run_code, erule code_pc, rule next' [where i = 4], simp add: S, simp, simp add: S,
       rule code_mrc [OF ok S(1) _ X], simp add: f,
       rule total_run_code, erule code_pc, rule next' [where i = 5], simp add: S, simp, simp add: S,
       rule code_svc [OF ok S(1) _ _ X], simp add: f, simp add: f,
       rule total_run_code, erule code_pc, rule next' [where i = 6], simp add: S, simp, simp add: S, rule code_bx,
       unfold run_code.simps, rule total_ret, simp)
qed

lemma run_user_probe:
  assumes ok: "env_ok E" and S: "S = ev_symbols E" "M = ev_mmu E" and X: "X = exc_traps_of P M S junk"
    and f: "xf_cached f = Map.empty" "xf_user f = w" "xf_abort f = 3" "xf_undefined f = 2" "xf_device f = 1"
      "xf_svc f = 1" "xf_frame f = ev_sp E - 88"
    and w: "w AND 1 \<noteq> 0" "w AND 8 \<noteq> 0" "w AND 4 = 0" "page_of w = minemu_test_paddr (user_probe S)"
  shows "total (kern E f) (minemu_run_user_probe M X (Suc (Suc n)) S)
    (\<lambda>_ s. \<exists>g. exc_core E g s \<and> length (gpr s) = 13 \<and> cpsr s = 0x13 \<and> xf_abort g = 0 \<and> xf_undefined g = 0 \<and> xf_svc g = 2
      \<and> xf_device g = 3 \<and> xf_status g = 0x303 \<and> xf_irq g = xf_irq f)"
proof (rule totalI)
  fix s assume s: "kern E f s"
  let ?p = "user_probe S"
  let ?code = "run_code M (take_prefetch X) (Suc (Suc n)) ?p (minemu_user_probe M X (Suc (Suc n)))"
  let ?g = "f\<lparr>xf_user := w OR 4 OR 32, xf_cached := [?p \<mapsto> w OR 4 OR 32], xf_abort := 0,
      xf_status := 0x303, xf_device := 3, xf_undefined := 0, xf_svc := 2\<rparr>"
  let ?t = "s\<lparr>usr_sp := 0x20001000, gpr := (gpr s)[4 := pc s + 4, 0 := ?p], exc_spsr := 0x10, pc := ?p, cpsr := 0x10\<rparr>"
  have "code_at E f ?p 0x10 ?p (pc s + 4) ?t" using s by (simp add: kern_def code_at_def)
  from totalE [OF user_program_runs [OF ok S X f w, of ?p "pc s + 4" n] this] obtain u where u:
    "?code ?t = (Done (), u)" "code_at E ?g (pc s + 4) 0x13 0x1000f000 (pc s + 4) u" by auto
  have len: "length (gpr s) = 13" using s by (simp add: kern_def)
  have "minemu_run_user_probe M X (Suc (Suc n)) S s = bind ?code (\<lambda>_. bind (arrive (pc s + 4)) (\<lambda>_. ret ())) ?t"
    using len by (simp add: minemu_run_user_probe_def bind_gets mov_def set_mode_def bind_modify)
  also have "\<dots> = (Done (), u)"
    unfolding bind_Done [where c = ?code and s = ?t, OF u(1)]
    using u(2) by (simp add: arrive_def bind_bind bind_gets bind_ret code_at_def) (simp add: ret_def)
  finally have "minemu_run_user_probe M X (Suc (Suc n)) S s = (Done (), u)" .
  moreover have "exc_core E ?g u" "length (gpr u) = 13" "cpsr u = 0x13" using u(2) by (simp_all add: code_at_def)
  ultimately show "\<exists>x t. minemu_run_user_probe M X (Suc (Suc n)) S s = (Done x, t) \<and> (\<exists>g. exc_core E g t \<and> length (gpr t) = 13
      \<and> cpsr t = 0x13 \<and> xf_abort g = 0 \<and> xf_undefined g = 0 \<and> xf_svc g = 2 \<and> xf_device g = 3 \<and> xf_status g = 0x303 \<and> xf_irq g = xf_irq f)"
    by (intro exI [of _ "()"] exI [of _ u] conjI exI [of _ ?g]) simp_all
qed

section \<open>The parts\<close>

lemma total_exists: "(\<And>w. total (A w) c B) \<Longrightarrow> total (\<lambda>s. \<exists>w. A w s) c B"
  unfolding total_def by blast

lemma entry_without:
  "(w :: u32) AND 9 = 9 \<Longrightarrow> (w AND NOT 8) AND 1 \<noteq> 0 \<and> (w AND NOT 8) AND 8 = 0 \<and> page_of (w AND NOT 8) = page_of w"
  "(w :: u32) AND 9 = 9 \<Longrightarrow> (w AND NOT 4) AND 1 \<noteq> 0 \<and> (w AND NOT 4) AND 8 \<noteq> 0 \<and> (w AND NOT 4) AND 4 = 0
     \<and> page_of (w AND NOT 4) = page_of w"
proof -
  assume w: "w AND 9 = 9"
  have b: "w AND 1 = 1" "w AND 8 = 8"
    using arg_cong [OF w, of "\<lambda>x. x AND 1"] arg_cong [OF w, of "\<lambda>x. x AND 8"] by (simp_all add: and.assoc)
  show "(w AND NOT 8) AND 1 \<noteq> 0 \<and> (w AND NOT 8) AND 8 = 0 \<and> page_of (w AND NOT 8) = page_of w"
    "(w AND NOT 4) AND 1 \<noteq> 0 \<and> (w AND NOT 4) AND 8 \<noteq> 0 \<and> (w AND NOT 4) AND 4 = 0 \<and> page_of (w AND NOT 4) = page_of w"
    using b by (simp_all add: page_of_def and.assoc)
qed

lemma exc_kernel_runs:
  assumes ok: "env_ok E" and S: "S = ev_symbols E" "M = ev_mmu E" and X: "X = exc_traps_of P M S junk"
    and f: "xf_cached f DATA_VADDR = None" "xf_table f = 0" "xf_svc f = 0" "xf_device f = 0"
      "xf_prefetch f AND 9 = 9" "page_of (xf_prefetch f) = minemu_test_paddr (prefetch_probe S)"
  shows "total (kern E f) (block (exc_kernel P M X (Suc (Suc n)) old S))
    (\<lambda>_ s. \<exists>g. (xf_svc g = 1 \<and> xf_device g = 0 \<and> xf_user g = xf_user f \<and> xf_irq g = xf_irq f) \<and> kern E g s)"
  unfolding exc_kernel_def X
  by (rule total_block_Cons, rule kern_expects,
     rule total_block_Cons, rule kern_svc [OF ok S(1)], simp add: f, simp,
     rule total_block_Cons, rule kern_requires, simp add: exc_core_def Let_def,
     rule total_block_Cons, rule kern_sets(1),
     rule total_block_Cons, rule kern_undefined [OF ok S(1)], simp,
     rule total_block_Cons, rule kern_requires, simp add: exc_core_def Let_def,
     rule total_block_Cons, rule kern_condition,
     rule total_block_Cons, rule kern_sets(2),
     rule total_block_Cons, rule kern_read [OF ok S], simp add: f, simp add: f, simp, simp add: f,
     rule total_exists,
     rule total_block_Cons, rule kern_requires, simp add: exc_core_def Let_def,
     rule total_block_Cons, rule kern_stores(1) [OF ok S(1)],
     rule total_block_Cons, rule kern_flush [OF ok S(2)],
     rule total_block_Cons, rule kern_sets(2),
     rule total_block_Cons,
     rule kern_prefetch [OF ok S _ refl _ _ _ _ refl], simp, simp,
     use entry_without(1) [OF f(5)] f in simp, use entry_without(1) [OF f(5)] f in simp,
     use entry_without(1) [OF f(5)] f in simp,
     rule total_block_Cons, rule kern_requires, simp add: exc_core_def Let_def,
     rule total_block_Nil, rule exI, erule conjI [rotated], simp add: f)

lemma require_here:
  "(\<And>s. A s \<Longrightarrow> c s) \<Longrightarrow> total A (require_static P c code) (\<lambda>_. A)"
  unfolding require_static_def by (rule total_check [where c = "\<lambda>x. x"]) simp

lemma exc_user_runs:
  assumes ok: "env_ok E" and S: "S = ev_symbols E" "M = ev_mmu E" and X: "X = exc_traps_of P M S junk"
    and f: "xf_svc f = 1" "xf_irq f = 0" "xf_user f AND 9 = 9" "page_of (xf_user f) = minemu_test_paddr (user_probe S)"
  shows "total (kern E f) (block (exc_user P M X (Suc (Suc n)) S))
    (\<lambda>_ s. \<exists>g. exc_core E g s \<and> length (gpr s) = 13 \<and> cpsr s = 0x13 \<and> xf_abort g = 0 \<and> xf_undefined g = 0 \<and> xf_svc g = 2
      \<and> xf_device g = 3 \<and> xf_status g = 0x303 \<and> xf_irq g = 0)"
  unfolding exc_user_def
  by (rule total_block_Cons, rule kern_stores(2) [OF ok S(1)],
     rule total_block_Cons, rule kern_flush [OF ok S(2)],
     rule total_block_Cons, rule kern_sets(2),
     rule total_block_Cons, rule kern_sets(1),
     rule total_block_Cons, rule kern_sets(3),
     rule total_block_Cons, rule kern_expects,
     rule total_block_Cons,
     rule run_user_probe [OF ok S X, where w = "xf_user f AND NOT 4"], simp, simp, simp, simp, simp,
     simp add: f, simp,
     use entry_without(2) [OF f(3)] f in simp, use entry_without(2) [OF f(3)] f in simp,
     use entry_without(2) [OF f(3)] f in simp, use entry_without(2) [OF f(3)] f in simp,
     rule total_block_Cons, rule require_here, use core_statics in fastforce,
     rule total_block_Cons, rule require_here, use core_statics in fastforce,
     rule total_block_Cons, rule require_here, use core_statics in fastforce,
     rule total_block_Cons, rule require_here, use core_statics in fastforce,
     rule total_block_Nil, simp add: f)

end
