(* ===== verification/ExceptionMain.thy ===== *)
theory ExceptionMain
  imports ExceptionParts
begin

text \<open>
  The case of \<open>ExceptionCase\<close> from the state the start-up code leaves to its success value: the set-up, the
  parts of \<open>ExceptionParts\<close>, and the timer interrupt.
\<close>

section \<open>The set-up\<close>

text \<open>
  The start-up code's tables: the directory as it is written, the entries of the tables up to the
  Accessed and Dirty bits, which the MMU sets as the kernel runs.
\<close>

definition booted_tables :: "(u32 \<Rightarrow> u32) \<Rightarrow> (u32 \<Rightarrow> u32) \<Rightarrow> bool" where
  "booted_tables r m \<longleftrightarrow>
     (\<forall>a. 0x40010000 \<le> a \<and> a < 0x40011000 \<longrightarrow> phys r a = minemu_bootstrap_map m a)
     \<and> (\<forall>a. 0x40011000 \<le> a \<and> a < 0x40023000 \<longrightarrow> phys r a AND NOT 0x60 = minemu_bootstrap_map m a AND NOT 0x60)"

definition exc_ready :: "'d exc_env \<Rightarrow> (u32 \<Rightarrow> u32) \<Rightarrow> 'd exc_state \<Rightarrow> bool" where
  "exc_ready E m s \<longleftrightarrow> (let S = ev_symbols E; v = ev_mview E (dev s) in
     length (gpr s) = 13 \<and> cpsr s AND 0x1f = 0x13 \<and> trace_values (io s) = ev_trace E
     \<and> tv_root v = 0x40010000 \<and> tv_cached v DATA_VADDR = None \<and> ev_bview E (dev s) = (ev_timer E, ev_board E)
     \<and> map (banked_sp s) [0x13, 0x12, 0x17, 0x1b] = [ev_sp E, irq_stack_top S, abt_stack_top S, und_stack_top S]
     \<and> booted_tables (ram s) m
     \<and> ram s (data_page S) = 0
     \<and> svc_count s = 0 \<and> irq_count s = 0 \<and> user_device_stage s = 0)"

text \<open>The words of the start-up code's tables that the run meets.\<close>

lemma entry_bits:
  assumes "w AND NOT 0x60 = e AND NOT (0x60 :: u32)"
  shows "w AND 5 = e AND 5" and "w AND 9 = e AND 9" and "page_of w = page_of e"
proof -
  have masks: "x AND 5 = (x AND NOT 0x60) AND 5" "x AND 9 = (x AND NOT 0x60) AND 9"
    "page_of x = (x AND NOT 0x60) AND 0xfffff000" for x :: u32
    by (simp_all add: and.assoc page_of_def)
  show "w AND 5 = e AND 5" "w AND 9 = e AND 9" "page_of w = page_of e"
    unfolding masks [of w] masks [of e] assms by (rule refl)+
qed

lemma booted_words:
  assumes "booted_tables r m"
  shows "r 0xc0010100 = 0x40022001" "r 0xc0010c00 = 0x40012001" "r 0xc002200c AND 5 = 1" "r 0xc002203c AND 5 = 1"
    and "page_of p = p \<Longrightarrow> 0xc0000000 \<le> p \<Longrightarrow> p < 0xc0400000 \<Longrightarrow>
      r (direct_pte p) AND 9 = 9 \<and> page_of (r (direct_pte p)) = minemu_test_paddr p"
proof -
  have dir: "r (a + 0x80000000) = boot_tables m a" if "0x40010000 \<le> a" "a < 0x40011000" for a
    using assms that by (simp add: booted_tables_def phys_def bootstrap_map_result)
  have r: "r (a + 0x80000000) AND NOT 0x60 = boot_tables m a AND NOT 0x60" if "0x40011000 \<le> a" "a < 0x40023000" for a
    using assms that by (simp add: booted_tables_def phys_def bootstrap_map_result)
  show "r 0xc0010100 = 0x40022001" "r 0xc0010c00 = 0x40012001"
  proof -
    have "boot_tables m 0x40010100 = 0x40022001" using directory_entry [of 64 m] by simp
    then show "r 0xc0010100 = 0x40022001" using dir [of "0x40010100"] by simp
    have "boot_tables m 0x40010c00 = 0x40012001" using directory_entry [of 768 m] by simp
    then show "r 0xc0010c00 = 0x40012001" using dir [of "0x40010c00"] by simp
  qed
  show "r 0xc002200c AND 5 = 1" "r 0xc002203c AND 5 = 1"
  proof -
    have "boot_tables m 0x4002200c = 0x10003013" using table_entries(3) [of 3 m] by simp
    then show "r 0xc002200c AND 5 = 1" using entry_bits(1) [OF r [of "0x4002200c"]] by simp
    have "boot_tables m 0x4002203c = 0x1000f013" using table_entries(3) [of 15 m] by simp
    then show "r 0xc002203c AND 5 = 1" using entry_bits(1) [OF r [of "0x4002203c"]] by simp
  qed
  show "r (direct_pte p) AND 9 = 9 \<and> page_of (r (direct_pte p)) = minemu_test_paddr p"
    if p: "page_of p = p" "0xc0000000 \<le> p" "p < 0xc0400000"
  proof -
    define k where "k = unat p div 4096 mod 1024"
    have k: "k < 1024" by (simp add: k_def)
    have "unat p mod 4096 = 0" using page_off_aligned [OF p(1)] unat_page_off [of p] by simp
    then obtain n where n: "unat p = 4096 * n" by (auto elim: dvdE simp: dvd_eq_mod_eq_0 [symmetric])
    then have "786432 \<le> n" "n < 787456" using p(2,3) by (simp_all add: word_le_nat_alt word_less_nat_alt)
    then obtain j where j: "n = 768 * 1024 + j" "j < 1024" by (auto simp: le_iff_add)
    have "(j + 768 * 1024) mod 1024 = j" unfolding mod_mult_self1 using j(2) by simp
    then have u: "unat p = 0xc0000000 + 4096 * k" using n j by (simp add: k_def add.commute)
    let ?a = "of_nat (0x40012000 + 4 * k) :: u32"
    have ua: "unat ?a = 0x40012000 + 4 * k" using k by (intro unat_of_nat_u32) simp
    have "direct_pte p = ?a + 0x80000000"
      by (simp add: direct_pte_def walk_indices(2) k_def)
    moreover have "0x40011000 \<le> ?a" "?a < 0x40023000"
      using k unfolding word_le_nat_alt word_less_nat_alt ua by simp_all
    ultimately have w: "r (direct_pte p) AND NOT 0x60 = boot_tables m ?a AND NOT 0x60"
      using r [of ?a] by simp
    have t: "boot_tables m ?a = of_nat (4096 * (0x40000 + k) + 27)"
      using table_entries(2) [of k m] k by (simp add: algebra_simps)
    have e: "page_of (boot_tables m ?a) = of_nat (4096 * (0x40000 + k))" "page_off (boot_tables m ?a) = of_nat 27"
      unfolding t using k by (intro entry_parts; simp)+
    have "p = of_nat (0xc0000000 + 4096 * k)" using u by (metis of_nat_unat ucast_id)
    then have "minemu_test_paddr p = of_nat (4096 * (0x40000 + k))"
      by (simp add: minemu_test_paddr_def algebra_simps)
    moreover have "boot_tables m ?a AND 9 = page_off (boot_tables m ?a) AND 9" by (simp add: page_off_def and.assoc)
    ultimately show ?thesis using e entry_bits(2,3) [OF w] by simp
  qed
qed

text \<open>What lies outside the words of the run does not matter.\<close>

lemma core_outside:
  assumes "exc_core E f s" and "\<And>a. a \<in> set (data_table (ev_symbols E) # exc_words (ev_symbols E)) \<Longrightarrow> m a = ram s a"
  shows "exc_core E f (s\<lparr>ram := m\<rparr>)"
  using assms by (simp add: exc_core_def Let_def exc_words_def)

definition with_root :: "exc_symbols \<Rightarrow> (u32 \<Rightarrow> u32) \<Rightarrow> (u32 \<Rightarrow> u32)" where
  "with_root S m = m(0xc0010200 := minemu_test_paddr (data_table S) OR 1, data_table S := 0)"

lemma set_up_runs:
  assumes ok: "env_ok E" and S: "S = ev_symbols E" and f: "xf_table f = 0"
  shows "total (\<lambda>s. kern E f (s\<lparr>ram := with_root S (ram s)\<rparr>)) (block (exc_set_up S)) (\<lambda>_. kern E f)"
proof -
  let ?J = "\<lambda>s. kern E f (s\<lparr>ram := with_root S (ram s)\<rparr>)" and ?T = "data_table S"
  have link: "page_of ?T = ?T" "\<And>a. a \<in> set (exc_words S) \<Longrightarrow> page_of a \<noteq> ?T" "?T \<noteq> 0xc0010200"
    using ok S by (auto simp: env_ok_def exc_linked_def list_all_iff exc_words_def)
  have step: "?J (s\<lparr>ram := (ram s)(?T + 4 * k := 0)\<rparr>)" if "?J s" "k < 1024" for s k
  proof -
    have "page_of (?T + 4 * k) = ?T" by (rule word_in_page [OF link(1) that(2)])
    then have other: "a \<noteq> ?T + 4 * k" if "a \<in> set (exc_words S)" for a using link(2) [OF that] by auto
    have "exc_core E f (s\<lparr>ram := with_root S (ram s)\<rparr>\<lparr>ram := with_root S ((ram s)(?T + 4 * k := 0))\<rparr>)"
    proof (rule core_outside)
      show "exc_core E f (s\<lparr>ram := with_root S (ram s)\<rparr>)" using that(1) by (simp add: kern_def)
      fix a assume "a \<in> set (data_table (ev_symbols E) # exc_words (ev_symbols E))"
      then show "with_root S ((ram s)(?T + 4 * k := 0)) a = ram (s\<lparr>ram := with_root S (ram s)\<rparr>) a"
        using other S by (auto simp: with_root_def)
    qed
    with that show ?thesis by (simp add: kern_def)
  qed
  have "total ?J (for_cmd (\<lambda>i. bind (store_field (?T + 4 * i) (\<lambda>s. 0)) (\<lambda>_. ret (None :: unit option))) 0 1024)
      (\<lambda>r t. r = None \<and> ?J t \<and> (0 < (1024 :: u32) \<longrightarrow> ram t ?T = 0))"
  proof (rule total_for [where I = "\<lambda>k s. ?J s \<and> (0 < k \<longrightarrow> ram s ?T = 0)"])
    fix k :: u32 assume "0 \<le> k" "k < 1024"
    then show "total (\<lambda>s. ?J s \<and> (0 < k \<longrightarrow> ram s ?T = 0))
        (bind (store_field (?T + 4 * k) (\<lambda>s. 0)) (\<lambda>_. ret (None :: unit option)))
        (\<lambda>r t. r = None \<and> ?J t \<and> (0 < k + 1 \<longrightarrow> ram t ?T = 0))"
      using step by (auto simp: total_def store_field_def cmd_simps word_gt_0)
  qed simp_all
  then have "total ?J (bind (for_cmd (\<lambda>i. bind (store_field (?T + 4 * i) (\<lambda>s. 0)) (\<lambda>_. ret (None :: unit option))) 0 1024)
      (\<lambda>_. ret ())) (\<lambda>_ t. ?J t \<and> ram t ?T = 0)"
    by (rule total_bind) (simp add: total_def ret_def)
  then show ?thesis
    unfolding exc_set_up_def
  proof (rule total_block_Cons)
    have "kern E f (s\<lparr>ram := (ram s)(0xc0010200 := minemu_test_paddr ?T OR 1)\<rparr>)" if "?J s" "ram s ?T = 0" for s
    proof -
      have "with_root S (ram s) = (ram s)(0xc0010200 := minemu_test_paddr ?T OR 1)"
        using that(2) link(3) by (auto simp: with_root_def fun_eq_iff)
      with that(1) show ?thesis by simp
    qed
    then show "total (\<lambda>t. ?J t \<and> ram t ?T = 0)
        (block [store_field (0xc0010000 + 4 * drop_bit 22 DATA_VADDR) (\<lambda>s. minemu_test_paddr ?T OR 1)]) (\<lambda>_. kern E f)"
      by (simp add: total_def store_field_def cmd_simps)
  qed
qed

section \<open>The interrupt\<close>

definition irq_rest :: "exc_symbols \<Rightarrow> u32 list \<Rightarrow> u32 \<Rightarrow> u32 \<Rightarrow> 'd exc_state \<Rightarrow> bool" where
  "irq_rest S tr status n s \<longleftrightarrow> length (gpr s) = 13 \<and> cpsr s AND 0x80 = 0 \<and> trace_values (io s) = tr
     \<and> banked_sp s 0x12 = irq_stack_top S \<and> fault_status s = status \<and> irq_count s = n"

lemma irq_rest_blind: "device_blind (irq_rest S tr status n)"
  by (simp add: device_blind_def irq_rest_def)

text \<open>The rest of the dispatcher once the frame is checked: status, acknowledge, end of interrupt.\<close>

lemma irq_acknowledged:
  fixes view :: "'d \<Rightarrow> timer \<times> board" and R :: "'d exc_state \<Rightarrow> bool"
  assumes c: "board_contract P elapse line view" and R: "device_blind R"
    and t: "tm_left t = 0" "tm_pending t" and b: "bd_claimed b = Some 0"
  shows "total (on_board view ((=) t) b R)
    (bind (MINEMU_MMIO_READ32 P 0x10001008) (\<lambda>status. bind (MINEMU_REQUIRE P (status AND 1 \<noteq> 0) 33) (\<lambda>_.
     bind (MINEMU_MMIO_WRITE32 P 0x1000100c 1) (\<lambda>_. MINEMU_MMIO_WRITE32 P 0x1000000c 0))))
    (\<lambda>_. on_board view ((=) (t\<lparr>tm_pending := False\<rparr>)) (b\<lparr>bd_claimed := None\<rparr>) R)"
proof -
  have r: "total (on_board view ((=) t) b R) (MINEMU_MMIO_READ32 P 0x10001008) (\<lambda>u s. u = 1 \<and> on_board view ((=) t) b R s)"
    by (rule timer_reads [OF c R]) (use t in \<open>auto simp: timer_tick_def\<close>)
  have a: "total (on_board view ((=) t) b R) (MINEMU_MMIO_WRITE32 P 0x1000100c 1)
      (\<lambda>_. on_board view ((=) (t\<lparr>tm_pending := False\<rparr>)) b R)"
    by (rule timer_writes [OF c R]) (use t in \<open>simp_all add: timer_write_def timer_tick_def\<close>)
  have e: "total (on_board view ((=) (t\<lparr>tm_pending := False\<rparr>)) b R) (MINEMU_MMIO_WRITE32 P 0x1000000c 0)
      (\<lambda>_. on_board view ((=) (t\<lparr>tm_pending := False\<rparr>)) (b\<lparr>bd_claimed := None\<rparr>) R)"
    by (rule board_writes [OF c R steady_stopped]) (use t b in \<open>simp_all add: board_write_def\<close>)
  show ?thesis
    by (rule total_bind_value [OF r], rule total_bind, rule total_require, simp, assumption,
        rule total_bind [OF a], rule e)
qed

text \<open>The timer interrupt as a whole, and the state of the main program after it.\<close>

lemma timer_irq_taken:
  fixes view :: "'d \<Rightarrow> timer \<times> board"
  assumes c: "board_contract P elapse line view" and top: "(irq_stack_top S - 88) AND 7 = 0"
    and t: "tm_left t = 0" "tm_pending t" "tm_control t = 5" and b: "bd_enable b = 1" "bd_claimed b = None"
  shows "total (on_board view ((=) t) b (irq_rest S tr status n)) (deliver_banked P junk (exc_handlers P M S) Irq)
    (\<lambda>_. on_board view ((=) (t\<lparr>tm_pending := False\<rparr>)) b (irq_rest S tr status (n + 1)))"
proof (rule totalI)
  fix s :: "'d exc_state" assume s: "on_board view ((=) t) b (irq_rest S tr status n) s"
  let ?s = "s\<lparr>exc_sp := irq_stack_top S\<rparr>" and ?p = "irq_stack_top S - 88" and ?claimed = "b\<lparr>bd_claimed := Some 0\<rparr>"
  let ?c = "called P Irq ?s"
  have len: "length (gpr ?s) = 13" using s by (simp add: on_board_def irq_rest_def)
  have up: "timer_raised t" using t by (simp add: timer_raised_def)
  have "board_read (timer_raised (fst (view (dev s)))) 0x10000008 (snd (view (dev s))) = Some (\<lambda>v. v = 0, ?claimed)"
    using s b up by (simp add: on_board_def board_read_def served_def requests_def Let_def)
  then have "fst (reg_read P 0x10000008 (dev s)) = 0"
    "\<exists>k. view (snd (reg_read P 0x10000008 (dev s))) = (timer_pass k (fst (view (dev s))), ?claimed)"
    using c unfolding board_contract_def by blast+
  then have claim: "claimed_of P ?s = 0" and at: "view (dev ?c) = (t, ?claimed)"
    using s t(1) by (auto simp: claimed_of_def called_def Let_def on_board_def pass_stopped)
  have frame: "trap_frame_at (ram ?c) ?p = trap_frame_of Irq 0 ?s"
    using trap_frame_called [OF len, of P Irq] claim by simp
  let ?R = "\<lambda>x :: 'd exc_state. ram x = ram ?c \<and> length (gpr x) = 13 \<and> trace_values (io x) = tr
      \<and> banked_sp x 0x12 = irq_stack_top S \<and> fault_status x = status \<and> irq_count x = n"
  have R: "device_blind ?R" by (simp add: device_blind_def)
  have "on_board view ((=) t) ?claimed ?R ?c"
    using at s by (simp add: on_board_def irq_rest_def called_def Let_def take_exception_def)
  from totalE [OF irq_acknowledged [OF c R t(1,2), of ?claimed] this] obtain x where x:
    "bind (MINEMU_MMIO_READ32 P 0x10001008) (\<lambda>status. bind (MINEMU_REQUIRE P (status AND 1 \<noteq> 0) 33) (\<lambda>_.
     bind (MINEMU_MMIO_WRITE32 P 0x1000100c 1) (\<lambda>_. MINEMU_MMIO_WRITE32 P 0x1000000c 0))) ?c = (Done (), x)"
    "on_board view ((=) (t\<lparr>tm_pending := False\<rparr>)) (?claimed\<lparr>bd_claimed := None\<rparr>) ?R x"
    by auto
  let ?x = "x\<lparr>irq_count := n + 1\<rparr>" and ?u = "resume 4 ?p (x\<lparr>irq_count := n + 1\<rparr>)"
  have psr: "cpsr ?c AND 0x80 \<noteq> 0" by (simp add: called_def take_exception_def Let_def bit.conj_disj_distrib2)
  have tail: "bind (MINEMU_MMIO_READ32 P 0x10001008) (\<lambda>status. bind (MINEMU_REQUIRE P (status AND 1 \<noteq> 0) 33) (\<lambda>_.
     bind (MINEMU_MMIO_WRITE32 P 0x1000100c 1) (\<lambda>_. bind (MINEMU_MMIO_WRITE32 P 0x1000000c 0) f))) ?c = f () x" for f :: "unit \<Rightarrow> ('d exc_state, u32) cmd"
    using bind_Done [where c = "bind (MINEMU_MMIO_READ32 P 0x10001008) (\<lambda>status. bind (MINEMU_REQUIRE P (status AND 1 \<noteq> 0) 33) (\<lambda>_.
      bind (MINEMU_MMIO_WRITE32 P 0x1000100c 1) (\<lambda>_. MINEMU_MMIO_WRITE32 P 0x1000000c 0)))" and s = ?c and f = f, OF x(1)]
    by (simp only: bind_bind)
  have "dispatched junk (exc_handlers P M S) Irq ?p ?c = (Done ?p, ?x)"
    using psr frame top x(2)
    by (simp add: dispatched_def exc_handlers_def exc_irq_dispatch_def require_exact_stack_def bind_gets bind_require
        register_addresses trap_frame_of_def tail on_board_def bind_modify) (simp add: ret_def)
  then have "deliver P junk (exc_handlers P M S) Irq ?s = (Done (), ?u)"
    using deliver_result [OF len, of junk "exc_handlers P M S" Irq P ?p ?x] x(2) by (simp add: on_board_def)
  moreover have "?u\<lparr>banked_sp := (banked_sp ?u)(0x12 := exc_sp ?u)\<rparr> = ?u"
    using x(2) by (simp add: fun_upd_idem on_board_def resume_def Let_def)
  ultimately have "deliver_banked P junk (exc_handlers P M S) Irq s = (Done (), ?u)"
    using s by (simp add: deliver_banked_def cmd_simps bind_Done on_board_def irq_rest_def)
  moreover have "on_board view ((=) (t\<lparr>tm_pending := False\<rparr>)) b (irq_rest S tr status (n + 1)) ?u"
  proof -
    have "b\<lparr>bd_claimed := None\<rparr> = b" using b(2) by simp
    moreover have "cpsr ?u = cpsr s" using x(2) frame by (simp add: resume_def Let_def on_board_def trap_frame_of_def)
    moreover have "banked_sp ?u = banked_sp x" "fault_status ?u = fault_status x" "irq_count ?u = n + 1"
      by (simp_all add: resume_def Let_def)
    ultimately show ?thesis using x(2) s by (simp add: on_board_def irq_rest_def)
  qed
  ultimately show "\<exists>y u. deliver_banked P junk (exc_handlers P M S) Irq s = (Done y, u)
      \<and> on_board view ((=) (t\<lparr>tm_pending := False\<rparr>)) b (irq_rest S tr status (n + 1)) u" by blast
qed

text \<open>Between two instructions, with only the timer enabled.\<close>

lemma tick_passes:
  fixes view :: "'d \<Rightarrow> timer \<times> board"
  assumes "board_contract P elapse line view" and "device_blind R"
  shows "total (on_board view ((=) t) b R) (modify (\<lambda>s. s\<lparr>dev := elapse 1 (dev s)\<rparr>))
    (\<lambda>_. on_board view ((=) (timer_tick t)) b R)"
  by (rule time_passes [OF assms]) simp

lemma boundary_quiet:
  fixes view :: "'d \<Rightarrow> timer \<times> board"
  assumes c: "board_contract P elapse line view" and R: "device_blind R" and b: "bd_enable b = 1" "bd_claimed b = None"
    and t: "\<not> timer_raised (timer_tick t)" and fuel: "0 < fuel"
  shows "total (on_board view ((=) t) b R) (boundary line elapse irq fuel) (\<lambda>_. on_board view ((=) (timer_tick t)) b R)"
  unfolding boundary_def
proof (rule total_bind [OF tick_passes [OF c R]], rule takes_none [OF _ fuel])
  fix s assume "on_board view ((=) (timer_tick t)) b R s"
  then show "\<not> line (dev s) \<or> cpsr s AND 0x80 \<noteq> 0"
    using line_up [OF c, of "dev s"] b t by (simp add: on_board_def requests_def)
qed

lemma boundary_served:
  fixes view :: "'d \<Rightarrow> timer \<times> board"
  assumes c: "board_contract P elapse line view" and top: "(irq_stack_top S - 88) AND 7 = 0"
    and b: "bd_enable b = 1" "bd_claimed b = None" and t: "timer_tick t = u" "tm_left u = 0" "tm_pending u" "tm_control u = 5"
    and irq: "irq = deliver_banked P junk (exc_handlers P M S) Irq"
  shows "total (on_board view ((=) t) b (irq_rest S tr status n)) (boundary line elapse irq (Suc (Suc fuel)))
    (\<lambda>_. on_board view ((=) (u\<lparr>tm_pending := False\<rparr>)) b (irq_rest S tr status (n + 1)))"
  unfolding boundary_def
proof (rule total_bind [OF tick_passes [OF c irq_rest_blind]], rule takes_one)
  fix s :: "'d exc_state" assume "on_board view ((=) (timer_tick t)) b (irq_rest S tr status n) s"
  then show "line (dev s) \<and> cpsr s AND 0x80 = 0"
    using line_up [OF c, of "dev s"] b t by (auto simp: on_board_def requests_def irq_rest_def timer_raised_def)
next
  show "total (on_board view ((=) (timer_tick t)) b (irq_rest S tr status n)) irq
      (\<lambda>_. on_board view ((=) (u\<lparr>tm_pending := False\<rparr>)) b (irq_rest S tr status (n + 1)))"
    unfolding t(1) irq by (rule timer_irq_taken [OF c top t(2-4) b])
  show "total (on_board view ((=) (u\<lparr>tm_pending := False\<rparr>)) b (irq_rest S tr status (n + 1))) (take_irqs line irq (Suc fuel))
      (\<lambda>_. on_board view ((=) (u\<lparr>tm_pending := False\<rparr>)) b (irq_rest S tr status (n + 1)))"
  proof (rule takes_none)
    fix s :: "'d exc_state" assume "on_board view ((=) (u\<lparr>tm_pending := False\<rparr>)) b (irq_rest S tr status (n + 1)) s"
    then have "fst (view (dev s)) = u\<lparr>tm_pending := False\<rparr>" "snd (view (dev s)) = b" by (simp_all add: on_board_def)
    then show "\<not> line (dev s) \<or> cpsr s AND 0x80 \<noteq> 0"
      using line_up [OF c, of "dev s"] b by (simp add: requests_def timer_raised_def)
  qed simp
qed

text \<open>The wait: two instructions per round, until the deadline; then the counter ends it.\<close>

lemma wait_ends:
  fixes view :: "'d \<Rightarrow> timer \<times> board"
  assumes c: "board_contract P elapse line view" and top: "(irq_stack_top S - 88) AND 7 = 0"
    and b: "bd_enable b = 1" "bd_claimed b = None" and t: "\<not> tm_pending t" "tm_control t = 5"
    and irq: "irq = deliver_banked P junk (exc_handlers P M S) Irq" and m: "0 < m" "m \<le> fuel" "2 \<le> fuel"
  shows "total (on_board view ((=) (t\<lparr>tm_left := m\<rparr>)) b (irq_rest S tr status 0))
    (irq_wait line elapse irq fuel (\<lambda>s. irq_count s = 0))
    (\<lambda>_. on_board view ((=) (t\<lparr>tm_left := 0\<rparr>)) b (irq_rest S tr status 1))"
proof -
  let ?A = "\<lambda>m. on_board view ((=) (t\<lparr>tm_left := m\<rparr>)) b (irq_rest S tr status 0)"
    and ?D = "on_board view ((=) (t\<lparr>tm_left := 0\<rparr>)) b (irq_rest S tr status 1)"
    and ?step = "boundary line elapse irq fuel"
  from m(3) obtain f where fuel: "fuel = Suc (Suc f)" by (auto simp: le_iff_add numeral_2_eq_2)
  have ticks: "timer_tick (t\<lparr>tm_left := Suc (Suc k)\<rparr>) = t\<lparr>tm_left := Suc k\<rparr>"
    "timer_tick (t\<lparr>tm_left := 1\<rparr>) = t\<lparr>tm_left := 0, tm_pending := True\<rparr>" "timer_tick (t\<lparr>tm_left := 0\<rparr>) = t\<lparr>tm_left := 0\<rparr>" for k
    using t by (simp_all add: timer_tick_def)
  have down: "\<not> timer_raised (t\<lparr>tm_left := k\<rparr>)" for k using t by (simp add: timer_raised_def)
  have run: "total (?A (Suc (Suc k))) ?step (\<lambda>_. ?A (Suc k))" for k
    using boundary_quiet [OF c irq_rest_blind b, of "t\<lparr>tm_left := Suc (Suc k)\<rparr>" fuel S tr status 0 irq] down fuel
    by (simp add: ticks)
  have stopped: "total ?D ?step (\<lambda>_. ?D)"
    using boundary_quiet [OF c irq_rest_blind b, of "t\<lparr>tm_left := 0\<rparr>" fuel S tr status 1 irq] down fuel
    by (simp add: ticks)
  have off: "t\<lparr>tm_left := 0, tm_pending := False\<rparr> = t\<lparr>tm_left := 0\<rparr>" using t by (cases t) simp
  have "total (?A 1) ?step (\<lambda>_. on_board view ((=) (t\<lparr>tm_left := 0, tm_pending := False\<rparr>)) b (irq_rest S tr status 1))"
    using boundary_served [OF c top b ticks(2) _ _ _ irq, of tr status 0 f] t by (simp add: fuel)
  then have served: "total (?A 1) ?step (\<lambda>_. ?D)" by (simp only: off)
  have look: "total (?A k) (gets (\<lambda>s. irq_count s = 0)) (\<lambda>x s. x = True \<and> ?A k s)"
    "total ?D (gets (\<lambda>s. irq_count s = 0)) (\<lambda>x s. x = False \<and> ?D s)" for k
    by (rule total_gets; simp add: on_board_def irq_rest_def)+
  let ?round = "bind ?step (\<lambda>_. bind (gets (\<lambda>s. irq_count s = 0)) (\<lambda>x. bind ?step (\<lambda>_. ret x)))"
  have last: "total ?D (poll_while (Suc n) ?round) (\<lambda>_. ?D)" for n
    by (rule total_poll_done, rule total_bind [OF stopped], rule total_bind_value [OF look(2)],
        rule total_bind [OF stopped], rule total_ret) simp
  have "total (?A m) (poll_while n ?round) (\<lambda>_. ?D)" if "0 < m" "m \<le> n" for m n
    using that
  proof (induction m arbitrary: n rule: less_induct)
    case (less m)
    then obtain n' where n: "n = Suc n'" by (cases n) auto
    consider "m = 1" | "m = 2" | k where "m = Suc (Suc (Suc k))"
      using less.prems(1) by (metis One_nat_def Suc_1 gr0_conv_Suc not0_implies_Suc)
    then show ?case
    proof cases
      case 1
      then show ?thesis
        unfolding n
        by (simp only:) (rule total_poll_done, rule total_bind [OF served], rule total_bind_value [OF look(2)],
          rule total_bind [OF stopped], rule total_ret, simp)
    next
      case 2
      then obtain n'' where n': "n' = Suc n''" using less.prems(2) n by (cases n') auto
      have "total (?A 2) ?round (\<lambda>x s. x \<and> ?D s)"
        using run [of 0] by (intro total_bind [OF _ total_bind_value [OF look(1) total_bind [OF served total_ret]]])
          (simp_all add: numeral_2_eq_2)
      then show ?thesis unfolding n n' 2 by (rule total_poll_step [OF _ last])
    next
      case 3
      have "total (?A m) ?round (\<lambda>x s. x \<and> ?A (Suc k) s)"
        unfolding 3 by (rule total_bind [OF run], rule total_bind_value [OF look(1)], rule total_bind [OF run],
            rule total_ret) simp
      moreover have "total (?A (Suc k)) (poll_while n' ?round) (\<lambda>_. ?D)"
        using 3 n less.prems by (intro less.IH) simp_all
      ultimately show ?thesis unfolding n by (rule total_poll_step)
    qed
  qed
  then show ?thesis unfolding irq_wait_def using m by blast
qed

lemma exc_irq_runs:
  fixes view :: "'d \<Rightarrow> timer \<times> board"
  assumes c: "board_contract P elapse line view" and top: "(irq_stack_top S - 88) AND 7 = 0"
    and X: "X = exc_traps_of P M S junk" and t: "tm_left t = 0" "\<not> tm_pending t" and b: "bd_claimed b = None"
    and fuel: "64 \<le> fuel"
  shows "total (on_board view ((=) t) b (irq_rest S tr status 0)) (block (exc_irq P line elapse X fuel))
    (\<lambda>_ s. trace_values (io s) = tr \<and> fault_status s = status)"
proof -
  let ?b = "b\<lparr>bd_enable := 1\<rparr>" and ?p = "t\<lparr>tm_period := 64\<rparr>" and ?c = "t\<lparr>tm_period := 64, tm_control := 5\<rparr>"
  let ?R = "irq_rest S tr status 0"
  have tick: "timer_tick t = t" "timer_tick ?p = ?p" "timer_tick (?c\<lparr>tm_left := 64\<rparr>) = ?c\<lparr>tm_left := 63\<rparr>"
    using t by (simp_all add: timer_tick_def)
  have quiet: "total (on_board view ((=) v) ?b ?R) (boundary line elapse (take_irq X) fuel) (\<lambda>_. on_board view ((=) w) ?b ?R)"
    if "timer_tick v = w" "\<not> tm_pending w" for v w
    unfolding that(1) [symmetric]
    by (rule boundary_quiet [OF c irq_rest_blind]) (use that b fuel in \<open>simp_all add: timer_raised_def\<close>)
  have enable: "total (on_board view ((=) t) b ?R) (MINEMU_MMIO_WRITE32 P 0x10000004 1) (\<lambda>_. on_board view ((=) t) ?b ?R)"
    by (rule board_writes [OF c irq_rest_blind steady_stopped [OF t(1)]]) (simp_all add: board_write_def)
  have period: "total (on_board view ((=) t) ?b ?R) (MINEMU_MMIO_WRITE32 P 0x10001000 64) (\<lambda>_. on_board view ((=) ?p) ?b ?R)"
    by (rule timer_writes [OF c irq_rest_blind]) (use t in \<open>simp_all add: timer_write_def timer_tick_def\<close>)
  have control: "total (on_board view ((=) ?p) ?b ?R) (MINEMU_MMIO_WRITE32 P 0x10001004 5)
      (\<lambda>_. on_board view ((=) (?c\<lparr>tm_left := 64\<rparr>)) ?b ?R)"
    by (rule timer_writes [OF c irq_rest_blind]) (use t in \<open>simp_all add: timer_write_def timer_tick_def\<close>)
  have cpsie: "total (on_board view ((=) (?c\<lparr>tm_left := 63\<rparr>)) ?b ?R) minemu_irq_enable
      (\<lambda>_. on_board view ((=) (?c\<lparr>tm_left := 63\<rparr>)) ?b ?R)"
    by (simp add: minemu_irq_enable_def total_def cmd_simps on_board_def irq_rest_def and.assoc)
  have wait: "total (on_board view ((=) (?c\<lparr>tm_left := 63\<rparr>)) ?b ?R)
      (irq_wait line elapse (take_irq X) fuel (\<lambda>s. irq_count s = 0))
      (\<lambda>_. on_board view ((=) (?c\<lparr>tm_left := 0\<rparr>)) ?b (irq_rest S tr status 1))"
    by (rule wait_ends [OF c top]) (use b t fuel X in simp_all)
  have tail: "total (on_board view ((=) (?c\<lparr>tm_left := 0\<rparr>)) ?b (irq_rest S tr status 1))
      (block [minemu_irq_disable, require_static P (\<lambda>s. irq_count s = 1) 9])
      (\<lambda>_ s. trace_values (io s) = tr \<and> fault_status s = status)"
    by (simp add: total_def minemu_irq_disable_def require_static_def cmd_simps on_board_def irq_rest_def)
  show ?thesis
    unfolding exc_irq_def register_addresses
    by (rule total_block_Cons [OF enable], rule total_block_Cons [OF quiet [OF tick(1) t(2)]], rule total_block_Cons [OF period],
        rule total_block_Cons [OF quiet [OF tick(2)]], simp add: t, rule total_block_Cons, simp, rule control,
        rule total_block_Cons [OF quiet [OF tick(3)]], simp add: t, rule total_block_Cons [OF cpsie], rule total_block_Cons [OF wait], rule tail)
qed

section \<open>The run of the case\<close>

definition first_facts :: "'d exc_env \<Rightarrow> 'd exc_state \<Rightarrow> exc_facts" where
  "first_facts E s = \<lparr> xf_cached = tv_cached (ev_mview E (dev s)), xf_table = 0,
     xf_prefetch = ram s (direct_pte (prefetch_probe (ev_symbols E))), xf_user = ram s (direct_pte (user_probe (ev_symbols E))),
     xf_undefined = undefined_stage s, xf_abort = abort_stage s, xf_svc = 0, xf_irq = 0, xf_device = 0,
     xf_frame = expected_svc_frame s, xf_status = fault_status s \<rparr>"

lemma ready_kern:
  assumes ok: "env_ok E" and ready: "exc_ready E m s" and S: "S = ev_symbols E"
  shows "kern E (first_facts E s) (s\<lparr>ram := with_root S (ram s)\<rparr>)"
proof -
  have d: "distinct (data_table S # exc_words S)" using core_words(1) [OF ok] S by simp
  have tables: "booted_tables (ram s) m"
    using ready by (simp add: exc_ready_def Let_def)
  note w = booted_words(1-4) [OF tables]
  show ?thesis
    using d w ready S unfolding exc_words_def
    by (auto simp: kern_def exc_core_def exc_ready_def Let_def with_root_def first_facts_def)
qed

lemma exc_body_runs:
  assumes ok: "env_ok E" and ready: "exc_ready E m s" and c: "board_contract (ev_platform E) elapse line (ev_bview E)"
    and quiet: "\<not> tm_pending (ev_timer E)" "bd_claimed (ev_board E) = None" and fuel: "64 \<le> fuel"
    and S: "S = ev_symbols E" "M = ev_mmu E" "P = ev_platform E" and X: "X = exc_traps_of P M S junk"
  shows "\<exists>t. block (exc_set_up S @ exc_kernel P M X fuel old S @ exc_user P M X fuel S @ exc_irq P line elapse X fuel) s
      = (Done (), t) \<and> trace_values (io t) = ev_trace E \<and> fault_status t = 0x303"
proof -
  let ?f = "first_facts E s"
  have "2 \<le> fuel" using fuel by simp
  then obtain n where n: "fuel = Suc (Suc n)" by (auto simp: le_iff_add numeral_2_eq_2)
  have tables: "booted_tables (ram s) m"
    using ready by (simp add: exc_ready_def Let_def)
  have probe: "ram s (direct_pte p) AND 9 = 9" "page_of (ram s (direct_pte p)) = minemu_test_paddr p"
    if "p \<in> {prefetch_probe S, user_probe S}" for p
    using booted_words(5) [OF tables, of p] linked_probe [OF ok, of p] that S by auto
  have "total (kern E ?f) (block (exc_kernel P M X fuel old S))
    (\<lambda>_ s. \<exists>g. (xf_svc g = 1 \<and> xf_device g = 0 \<and> xf_user g = xf_user ?f \<and> xf_irq g = xf_irq ?f) \<and> kern E g s)"
    unfolding n
    by (rule exc_kernel_runs [OF ok S(1,2) X])
      (use probe [of "prefetch_probe S"] ready S in \<open>simp_all add: first_facts_def exc_ready_def Let_def\<close>)
  note kernel = this
  let ?irq = "on_board (ev_bview E) ((=) (ev_timer E)) (ev_board E) (irq_rest S (ev_trace E) 0x303 0)"
  have user: "total (\<lambda>s. \<exists>g. (xf_svc g = 1 \<and> xf_device g = 0 \<and> xf_user g = xf_user ?f \<and> xf_irq g = xf_irq ?f) \<and> kern E g s)
      (block (exc_user P M X fuel S)) (\<lambda>_. ?irq)"
  proof (rule total_exists, rule totalI, elim conjE)
    fix g t assume g: "xf_svc g = 1" "xf_device g = 0" "xf_user g = xf_user ?f" "xf_irq g = xf_irq ?f" and t: "kern E g t"
    have "total (kern E g) (block (exc_user P M X fuel S)) (\<lambda>_ s. \<exists>g. exc_core E g s \<and> length (gpr s) = 13 \<and> cpsr s = 0x13
        \<and> xf_abort g = 0 \<and> xf_undefined g = 0 \<and> xf_svc g = 2 \<and> xf_device g = 3 \<and> xf_status g = 0x303 \<and> xf_irq g = 0)"
      unfolding n by (rule exc_user_runs [OF ok S(1,2) X])
        (use g probe [of "user_probe S"] S in \<open>simp_all add: first_facts_def\<close>)
    from totalE [OF this t] show "\<exists>x u. block (exc_user P M X fuel S) t = (Done x, u) \<and> ?irq u"
      using S by (fastforce simp: on_board_def irq_rest_def exc_core_def Let_def)
  qed
  have top: "(irq_stack_top S - 88) AND 7 = 0" using core_words(2) [OF ok] S by simp
  have irq: "total ?irq (block (exc_irq P line elapse X fuel)) (\<lambda>_ s. trace_values (io s) = ev_trace E \<and> fault_status s = 0x303)"
    by (rule exc_irq_runs [OF _ top X]) (use c ok quiet fuel S in \<open>simp_all add: env_ok_def\<close>)
  have "total (\<lambda>s. kern E ?f (s\<lparr>ram := with_root S (ram s)\<rparr>))
      (block (exc_set_up S @ exc_kernel P M X fuel old S @ exc_user P M X fuel S @ exc_irq P line elapse X fuel))
      (\<lambda>_ s. trace_values (io s) = ev_trace E \<and> fault_status s = 0x303)"
    by (rule total_append [OF set_up_runs [OF ok S(1)]], simp add: first_facts_def,
        rule total_append [OF kernel], rule total_append [OF user irq])
  from totalE [OF this ready_kern [OF ok ready S(1)]] show ?thesis by auto
qed

lemma concludes_with:
  assumes "\<exists>t. c s = (Done (), t) \<and> trace_values (io t) = tr \<and> fault_status t = w"
  shows "\<exists>t. bind c (\<lambda>_. bind (minemu_trace_event P v) (\<lambda>_. minemu_fail_stop)) s = (FailStop, t)
    \<and> trace_values (io t) = tr @ [v] \<and> fault_status t = w"
  using assms by (auto simp: bind_Done bind_trace minemu_fail_stop_def)

text \<open>
  C25: on an MMU and devices that keep their contracts, from the tables of the start-up code, the case
  ends with its success value, and with the status of the user program's store to the trace port
  still in the fault register: every exception of the kernel and of the user program goes through
  its vector to the dispatcher on the stack of its mode, is repaired, stepped over or answered as
  the stage asks, and the timer interrupt ends the wait.
\<close>

theorem exceptions_case_passes:
  assumes "env_ok E" and "exc_ready E m s" and "board_contract (ev_platform E) elapse line (ev_bview E)"
    and "\<not> tm_pending (ev_timer E)" "bd_claimed (ev_board E) = None" and "64 \<le> fuel"
  shows "\<exists>t. exc_kernel_main (ev_platform E) (ev_mmu E) line elapse junk fuel old (ev_symbols E) s = (FailStop, t)
    \<and> trace_values (io t) = trace_values (io s) @ [0x20070001] \<and> fault_status t = 0x303"
proof -
  have tr: "trace_values (io s) = ev_trace E" using assms(2) by (simp add: exc_ready_def Let_def)
  show ?thesis
    unfolding exc_kernel_main_def Let_def tr
    by (rule concludes_with, rule exc_body_runs [OF assms refl refl refl refl])
qed

text \<open>An MMU and the devices side by side keep both contracts.\<close>

definition beside_mmu :: "'v mmu \<Rightarrow> ('v \<times> 'b) mmu" where
  "beside_mmu M = \<lparr> mmu_access = (\<lambda>user kind a m d. case mmu_access M user kind a m (fst d) of (r, m', v) \<Rightarrow> (r, m', v, snd d)),
     mmu_flush = (\<lambda>d. (mmu_flush M (fst d), snd d)), mmu_root = (\<lambda>r d. (mmu_root M r (fst d), snd d)) \<rparr>"

definition beside_platform :: "'b platform \<Rightarrow> ('v \<times> 'b) platform" where
  "beside_platform P = \<lparr> reg_read = (\<lambda>a d. case reg_read P a (snd d) of (x, b) \<Rightarrow> (x, fst d, b)),
     reg_write = (\<lambda>a x d. (fst d, reg_write P a x (snd d))) \<rparr>"

lemma beside_mmu_contract: "mmu_contract M view \<Longrightarrow> mmu_contract (beside_mmu M) (\<lambda>d. view (fst d))"
  unfolding mmu_contract_def mmu_behaves_def beside_mmu_def
  by (auto simp: split_def split: option.splits)

lemma beside_board_contract:
  "board_contract P elapse line view \<Longrightarrow>
   board_contract (beside_platform P) (\<lambda>n d. (fst d, elapse n (snd d))) (\<lambda>d. line (snd d)) (\<lambda>d. view (snd d))"
  unfolding board_contract_def beside_platform_def by (simp add: split_def) blast

lemma beside_apart: "apart (beside_mmu M) snd"
  by (auto simp: apart_def beside_mmu_def split_def intro!: exI [of _ 0])

definition exc_test_env :: "(tlb_view \<times> timer \<times> board) exc_env" where
  "exc_test_env = \<lparr> ev_platform = beside_platform sample_board, ev_mmu = beside_mmu sample_mmu, ev_mview = fst, ev_bview = snd,
     ev_symbols = \<lparr> data_table = 0xc0102000, data_page = 0xc0103000, svc_stack_top = 0xc0200000, irq_stack_top = 0xc0201000,
       abt_stack_top = 0xc0202000, und_stack_top = 0xc0203000, prefetch_probe = 0xc0004000, user_probe = 0xc0005000 \<rparr>,
     ev_sp = 0xc01fff00, ev_timer = \<lparr> tm_period = 0, tm_control = 0, tm_left = 0, tm_pending = False \<rparr>,
     ev_board = \<lparr> bd_full0 = False, bd_full1 = False, bd_inputs = [], bd_irq0 = False, bd_irq1 = False,
       bd_enable = 0, bd_prio0 = 64, bd_prio1 = 64, bd_claimed = None \<rparr>, ev_trace = [] \<rparr>"

definition exc_test_state :: "(tlb_view \<times> timer \<times> board) exc_state" where
  "exc_test_state = \<lparr> dev = (\<lparr> tv_root = 0x40010000, tv_cached = Map.empty \<rparr>, ev_timer exc_test_env, ev_board exc_test_env),
     cpsr = 0xd3, io = [], ram = (\<lambda>a. minemu_bootstrap_map (\<lambda>_. 0) (a - 0x80000000)), gpr = replicate 13 0, pc = 0xc0001000,
     exc_sp = 0, exc_lr = 0, exc_spsr = 0, usr_sp = 0, usr_lr = 0, fault_status = 0, fault_address = 0,
     banked_sp = (\<lambda>_. 0)(0x13 := 0xc01fff00, 0x12 := 0xc0201000, 0x17 := 0xc0202000, 0x1b := 0xc0203000),
     undefined_stage = 0, abort_stage = 0, svc_count = 0, irq_count = 0, user_device_stage = 0, expected_svc_frame = 0 \<rparr>"

lemma exc_test_ok: "env_ok exc_test_env"
proof -
  have "exc_linked (ev_symbols exc_test_env) (ev_sp exc_test_env)" by code_simp
  then show ?thesis
    using beside_mmu_contract [OF sample_mmu_contract] beside_apart [of sample_mmu]
    by (simp add: env_ok_def exc_test_env_def)
qed

lemma exc_test_ready: "exc_ready exc_test_env (\<lambda>_. 0) exc_test_state"
proof -
  have "minemu_bootstrap_map (\<lambda>_. 0) 0x40103000 = 0"
    unfolding bootstrap_map_result by (subst tables_outside) simp_all
  then show ?thesis
    by (simp add: exc_ready_def booted_tables_def exc_test_state_def exc_test_env_def phys_def)
qed

theorem exceptions_case_passes_witness:
  "\<exists>t. exc_kernel_main (beside_platform sample_board) (beside_mmu sample_mmu) (\<lambda>d. sample_line (snd d))
      (\<lambda>n d. (fst d, sample_elapse n (snd d))) (\<lambda>n. 7) 64 0 (ev_symbols exc_test_env) exc_test_state = (FailStop, t)
    \<and> trace_values (io t) = [0x20070001] \<and> fault_status t = 0x303"
proof -
  have "ev_platform exc_test_env = beside_platform sample_board" "ev_mmu exc_test_env = beside_mmu sample_mmu"
    "ev_bview exc_test_env = snd" "\<not> tm_pending (ev_timer exc_test_env)" "bd_claimed (ev_board exc_test_env) = None"
    "io exc_test_state = []"
    by (simp_all add: exc_test_env_def exc_test_state_def)
  then show ?thesis
    using exceptions_case_passes [OF exc_test_ok exc_test_ready, where
        line = "\<lambda>d. sample_line (snd d)" and elapse = "\<lambda>n d. (fst d, sample_elapse n (snd d))" and fuel = 64
        and junk = "\<lambda>n. 7" and old = 0] beside_board_contract [OF sample_board_contract]
    by simp
qed

end
