(* ===== verification/HelloTypes.thy ===== *)
theory HelloTypes
  imports HelloKernel HelloProps
begin

text \<open>
  Typing of the example kernel: whatever the image, the boot info and the devices hold, every
  command of the kernel keeps the sizes of the static arrays and the bound of the page count,
  and what it returns is in range. The judgement holds in every outcome, also when the command
  stops or faults half way, and there is one rule per form of command.
\<close>

section \<open>The judgement\<close>

definition typed :: "('s \<Rightarrow> bool) \<Rightarrow> ('a \<Rightarrow> bool) \<Rightarrow> ('s, 'a) cmd \<Rightarrow> bool" where
  "typed I T c \<longleftrightarrow> (\<forall>s. I s \<longrightarrow> I (snd (c s)) \<and> (\<forall>x. fst (c s) = Done x \<longrightarrow> T x))"

abbreviation "any \<equiv> (\<lambda>_. True)"

named_theorems typing \<open>one rule per form of command\<close>

lemma typedI:
  "(\<And>s. I s \<Longrightarrow> I (snd (c s))) \<Longrightarrow> (\<And>s x. I s \<Longrightarrow> fst (c s) = Done x \<Longrightarrow> T x) \<Longrightarrow> typed I T c"
  by (simp add: typed_def)

text \<open>The judgement at one state, and a bind whose first command only reads.\<close>

definition typed_in :: "('s \<Rightarrow> bool) \<Rightarrow> ('a \<Rightarrow> bool) \<Rightarrow> ('s, 'a) cmd \<Rightarrow> 's \<Rightarrow> bool" where
  "typed_in I T c s \<longleftrightarrow> I (snd (c s)) \<and> (\<forall>x. fst (c s) = Done x \<longrightarrow> T x)"

lemma typed_at: "(\<And>s. I s \<Longrightarrow> typed_in I T c s) \<Longrightarrow> typed I T c"
  by (simp add: typed_def typed_in_def)

lemma typed_here: "typed I T c \<Longrightarrow> I s \<Longrightarrow> typed_in I T c s"
  by (simp add: typed_def typed_in_def)

lemma typed_in_gets: "typed_in I T (bind (gets g) f) s = typed_in I T (f (g s)) s"
  by (simp add: typed_in_def bind_gets)

lemma typed_in_read:
  assumes "typed (\<lambda>t. t = s) T c" and "I s" and "\<And>x. T x \<Longrightarrow> typed_in I U (f x) s"
  shows "typed_in I U (bind c f) s"
proof -
  obtain r where c: "c s = (r, s)"
    using assms(1) by (metis (mono_tags) typed_def prod.collapse)
  moreover have "T x" if "r = Done x" for x using assms(1) c that by (simp add: typed_def)
  ultimately show ?thesis
    using assms(2,3) by (cases r) (auto simp: typed_in_def bind_def)
qed

lemma typed_state: "typed I T c \<Longrightarrow> I s \<Longrightarrow> I (snd (c s))"
  by (simp add: typed_def)

lemma typed_value: "typed I T c \<Longrightarrow> I s \<Longrightarrow> c s = (Done x, t) \<Longrightarrow> T x \<and> I t"
  unfolding typed_def by (metis fst_conv snd_conv)

lemma typed_any: "typed I T c \<Longrightarrow> typed I any c"
  by (simp add: typed_def)

lemma typed_bind:
  assumes "typed I T c" and "\<And>x. T x \<Longrightarrow> typed I U (f x)"
  shows "typed I U (bind c f)"
proof (rule typedI)
  fix s assume s: "I s"
  obtain r t where c: "c s = (r, t)" by (cases "c s")
  have t: "I t" using typed_state [OF assms(1) s] c by simp
  have f: "I (snd (f x t)) \<and> (\<forall>y. fst (f x t) = Done y \<longrightarrow> U y)" if "r = Done x" for x
    using typed_value [OF assms(1) s] assms(2) c t that by (simp add: typed_def)
  show "I (snd (bind c f s))" using c t f by (cases r) (simp_all add: bind_def)
  show "U y" if "fst (bind c f s) = Done y" for y
    using c f that by (cases r) (auto simp: bind_def)
qed

lemmas typed_bind_any [typing] = typed_bind [where T = any]

lemma typed_ret [typing]: "T x \<Longrightarrow> typed I T (ret x)"
  by (simp add: typed_def ret_def)

lemma typed_gets [typing]: "typed I any (gets f)"
  by (simp add: typed_def gets_def)

lemma typed_modify [typing]: "(\<And>s. I s \<Longrightarrow> I (f s)) \<Longrightarrow> typed I any (modify f)"
  by (simp add: typed_def modify_def)

lemma typed_fault [typing]: "typed I T fault"
  by (simp add: typed_def fault_def)

lemma typed_fail_stop [typing]: "typed I T minemu_fail_stop"
  by (simp add: typed_def minemu_fail_stop_def)

lemma typed_only_if [typing]: "(b \<Longrightarrow> typed I any c) \<Longrightarrow> typed I any (only_if b c)"
  by (simp add: only_if_def typed_ret)

lemma typed_if [typing]:
  "(b \<Longrightarrow> typed I T c) \<Longrightarrow> (\<not> b \<Longrightarrow> typed I T d) \<Longrightarrow> typed I T (if b then c else d)"
  by simp

lemma typed_option [typing]:
  "(x = None \<Longrightarrow> typed I T c) \<Longrightarrow> (\<And>y. x = Some y \<Longrightarrow> typed I T (f y)) \<Longrightarrow>
    typed I T (case x of None \<Rightarrow> c | Some y \<Rightarrow> f y)"
  by (cases x) auto

lemma typed_let [typing]: "typed I T (f x) \<Longrightarrow> typed I T (let y = x in f y)"
  by simp

lemma typed_load_at: "(\<And>s k. I s \<Longrightarrow> k < length (get s) \<Longrightarrow> T (get s ! k)) \<Longrightarrow> typed I T (load_at get i)"
  by (auto simp: typed_def load_at_def)

lemma typed_load_any [typing]: "typed I any (load_at get i)"
  by (rule typed_load_at) simp

lemma typed_store_at [typing]:
  "(\<And>s. I s \<Longrightarrow> unat i < length (get s) \<Longrightarrow> I (upd (\<lambda>xs. xs[unat i := v]) s)) \<Longrightarrow>
    typed I any (store_at get upd i v)"
  by (simp add: typed_def store_at_def)

lemma typed_for:
  assumes "\<And>k. k < n \<Longrightarrow> typed I (pred_option T) (body k)"
  shows "typed I (pred_option T) (for_cmd body i n)"
proof -
  have "I s \<longrightarrow> I (snd (for_cmd body i n s))
      \<and> (\<forall>x. fst (for_cmd body i n s) = Done x \<longrightarrow> pred_option T x)" for s
    using assms
  proof (induction body i n s rule: for_cmd.induct)
    case (1 body i n s)
    obtain r t where b: "body i s = (r, t)" by (cases "body i s")
    show ?case
    proof (cases "i < n")
      case True
      have t: "I s \<Longrightarrow> I t" "\<And>x. I s \<Longrightarrow> r = Done x \<Longrightarrow> pred_option T x"
        using "1.prems" [OF True] b by (auto simp: typed_def)
      show ?thesis
      proof (cases "r = Done None")
        case go: True
        with "1.IH" [OF True, of "Done None" t None] "1.prems" b True t show ?thesis
          by (simp add: for_cmd_step)
      next
        case False
        with True b t show ?thesis by (auto simp: for_cmd_exit)
      qed
    qed (simp add: for_cmd_done)
  qed
  then show ?thesis by (simp add: typed_def)
qed

lemma typed_for_any [typing]: "(\<And>k. k < n \<Longrightarrow> typed I any (body k)) \<Longrightarrow> typed I any (for_cmd body i n)"
  by (rule typed_for [where T = any, unfolded option.pred_True])

lemma typed_image [typing]: "typed I any (image_byte img base p k)" "typed I any (image_record img base decode p)"
  by (simp_all add: typed_def image_byte_def image_record_def)

lemma typed_zero_bytes [typing]: "(\<And>k. typed I any (w k 0)) \<Longrightarrow> typed I any (hello_zero_bytes w n)"
  unfolding hello_zero_bytes_def by (rule typing | assumption | simp)+

lemma typed_copy_bytes [typing]:
  "(\<And>k v. typed I any (w k v)) \<Longrightarrow> (\<And>k. typed I any (src k)) \<Longrightarrow> typed I any (hello_copy_bytes w src n)"
  unfolding hello_copy_bytes_def by (rule typing | assumption | simp)+

lemma typed_bytes_equal [typing]:
  "(\<And>k. typed I any (l k)) \<Longrightarrow> (\<And>k. typed I any (r k)) \<Longrightarrow> typed I any (bytes_equal l r n)"
  unfolding bytes_equal_def by (rule typing | assumption | simp)+

section \<open>The kernel's operations\<close>

lemma statics_log: "statics_ok s \<Longrightarrow> statics_ok (s\<lparr>io := l\<rparr>)"
  by (simp add: statics_ok_def)

lemma typed_device [typing]:
  "typed statics_ok any (MINEMU_MMIO_WRITE32 P a v)" "typed statics_ok any (minemu_trace_event P e)"
  "typed statics_ok any minemu_mmu_tlbiall"
  by (simp_all add: typed_def MINEMU_MMIO_WRITE32_def minemu_trace_event_def minemu_mmu_tlbiall_def
      modify_def statics_ok_def)

lemma length_store_byte [simp]: "length (store_byte ws k v) = length ws"
  by (simp add: store_byte_def)

lemma list_all_update: "list_all Q xs \<Longrightarrow> Q x \<Longrightarrow> list_all Q (xs[i := x])"
  by (cases "i < length xs") (auto simp: list_all_length nth_list_update)

lemma list_all_at: "list_all Q xs \<Longrightarrow> i < length xs \<Longrightarrow> Q (xs ! i)"
  by (simp add: list_all_length)

lemma typed_windows [typing]:
  "typed statics_ok any (rom_table_window table k v)" "typed statics_ok any (user_table_window k v)"
  "typed statics_ok any (user_stack_window k v)" "typed statics_ok any (user_page_window index off k v)"
  by (auto simp: typed_def rom_table_window_def user_table_window_def user_stack_window_def
      user_page_window_def statics_ok_def intro!: list_all_update dest: list_all_at)

lemma typed_statics_store [typing]:
  "typed statics_ok any (store_at page_directory page_directory_update i v)"
  "typed statics_ok any (store_at user_page_table user_page_table_update i v)"
  "typed statics_ok any (store_at user_page_vaddrs user_page_vaddrs_update i v)"
  "typed statics_ok any (store_at user_page_flags user_page_flags_update i v)"
  by (rule typed_store_at; simp add: statics_ok_def)+

lemma typed_rom_store [typing]:
  assumes "unat table < 4"
  shows "typed statics_ok any (store_at (\<lambda>s. system_rom_tables s ! unat table)
    (\<lambda>f s. s\<lparr>system_rom_tables := (system_rom_tables s)[unat table := f (system_rom_tables s ! unat table)]\<rparr>) i v)"
  using assms by (intro typed_store_at)
    (auto simp: statics_ok_def intro!: list_all_update dest: list_all_at)

lemma typed_directory [typing]: "typed statics_ok any (active_page_directory i v)"
  unfolding active_page_directory_def by (rule typing statics_log | assumption | simp)+

lemma typed_map_rom [typing]: "typed statics_ok any (map_system_rom syms bi)"
proof -
  have small: "unat t < 4" if "t < n" "\<not> 4 < n" for t n :: u32
    using that by (simp add: word_less_nat_alt)
  show ?thesis
    unfolding map_system_rom_def by (rule typing small | assumption | simp)+
qed

lemma typed_find_module [typing]:
  "(\<And>k. typed I any (name k)) \<Longrightarrow> typed I any (find_module img bi name n)"
  unfolding find_module_def by (rule typing | assumption | simp)+

text \<open>A page index is the error value or a slot of the table.\<close>

definition slot_index :: "int \<Rightarrow> bool" where
  "slot_index i \<longleftrightarrow> i = - 1 \<or> 0 \<le> i \<and> i < 16"

lemma slot_index_simps [simp]: "slot_index (- 1)" "slot_index i \<Longrightarrow> 0 \<le> i \<or> i = - 1"
  by (auto simp: slot_index_def)

lemma slot_index_uint: "k < n \<Longrightarrow> n \<le> 16 \<Longrightarrow> slot_index (uint (k :: u32))"
  by (simp add: slot_index_def word_less_def word_le_def)

lemma typed_count:
  "n < 16 \<Longrightarrow> typed statics_ok any (modify (\<lambda>s. s\<lparr>user_page_count := n + 1\<rparr>))"
  by (rule typed_modify) (use inc_le_u32 [of n 16] in \<open>simp add: statics_ok_def\<close>)

lemma typed_page_index: "typed statics_ok slot_index (user_page_index page flags create)"
proof (rule typed_at)
  fix s :: "('d, 'z) hello_state_scheme"
  assume s: "statics_ok s"
  let ?n = "user_page_count s"
  have n: "?n \<le> 16" using s by (simp add: statics_ok_def)
  show "typed_in statics_ok slot_index (user_page_index page flags create) s"
    unfolding user_page_index_def typed_in_gets
  proof (rule typed_in_read)
    show "statics_ok s" by (rule s)
  next
    show "typed (\<lambda>t. t = s) (pred_option slot_index) (for_cmd (\<lambda>index.
       bind (load_at user_page_vaddrs index) (\<lambda>v.
       if v = page
       then (if create
             then bind (load_at user_page_flags index) (\<lambda>f.
                  if f \<noteq> flags then ret (Some (- 1)) else ret (Some (uint index)))
             else ret (Some (uint index)))
       else ret None)) 0 ?n)"
      by (rule typed_for) (rule typing slot_index_uint n | assumption | simp)+
  next
    fix x
    assume "pred_option slot_index x"
    then show "typed_in statics_ok slot_index (case x of
       Some r \<Rightarrow> ret r
     | None \<Rightarrow>
         if \<not> create \<or> ?n = 16 then ret (- 1)
         else
           bind (modify (\<lambda>s'. s'\<lparr>user_page_count := ?n + 1\<rparr>)) (\<lambda>_.
           bind (store_at user_page_vaddrs user_page_vaddrs_update ?n page) (\<lambda>_.
           bind (store_at user_page_flags user_page_flags_update ?n flags) (\<lambda>_.
           bind (hello_zero_bytes (user_page_window ?n 0) 4096) (\<lambda>_.
           ret (uint ?n)))))) s"
      using n by (intro typed_here [where I = statics_ok] s typing typed_count slot_index_uint [OF _ order_refl]) auto
  qed
qed

lemmas typed_page_any [typing] = typed_any [OF typed_page_index]

lemma prepare_pages_Suc:
  "prepare_pages (Suc fuel) page end_page f =
     (if page < end_page
      then bind (user_page_index page f True) (\<lambda>index.
           if index < 0 then ret False else prepare_pages fuel (page + 4096) end_page f)
      else ret True)"
  by (rule ext) simp

lemma typed_prepare_pages [typing]: "typed statics_ok any (prepare_pages fuel page end_page f)"
proof (induction fuel arbitrary: page)
  case (Suc fuel)
  note rules = typing Suc
  show ?case unfolding prepare_pages_Suc by (rule rules | assumption | simp)+
qed (simp add: typed_def)

lemma typed_write_range [typing]: "typed statics_ok any (write_user_range img base vaddr source len)"
proof (induction img base vaddr source len rule: write_user_range.induct)
  case (1 img base vaddr source len)
  note rules = typing 1
  show ?case
    by (subst write_user_range.simps) (rule rules refl | assumption | simp only:)+
qed

lemma typed_load_segment [typing]: "typed statics_ok any (load_segment img bi m g)"
  unfolding load_segment_def prepare_user_range_def by (rule typing | assumption | simp)+

lemma typed_load_segments [typing]: "typed statics_ok any (load_segments img bi m segs k e)"
proof (induction img bi m segs k e rule: load_segments.induct)
  case (1 img bi m segs k e)
  note rules = typing 1
  show ?case
    by (subst load_segments.simps) (rule rules | assumption | simp only:)+
qed

text \<open>Only a module with an aligned entry point is accepted.\<close>

lemma typed_load_module:
  "typed statics_ok (\<lambda>loaded. loaded \<longrightarrow> mr_entry_vaddr m AND 3 = 0) (load_user_module syms img bi m)"
proof -
  have no_pages: "statics_ok (s\<lparr>user_page_count := 0\<rparr>)" if "statics_ok s" for s :: "('d, 'z) hello_state_scheme"
    using that by (simp add: statics_ok_def)
  show ?thesis
    unfolding load_user_module_def map_user_page_def
    by (rule typing no_pages | assumption | simp)+
qed

text \<open>The dispatcher returns a frame of the shape it was given, and the user starts at an aligned address.\<close>

definition same_frame :: "minemu_trap_frame \<Rightarrow> minemu_trap_frame \<Rightarrow> bool" where
  "same_frame f g \<longleftrightarrow> g = f\<lparr>tf_r := tf_r g\<rparr> \<and> length (tf_r g) = length (tf_r f)
     \<and> tl (tf_r g) = tl (tf_r f)"

lemma same_frame_set [simp]: "same_frame f (f\<lparr>tf_r := (tf_r f)[0 := v]\<rparr>)"
  by (cases "tf_r f") (simp_all add: same_frame_def)

lemma typed_svc: "typed statics_ok (same_frame f) (hello_svc_dispatch P fetch f)"
proof -
  have seen: "statics_ok (s\<lparr>user_syscall_observed := True\<rparr>)" if "statics_ok s" for s :: "('d, 'z) hello_state_scheme"
    using that by (simp add: statics_ok_def)
  show ?thesis
    unfolding hello_svc_dispatch_def by (rule typing seen | assumption | simp)+
qed

lemma typed_serve: "typed statics_ok (list_all2 same_frame fs) (serve P fetch fs)"
  by (induction fs) (auto intro!: typed_ret typed_bind [OF typed_svc] elim: typed_bind)

definition aligned_start :: "user_context \<Rightarrow> bool" where
  "aligned_start u \<longleftrightarrow> uc_pc u AND 3 = 0 \<and> uc_cpsr u = 0x10 \<and> uc_r0_r3 u = [0, 0, 0, 0]"

lemma typed_enter_user: "e AND 3 = 0 \<Longrightarrow> typed statics_ok aligned_start (minemu_enter_user e sp)"
  by (simp add: typed_def minemu_enter_user_def cmd_simps aligned_start_def statics_ok_def)

lemma typed_load_one:
  "typed statics_ok (pred_option (\<lambda>m. mr_entry_vaddr m AND 3 = 0))
     (bind (load_user_module syms img bi m) (\<lambda>loaded. ret (if loaded then Some m else None)))"
  by (rule typed_bind [OF typed_load_module]) (simp add: typed_ret)

lemma typed_load_found:
  "typed statics_ok (pred_option (\<lambda>m. mr_entry_vaddr m AND 3 = 0)) (case module of
      None \<Rightarrow> ret None
    | Some p \<Rightarrow>
        bind (image_record img (bi_system_rom_base bi) module_record_at p) (\<lambda>rec.
        bind (load_user_module syms img bi rec) (\<lambda>loaded.
        ret (if loaded then Some rec else None))))"
  by (cases module) (auto intro: typed_ret typed_bind_any typed_image typed_load_one)

lemma typed_start:
  "pred_option (\<lambda>m. mr_entry_vaddr m AND 3 = 0) loaded \<Longrightarrow>
   typed statics_ok aligned_start (case loaded of
      None \<Rightarrow> bind (minemu_trace_event P e) (\<lambda>_. minemu_fail_stop)
    | Some rec \<Rightarrow> minemu_enter_user (mr_entry_vaddr rec) sp)"
  by (cases loaded) (auto intro: typed_enter_user typed_bind_any typed_device typed_fail_stop)

lemma typed_main: "typed statics_ok aligned_start (hello_kernel_main P syms img pointer bi)"
  unfolding hello_kernel_main_def
  by (rule typed_bind_any, rule typed_if, rule typed_ret, simp, rule typed_map_rom,
      rule typed_bind_any, rule typed_only_if, rule typed_bind_any, rule typed_device, rule typed_fail_stop,
      rule typed_bind_any, rule typed_find_module, rule typed_load_any,
      rule typed_bind, rule typed_load_found, erule typed_start)

section \<open>The kernel is well typed\<close>

text \<open>
  C14: whatever the image, the boot info and the devices hold, and in every outcome, the kernel's
  main and the system calls it serves afterwards keep the sizes of the static arrays and at most
  16 user pages; the user program is only ever started in user mode at an aligned address with
  its argument registers clear, and every system call returns the frame it was given with at
  most \<^verbatim>\<open>r0\<close> changed.
\<close>

theorem hello_kernel_typed:
  assumes "statics_ok s"
  shows "case hello_kernel_main P syms img pointer bi s of
      (Done user, t) \<Rightarrow> statics_ok t \<and> uc_pc user AND 3 = 0 \<and> uc_cpsr user = 0x10
          \<and> uc_r0_r3 user = [0, 0, 0, 0]
        \<and> (case serve P fetch frames t of
            (Done replies, u) \<Rightarrow> statics_ok u \<and> list_all2 same_frame frames replies
          | (_, u) \<Rightarrow> statics_ok u)
    | (_, t) \<Rightarrow> statics_ok t"
proof -
  obtain r t where main: "hello_kernel_main P syms img pointer bi s = (r, t)" by fastforce
  have t: "statics_ok t" using typed_state [OF typed_main assms] main by (metis snd_conv)
  obtain q u where calls: "serve P fetch frames t = (q, u)" by fastforce
  have u: "statics_ok u" using typed_state [OF typed_serve t] calls by (metis snd_conv)
  have "aligned_start user" if "r = Done user" for user
    using typed_value [OF typed_main assms] main that by blast
  moreover have "list_all2 same_frame frames replies" if "q = Done replies" for replies
    using typed_value [OF typed_serve t] calls that by blast
  ultimately show ?thesis
    using main calls t u by (simp add: aligned_start_def split: outcome.splits)
qed

theorem hello_kernel_typed_witness:
  "\<exists>user t. hello_kernel_main sample_platform sample_symbols sample_image 0xc0007000 sample_boot sample_state
      = (Done user, t) \<and> statics_ok t \<and> uc_pc user AND 3 = 0"
proof -
  obtain user t where run: "hello_kernel_main sample_platform sample_symbols sample_image 0xc0007000
      sample_boot sample_state = (Done user, t)"
    using hello_main_entered [OF sample_statics sample_size sample_symbols_ok sample_handoff sample_hello,
        of sample_platform] by blast
  from hello_kernel_typed [OF sample_statics, where P = sample_platform and syms = sample_symbols
      and img = sample_image and pointer = "0xc0007000" and bi = sample_boot and frames = "[]"
      and fetch = Map.empty]
  show ?thesis by (simp add: run)
qed

end
