(* ===== verification/HelloConfine.thy ===== *)
theory HelloConfine
  imports HelloKernel HelloProps Bootstrap
begin

text \<open>
  What the user program can reach in the whole 32-bit address space: the walk from the page
  directory, over the tables of the start-up code, the ROM tables and the user page table. Only the
  entries the loader made carry the user bit.
\<close>

section \<open>Physical memory with the kernel's tables\<close>

text \<open>The static arrays that the MMU or the user program sees, by physical address and size.\<close>

definition array_frames :: "hello_symbols \<Rightarrow> (u32 \<times> u32) list" where
  "array_frames syms =
     [(0x40010000, 0x1000),
      (kernel_vaddr_to_paddr (sym_user_page_table syms), 0x1000),
      (kernel_vaddr_to_paddr (sym_system_rom_tables syms), 0x4000),
      (kernel_vaddr_to_paddr (sym_user_image_pages syms), 0x10000),
      (kernel_vaddr_to_paddr (sym_user_stack syms), 0x1000)]"

text \<open>The linker aligns them to pages, and they do not overlap.\<close>

definition arrays_linked :: "hello_symbols \<Rightarrow> bool" where
  "arrays_linked syms \<longleftrightarrow>
     list_all (\<lambda>(p, n). page_of p = p) (array_frames syms)
     \<and> sorted_wrt (\<lambda>(p, n) (q, k). \<not> in_range p n q \<and> \<not> in_range q k p) (array_frames syms)"

text \<open>
  A word of physical memory: the directory and the tables are those of the state, the user pages and
  the stack are made of their bytes, and the rest of memory is \<open>m\<close>.
\<close>

definition hello_ram :: "hello_symbols \<Rightarrow> (u32 \<Rightarrow> u32) \<Rightarrow> ('d, 'z) hello_state_scheme \<Rightarrow> u32 \<Rightarrow> u32" where
  "hello_ram syms m s a =
     (let d = a - 0x40010000;
          u = a - kernel_vaddr_to_paddr (sym_user_page_table syms);
          r = a - kernel_vaddr_to_paddr (sym_system_rom_tables syms);
          byte = \<lambda>k. the (frame_byte syms s (a + k)) in
      if d < 0x1000 then page_directory s ! (unat d div 4)
      else if u < 0x1000 then user_page_table s ! (unat u div 4)
      else if r < 0x4000 then system_rom_tables s ! (unat r div 4096) ! (unat r mod 4096 div 4)
      else if frame_byte syms s a \<noteq> None then join4 (byte 0) (byte 1) (byte 2) (byte 3)
      else m a)"

text \<open>What an access in user mode reaches: the physical address and the low bits of the entry.\<close>

definition user_view :: "hello_symbols \<Rightarrow> (u32 \<Rightarrow> u32) \<Rightarrow> ('d, 'z) hello_state_scheme \<Rightarrow> u32 \<Rightarrow> (u32 \<times> u32) option" where
  "user_view syms m s v =
     (case walk (hello_ram syms m s) 0x40010000 v of
        Some (p, r) \<Rightarrow> if bit r 2 then Some (p, r) else None
      | None \<Rightarrow> None)"

text \<open>
  The tables the kernel finds: every valid directory entry refers to a page that is none of the
  kernel's arrays and holds no valid entry with the user bit.
\<close>

definition kernel_tables :: "hello_symbols \<Rightarrow> (u32 \<Rightarrow> u32) \<Rightarrow> ('d, 'z) hello_state_scheme \<Rightarrow> bool" where
  "kernel_tables syms m s \<longleftrightarrow>
     (\<forall>pde \<in> set (page_directory s). bit pde 0 \<longrightarrow>
        list_all (\<lambda>(p, n). \<not> in_range p n (page_of pde)) (array_frames syms)
        \<and> list_all (\<lambda>k. let w = m (page_of pde + 4 * of_nat k) in \<not> (bit w 0 \<and> bit w 2)) [0..<1024])"

section \<open>Words of a page\<close>

lemma aligned_in_range:
  assumes "page_of t = t" and "page_of b = b" and "unat n mod 4096 = 0" and "unat x < 4096"
  shows "in_range b n (t + x) \<longleftrightarrow> in_range b n t"
proof -
  have "page_of (t - b) = t - b"
    using assms(1,2) unfolding aligned_multiple by (metis right_diff_distrib)
  then have al: "unat (t - b) mod 4096 = 0" using page_off_aligned unat_page_off [of "t - b"] by simp
  then obtain q where q: "unat (t - b) = 4096 * q" by (auto elim: dvdE simp: dvd_eq_mod_eq_0 [symmetric])
  obtain j where j: "unat n = 4096 * j" using assms(3) by (auto elim: dvdE simp: dvd_eq_mod_eq_0 [symmetric])
  have "q < 1048576" using unat_u32_bound [of "t - b"] unfolding q by simp
  then have u: "unat (t - b + x) = 4096 * q + unat x" using q assms(4) by (subst unat_add_u32) simp_all
  have eq: "t + x - b = t - b + x" by simp
  have arith: "4096 * q + y < 4096 * j \<longleftrightarrow> 4096 * q < 4096 * j" if "y < 4096" for y :: nat
  proof (cases "q < j")
    case True
    then have "4096 * Suc q \<le> 4096 * j" by (intro mult_le_mono2 Suc_leI)
    with that True show ?thesis by simp
  qed simp
  show ?thesis
    unfolding in_range_def word_less_nat_alt eq u q j by (rule arith [OF assms(4)])
qed

lemma page_apart:
  assumes "page_of t = t" and "page_of b = b" and "t \<noteq> b" and "unat x < 4096"
  shows "\<not> in_range b 0x1000 (t + x)"
proof -
  have "page_of (t - b) = t - b"
    using assms(1,2) unfolding aligned_multiple by (metis right_diff_distrib)
  then have "unat (t - b) mod 4096 = 0" using page_off_aligned unat_page_off [of "t - b"] by simp
  moreover have "unat (t - b) \<noteq> 0" using assms(3) by (simp add: unat_eq_0)
  ultimately have "\<not> unat (t - b) < 4096" by auto
  then show ?thesis
    using aligned_in_range [OF assms(1,2) _ assms(4), of "0x1000"] by (simp add: in_range_def word_less_nat_alt)
qed

lemma unat_slot: "k < 1024 \<Longrightarrow> unat (4 * of_nat k :: u32) = 4 * k"
  by (simp add: unat_word_ariths unat_of_nat)

lemma array_places:
  assumes "arrays_linked syms"
  shows "page_of (kernel_vaddr_to_paddr (sym_user_page_table syms)) = kernel_vaddr_to_paddr (sym_user_page_table syms)"
    and "page_of (kernel_vaddr_to_paddr (sym_system_rom_tables syms)) = kernel_vaddr_to_paddr (sym_system_rom_tables syms)"
    and "page_of (kernel_vaddr_to_paddr (sym_user_image_pages syms)) = kernel_vaddr_to_paddr (sym_user_image_pages syms)"
    and "page_of (kernel_vaddr_to_paddr (sym_user_stack syms)) = kernel_vaddr_to_paddr (sym_user_stack syms)"
    and "\<not> in_range 0x40010000 0x1000 (kernel_vaddr_to_paddr (sym_user_page_table syms))"
    and "\<not> in_range (kernel_vaddr_to_paddr (sym_system_rom_tables syms)) 0x4000 0x40010000"
    and "\<not> in_range (kernel_vaddr_to_paddr (sym_system_rom_tables syms)) 0x4000
      (kernel_vaddr_to_paddr (sym_user_page_table syms))"
  using assms by (simp_all add: arrays_linked_def array_frames_def)

lemma directory_word:
  assumes "i < 1024"
  shows "hello_ram syms m s (0x40010000 + 4 * of_nat i) = page_directory s ! i"
  using unat_slot [OF assms] assms by (simp add: hello_ram_def Let_def word_less_nat_alt)

lemma user_table_word:
  assumes "arrays_linked syms" and "k < 1024"
  shows "hello_ram syms m s (kernel_vaddr_to_paddr (sym_user_page_table syms) + 4 * of_nat k) = user_page_table s ! k"
proof -
  let ?u = "kernel_vaddr_to_paddr (sym_user_page_table syms)"
  have k: "unat (4 * of_nat k :: u32) = 4 * k" "unat (4 * of_nat k :: u32) < 4096"
    using unat_slot [OF assms(2)] assms(2) by simp_all
  have "page_of (0x40010000 :: u32) = 0x40010000" by (simp add: page_of_def)
  then have "\<not> in_range 0x40010000 0x1000 (?u + 4 * of_nat k)"
    using aligned_in_range [OF array_places(1) [OF assms(1)], of "0x40010000" "0x1000"] k(2)
      array_places(5) [OF assms(1)] by simp
  then show ?thesis using k by (simp add: hello_ram_def Let_def in_range_def word_less_nat_alt)
qed

lemma rom_table_word:
  assumes "arrays_linked syms" and "j < 4" and "k < 1024"
  shows "hello_ram syms m s (kernel_vaddr_to_paddr (sym_system_rom_tables syms + of_nat j * 4096) + 4 * of_nat k)
    = system_rom_tables s ! j ! k"
proof -
  let ?u = "kernel_vaddr_to_paddr (sym_user_page_table syms)" and ?r = "kernel_vaddr_to_paddr (sym_system_rom_tables syms)"
  let ?t = "?r + 4096 * of_nat j" and ?k = "4 * of_nat k :: u32"
  have eq: "kernel_vaddr_to_paddr (sym_system_rom_tables syms + of_nat j * 4096) = ?t"
    by (simp add: kernel_vaddr_to_paddr_def algebra_simps)
  note l = array_places [OF assms(1)]
  have t: "page_of ?t = ?t" by (rule aligned_add [OF l(2)])
  have k: "unat ?k < 4096" using unat_slot [OF assms(3)] assms(3) by simp
  have in_r: "in_range ?r 0x4000 ?t"
    using assms(2) by (simp add: in_range_def word_less_nat_alt unat_word_ariths unat_of_nat)
  have "?t \<noteq> 0x40010000" "?t \<noteq> ?u" using in_r l(6,7) by metis+
  then have "\<not> in_range 0x40010000 0x1000 (?t + ?k)" "\<not> in_range ?u 0x1000 (?t + ?k)"
    using page_apart [OF t, of "0x40010000" ?k] page_apart [OF t l(1), of ?k] k by (simp_all add: page_of_def)
  moreover have "unat (?t + ?k - ?r) = 4096 * j + 4 * k"
  proof -
    have "?t + ?k - ?r = of_nat (4096 * j + 4 * k)" by simp
    then show ?thesis using assms(2,3) by (simp only:) (intro unat_of_nat_u32, simp)
  qed
  ultimately show ?thesis
    using assms(2,3) unfolding eq hello_ram_def Let_def
    by (simp add: in_range_def word_less_nat_alt)
qed

text \<open>A table that is none of the arrays.\<close>

lemma foreign_word:
  assumes "arrays_linked syms" and "list_all (\<lambda>(p, n). \<not> in_range p n t) (array_frames syms)"
    and "page_of t = t" and "k < 1024"
  shows "hello_ram syms m s (t + 4 * of_nat k) = m (t + 4 * of_nat k)"
proof -
  have k: "unat (4 * of_nat k :: u32) < 4096" using unat_slot [OF assms(4)] assms(4) by simp
  have "\<not> in_range p n (t + 4 * of_nat k)" if "(p, n) \<in> set (array_frames syms)" for p n
  proof -
    have "page_of p = p" "\<not> in_range p n t" "unat n mod 4096 = 0"
      using that assms(1,2) by (auto simp: arrays_linked_def array_frames_def)
    then show ?thesis using aligned_in_range [OF assms(3) _ _ k] by simp
  qed
  then show ?thesis
    by (auto simp: array_frames_def hello_ram_def frame_byte_def in_range_def Let_def)
qed

text \<open>The walk in terms of the directory.\<close>

lemma walk_hello:
  "walk (hello_ram syms m s) 0x40010000 v =
    (let pde = page_directory s ! (unat v div 4194304) in
     if \<not> bit pde 0 then None
     else let pte = hello_ram syms m s (page_of pde + 4 * of_nat (page_slot v)) in
       if \<not> bit pte 0 then None else Some (page_of pte + page_off v, page_off pte))"
proof -
  have "unat v div 4194304 < 1024" using unat_u32_bound [of v] by (simp add: less_mult_imp_div_less)
  then have d: "hello_ram syms m s (0x40010000 + 4 * drop_bit 22 v) = page_directory s ! (unat v div 4194304)"
    by (simp add: walk_indices directory_word)
  show ?thesis
    unfolding walk_def d Let_def by (simp add: walk_indices page_slot_eq mask_bit [of _ 0, simplified])
qed

text \<open>In its four megabytes the walk of the user page table is the walk of the MMU.\<close>

lemma user_walk_view:
  assumes "arrays_linked syms" and "page_directory s ! 1 = kernel_vaddr_to_paddr (sym_user_page_table syms) OR 1"
    and "unat v div 4194304 = 1"
  shows "user_walk syms s v =
    map_option (\<lambda>(p, r). (frame_byte syms s p, r)) (walk (hello_ram syms m s) 0x40010000 v)"
proof -
  have "page_of (kernel_vaddr_to_paddr (sym_user_page_table syms) OR 1) = kernel_vaddr_to_paddr (sym_user_page_table syms)"
    by (rule pte_parts [OF array_places(1) [OF assms(1)]]) (simp add: page_of_def)
  then show ?thesis
    using assms(2,3) user_table_word [OF assms(1) page_slot_less, of m s v]
    by (simp add: walk_hello user_walk_def Let_def mask_bit [of _ 0, simplified] bit_or_iff)
qed

text \<open>A directory entry whose table has no user entries translates nothing for the user.\<close>

lemma kernel_entry_view:
  assumes "\<not> bit (page_directory s ! (unat v div 4194304)) 0 \<or>
    (let w = hello_ram syms m s (page_of (page_directory s ! (unat v div 4194304)) + 4 * of_nat (page_slot v))
     in \<not> (bit w 0 \<and> bit w 2))"
  shows "user_view syms m s v = None"
proof -
  have "bit (page_off w) 2 = bit w 2" for w
    by (simp add: page_off_def bit_and_iff)
  then show ?thesis using assms by (simp add: user_view_def walk_hello Let_def)
qed

section \<open>The tables of the start-up code\<close>

text \<open>Its entries have no user bit, whatever the accessed bits of the others become.\<close>

lemma boot_words:
  assumes "i < 1024" and "k < 1024" and "bit (boot_tables m (of_nat (0x40010000 + 4 * i))) 0"
  defines "w \<equiv> boot_tables m (page_of (boot_tables m (of_nat (0x40010000 + 4 * i))) + 4 * of_nat k)"
  shows "\<not> (bit w 0 \<and> bit w 2)"
proof
  assume w: "bit w 0 \<and> bit w 2"
  let ?v = "of_nat (4194304 * i + 4096 * k) :: u32"
  have v: "unat ?v = 4194304 * i + 4096 * k" using assms(1,2) by (intro unat_of_nat_u32) simp
  have ix: "unat ?v div 4194304 = i" "unat ?v div 4096 mod 1024 = k"
  proof -
    show "unat ?v div 4194304 = i" unfolding v using assms(2) by simp
    have "unat ?v = 4096 * (1024 * i + k)" unfolding v by simp
    then have "unat ?v div 4096 = 1024 * i + k" by simp
    then show "unat ?v div 4096 mod 1024 = k" using assms(2) by simp
  qed
  have "walk (boot_tables m) 0x40010000 ?v = Some (page_of w + page_off ?v, page_off w)"
    using w assms(3) ix by (simp add: walk_def walk_indices w_def mask_bit [of _ 0, simplified] Let_def)
  then have "page_off w = 0x1b \<or> page_off w = 0x13"
    by (simp add: boot_walk boot_mapping_def split: if_splits)
  moreover have "bit (page_off w) 2 = bit w 2" by (simp add: page_off_def bit_and_iff)
  moreover have "\<not> bit (0x1b :: u32) 2" "\<not> bit (0x13 :: u32) 2" by code_simp+
  ultimately show False using w by metis
qed

lemma boot_table_place:
  assumes "i < 1024" and "bit (boot_tables m (of_nat (0x40010000 + 4 * i))) 0"
  obtains q where "0x40011 \<le> q" and "q < 0x40023"
    and "unat (page_of (boot_tables m (of_nat (0x40010000 + 4 * i)))) = 4096 * q"
proof -
  let ?e = "boot_tables m (of_nat (0x40010000 + 4 * i))"
  obtain q where q: "?e = of_nat (4096 * q + 1)" "0x40011 \<le> q" "q < 0x40023"
  proof (cases "768 \<le> i \<and> i < 784")
    case True
    then obtain j where j: "i = 768 + j" "j < 16" by (metis add_less_cancel_left le_Suc_ex numeral_plus_numeral semiring_norm(2,6,8) add_num_simps)
    then show ?thesis
      using directory_entry [OF assms(1), of m] by (intro that [of "0x40012 + j"]) simp_all
  next
    case False
    then have "?e = 0x40011001 \<or> ?e = 0x40022001"
      using assms directory_entry [OF assms(1), of m] by (auto split: if_splits)
    then show ?thesis using that [of "0x40011"] that [of "0x40022"] by auto
  qed
  have "page_of ?e = of_nat (4096 * q)" unfolding q(1) using q(3) by (intro entry_parts) simp_all
  moreover have "unat (of_nat (4096 * q) :: u32) = 4096 * q" using q(3) by (intro unat_of_nat_u32) simp
  ultimately show ?thesis using q(2,3) by (intro that [of q]) simp_all
qed

text \<open>With the arrays of the kernel above them, they are as the kernel needs them.\<close>

lemma boot_kernel_tables:
  assumes dir: "page_directory s = map (\<lambda>i. minemu_bootstrap_map n (0x40010000 + 4 * of_nat i)) [0..<1024]"
    and tables: "\<And>a. 0x40011000 \<le> a \<Longrightarrow> a < 0x40023000 \<Longrightarrow> m a = minemu_bootstrap_map n a"
    and above: "list_all (\<lambda>(p, k). 0x40023000 \<le> p \<and> unat p + unat k < 4294967296) (tl (array_frames syms))"
  shows "kernel_tables syms m s"
  unfolding kernel_tables_def
proof (intro ballI impI conjI)
  fix pde assume "pde \<in> set (page_directory s)" and valid: "bit pde 0"
  then obtain i where i: "i < 1024" "pde = boot_tables n (of_nat (0x40010000 + 4 * i))"
    by (auto simp: dir bootstrap_map_result simp del: upt.simps)
  note v = valid [unfolded i(2)]
  obtain q where q: "0x40011 \<le> q" "q < 0x40023" "unat (page_of pde) = 4096 * q"
    using boot_table_place [OF i(1) v] i(2) by metis
  then have "4096 * q < 4096 * 0x40023" "4096 * 0x40011 \<le> 4096 * q" "4096 * q + 4096 \<le> 4096 * 0x40023"
    by simp_all
  then have place: "0x40011000 \<le> unat (page_of pde)" "unat (page_of pde) + 4096 \<le> 0x40023000"
    using q(3) by simp_all
  show "list_all (\<lambda>(p, n). \<not> in_range p n (page_of pde)) (array_frames syms)"
  proof -
    have "\<not> in_range p k (page_of pde)" if "0x40023000 \<le> p" "unat p + unat k < 4294967296" for p k
      using place that by (subst in_range_no_wrap) (auto simp: no_wrap_def word_le_nat_alt word_less_nat_alt)
    moreover have "\<not> in_range 0x40010000 0x1000 (page_of pde)"
      using place by (subst in_range_no_wrap) (auto simp: no_wrap_def word_le_nat_alt word_less_nat_alt)
    ultimately show ?thesis using above by (simp add: array_frames_def)
  qed
  show "list_all (\<lambda>k. let w = m (page_of pde + 4 * of_nat k) in \<not> (bit w 0 \<and> bit w 2)) [0..<1024]"
  proof -
    have "m (page_of pde + 4 * of_nat k) = boot_tables n (page_of pde + 4 * of_nat k)" if k: "k < 1024" for k
    proof -
      have off: "unat (4 * of_nat k :: u32) = 4 * k" by (rule unat_slot [OF k])
      have "unat (page_of pde + 4 * of_nat k) = unat (page_of pde) + 4 * k"
        using place(2) k off by (subst unat_add_u32) simp_all
      then show ?thesis
        using place k tables [of "page_of pde + 4 * of_nat k"]
        by (simp add: bootstrap_map_result word_le_nat_alt word_less_nat_alt)
    qed
    then show ?thesis
      using boot_words [OF i(1) _ v, folded i(2)] by (simp add: list_all_iff Let_def)
  qed
qed

section \<open>The entries of the kernel\<close>

lemma rom_pte_kernel: "\<not> bit (rom_pte page) 2"
proof -
  have "page_of (0x08000000 :: u32) = 0x08000000" by (simp add: page_of_def)
  then have "page_of ((0x08000000 :: u32) + of_nat page * 4096) = 0x08000000 + of_nat page * 4096"
    using aligned_add [of "0x08000000" "of_nat page"] by (simp add: mult.commute)
  moreover have "page_of (0x11 :: u32) = 0" by (simp add: page_of_def)
  ultimately have "page_off (rom_pte page) = 0x11" unfolding rom_pte_def by (rule pte_parts(2))
  moreover have "bit (page_off (rom_pte page)) 2 = bit (rom_pte page) 2" by (simp add: page_off_def bit_and_iff)
  moreover have "\<not> bit (0x11 :: u32) 2" by code_simp
  ultimately show ?thesis by simp
qed

text \<open>
  The directory the user program runs on, and what it translates for the user: the walk of the
  user page table in its four megabytes, and nothing else.
\<close>

definition user_directory ::
    "hello_symbols \<Rightarrow> minemu_boot_info \<Rightarrow> ('d, 'z) hello_state_scheme \<Rightarrow> ('d, 'z) hello_state_scheme \<Rightarrow> bool" where
  "user_directory syms bi s t \<longleftrightarrow>
     page_directory t ! 1 = kernel_vaddr_to_paddr (sym_user_page_table syms) OR 1
     \<and> (\<forall>k < rom_tables bi. page_directory t ! (32 + k) = rom_pde syms k
          \<and> system_rom_tables t ! k = rom_table_for bi k)
     \<and> (\<forall>i < 1024. i \<noteq> 1 \<longrightarrow> \<not> (32 \<le> i \<and> i < 32 + rom_tables bi) \<longrightarrow>
          page_directory t ! i = page_directory s ! i)"

lemma kernel_space_view:
  assumes lk: "arrays_linked syms" and dir: "user_directory syms bi s t" and tables: "rom_tables bi \<le> 4"
    and kt: "kernel_tables syms m s" and len: "length (page_directory s) = 1024"
    and v: "unat v div 4194304 \<noteq> 1"
  shows "user_view syms m t v = None"
proof (rule kernel_entry_view)
  let ?i = "unat v div 4194304" and ?k = "page_slot v"
  let ?e = "page_directory t ! ?i"
  have i: "?i < 1024" using unat_u32_bound [of v] by (simp add: less_mult_imp_div_less)
  show "\<not> bit ?e 0 \<or> (let w = hello_ram syms m t (page_of ?e + 4 * of_nat ?k) in \<not> (bit w 0 \<and> bit w 2))"
  proof (cases "32 \<le> ?i \<and> ?i < 32 + rom_tables bi")
    case True
    then obtain j where j: "?i = 32 + j" "j < rom_tables bi" by (auto simp: le_iff_add)
    then have e: "?e = rom_pde syms j" and tab: "system_rom_tables t ! j = rom_table_for bi j"
      using dir by (simp_all add: user_directory_def)
    have "kernel_vaddr_to_paddr (sym_system_rom_tables syms + of_nat j * 4096)
        = kernel_vaddr_to_paddr (sym_system_rom_tables syms) + 4096 * of_nat j"
      by (simp add: kernel_vaddr_to_paddr_def algebra_simps)
    then have al: "page_of (kernel_vaddr_to_paddr (sym_system_rom_tables syms + of_nat j * 4096))
        = kernel_vaddr_to_paddr (sym_system_rom_tables syms + of_nat j * 4096)"
      using aligned_add [OF array_places(2) [OF lk]] by metis
    have "page_of (1 :: u32) = 0" by (simp add: page_of_def)
    with al have "page_of ?e = kernel_vaddr_to_paddr (sym_system_rom_tables syms + of_nat j * 4096)"
      unfolding e rom_pde_def by (rule pte_parts)
    then have "hello_ram syms m t (page_of ?e + 4 * of_nat ?k) = rom_table_for bi j ! ?k"
      using rom_table_word [OF lk _ page_slot_less, of j m t v] j(2) tables tab by simp
    moreover have "\<not> bit (rom_table_for bi j ! ?k) 2"
      using page_slot_less [of v] rom_pte_kernel by (simp add: rom_table_for_def del: upt.simps)
    ultimately show ?thesis by (simp add: Let_def)
  next
    case False
    then have e: "?e = page_directory s ! ?i" using dir i v by (simp add: user_directory_def)
    then have "?e \<in> set (page_directory s)" using i len by simp
    then have "bit ?e 0 \<Longrightarrow> list_all (\<lambda>(p, n). \<not> in_range p n (page_of ?e)) (array_frames syms)"
      and w: "bit ?e 0 \<Longrightarrow> let w = m (page_of ?e + 4 * of_nat ?k) in \<not> (bit w 0 \<and> bit w 2)"
      using kt page_slot_less [of v] by (simp_all add: kernel_tables_def list_all_iff)
    then have "bit ?e 0 \<Longrightarrow> hello_ram syms m t (page_of ?e + 4 * of_nat ?k) = m (page_of ?e + 4 * of_nat ?k)"
      using foreign_word [OF lk _ page_of_page_of page_slot_less] by blast
    with w show ?thesis by (cases "bit ?e 0") simp_all
  qed
qed

lemma user_space_view:
  assumes lk: "arrays_linked syms" and dir: "user_directory syms bi s t" and v: "unat v div 4194304 = 1"
  shows "user_view syms m t v = None \<and> (user_walk syms t v = None \<or> (\<exists>b r. user_walk syms t v = Some (b, r) \<and> \<not> bit r 2))
    \<or> (\<exists>p r. user_view syms m t v = Some (p, r) \<and> user_walk syms t v = Some (frame_byte syms t p, r))"
  using user_walk_view [OF lk _ v, of t m] dir
  by (auto simp: user_directory_def user_view_def split: option.splits)

section \<open>What the user program reaches\<close>

lemma hello_main_directory:
  assumes st: "statics_ok s" and size: "unat (bi_image_size bi) \<le> length img" and sym: "symbols_ok syms"
    and run: "hello_kernel_main P syms img pointer bi s = (Done user, t)"
  obtains mr F where "hello_module img bi = Some (mr, F)" and "rom_tables bi \<le> 4"
    and "user_directory syms bi s t"
    and "\<And>v. 0x00400000 \<le> v \<Longrightarrow> v < 0x00800000 \<Longrightarrow> user_walk syms t v = user_space img bi mr F v"
proof -
  let ?u = "rom_state syms bi s"
  have ok: "hello_handoff pointer bi"
    using hello_main_no_handoff [OF st, of pointer bi P syms img] run by auto
  obtain mr F where mod: "hello_module img bi = Some (mr, F)"
    using hello_main_result [OF st size ok, of P syms] run by (cases "hello_module img bi") auto
  then obtain w where w: "load_user_module syms img bi mr ?u = (Done True, w)" "t = entered w"
    using hello_main_result [OF st size ok, of P syms] run by auto
  have lay: "module_layout img bi mr = Some F"
    using mod by (auto simp: hello_module_def split: option.splits)
  have su: "statics_ok ?u" by (rule statics_rom_state [OF st])
  from loaded_space [OF su size sym lay] w(1) have
    x: "page_directory w = (page_directory ?u)[1 := kernel_vaddr_to_paddr (sym_user_page_table syms) OR 1]"
      "system_rom_tables w = system_rom_tables ?u"
      "\<And>v. 0x00400000 \<le> v \<Longrightarrow> v < 0x00800000 \<Longrightarrow> user_walk syms w v = user_space img bi mr F v"
    by auto
  have le: "rom_tables bi \<le> 4" using ok rom_counts(3) by (simp add: hello_handoff_def)
  have len: "length (page_directory ?u) = 1024" by (simp add: rom_state_def rom_mapped_def)
  have "user_directory syms bi s w"
    unfolding user_directory_def x(1,2) using le len
    by (simp add: nth_list_update) (simp add: rom_state_def rom_mapped_def del: upt.simps)
  then have "user_directory syms bi s t" by (simp add: w(2) user_directory_def entered_def)
  then show ?thesis using that mod le x(3) by (simp add: w(2) entered_walk)
qed

lemma user_space_cases:
  assumes mod: "hello_module img bi = Some (mr, F)" and "user_space img bi mr F v = Some (b, r)"
  shows "0x007ff000 \<le> v \<and> b = Some 0 \<and> r = 0x17
    \<or> v < 0x007ff000 \<and> (\<exists>g \<in> set (module_segments img bi mr). page_of v \<in> segment_pages g
        \<and> b = Some (module_memory img bi mr v) \<and> r = 5 OR pte_flags_from_segment (ms_flags g))"
proof -
  have lay: "module_layout img bi mr = Some F"
    using mod by (auto simp: hello_module_def split: option.splits)
  have "\<exists>g \<in> set (module_segments img bi mr). p \<in> segment_pages g \<and> f = segment_pte g"
    if "F p = Some f" for p f
    using layout_rule [OF module_layout_Some(1) [OF lay],
        where P = "\<lambda>p f. \<exists>g \<in> set (module_segments img bi mr). p \<in> segment_pages g \<and> f = segment_pte g"]
      that by auto
  then show ?thesis using assms(2) by (auto simp: user_space_def split: if_splits option.splits)
qed

lemma user_index: "unat (v :: u32) div 4194304 = 1 \<longleftrightarrow> 0x00400000 \<le> v \<and> v < 0x00800000"
proof -
  have "unat v = 4194304 * (unat v div 4194304) + unat v mod 4194304" "unat v mod 4194304 < 4194304" by simp_all
  then show ?thesis unfolding word_le_nat_alt word_less_nat_alt by (auto intro!: div_nat_eqI)
qed

text \<open>
  C5: nothing else is reachable. When the kernel has started the user program, then for every
  address of the 32-bit space, walked from the page directory over all its entries, an access in
  user mode either has no translation, or goes to the stack page, which is zero, readable and
  writable and not executable, or to a page of a segment of the module, where it finds the byte
  of the module under the rights of that segment. The stack page is reachable. The kernel's own
  mappings, those of the start-up code and those of the packed image, are closed to it. The tables
  of the start-up code meet the hypothesis on what the kernel finds (\<open>boot_kernel_tables\<close>).
\<close>

theorem hello_user_confined:
  assumes "statics_ok s" and "unat (bi_image_size bi) \<le> length img" and "symbols_ok syms"
    and "arrays_linked syms" and "kernel_tables syms m s"
    and "hello_kernel_main P syms img pointer bi s = (Done user, t)"
  shows "\<exists>mr F. hello_module img bi = Some (mr, F) \<and> (\<forall>v. case user_view syms m t v of
      None \<Rightarrow> \<not> (0x007ff000 \<le> v \<and> v < 0x00800000)
    | Some (p, r) \<Rightarrow>
        0x007ff000 \<le> v \<and> v < 0x00800000 \<and> r = 0x17 \<and> frame_byte syms t p = Some 0
        \<or> 0x00400000 \<le> v \<and> v < 0x007ff000
          \<and> (\<exists>g \<in> set (module_segments img bi mr). page_of v \<in> segment_pages g
              \<and> frame_byte syms t p = Some (module_memory img bi mr v)
              \<and> r = 5 OR pte_flags_from_segment (ms_flags g)))"
proof -
  obtain mr F where mod: "hello_module img bi = Some (mr, F)" "rom_tables bi \<le> 4"
    "user_directory syms bi s t"
    "\<And>v. 0x00400000 \<le> v \<Longrightarrow> v < 0x00800000 \<Longrightarrow> user_walk syms t v = user_space img bi mr F v"
    using hello_main_directory [OF assms(1-3,6)] by blast
  have len: "length (page_directory s) = 1024" using assms(1) by (simp add: statics_ok_def)
  show ?thesis
  proof (intro exI [of _ mr] exI [of _ F] conjI allI mod(1))
    fix v :: u32
    show "case user_view syms m t v of
        None \<Rightarrow> \<not> (0x007ff000 \<le> v \<and> v < 0x00800000)
      | Some (p, r) \<Rightarrow>
        0x007ff000 \<le> v \<and> v < 0x00800000 \<and> r = 0x17 \<and> frame_byte syms t p = Some 0
        \<or> 0x00400000 \<le> v \<and> v < 0x007ff000
          \<and> (\<exists>g \<in> set (module_segments img bi mr). page_of v \<in> segment_pages g
              \<and> frame_byte syms t p = Some (module_memory img bi mr v)
              \<and> r = 5 OR pte_flags_from_segment (ms_flags g))"
    proof (cases "unat v div 4194304 = 1")
      case False
      moreover have "0x007ff000 \<le> v \<Longrightarrow> 0x00400000 \<le> v" by (rule order_trans) simp_all
      ultimately show ?thesis
        using kernel_space_view [OF assms(4) mod(3,2) assms(5) len] unfolding user_index by auto
    next
      case True
      then have user: "0x00400000 \<le> v" "v < 0x00800000" unfolding user_index by simp_all
      note walk = user_space_view [OF assms(4) mod(3) True, of m] mod(4) [OF user]
      have stack: "user_space img bi mr F v = Some (Some 0, 0x17)" if "0x007ff000 \<le> v"
        using that by (simp add: user_space_def)
      have b: "bit (0x17 :: u32) 2" by code_simp
      show ?thesis
      proof (cases "user_view syms m t v")
        case None
        then show ?thesis using walk stack b by auto
      next
        case (Some x)
        obtain p r where x: "x = (p, r)" by (cases x)
        then have "user_space img bi mr F v = Some (frame_byte syms t p, r)" using Some walk by auto
        then show ?thesis using user_space_cases [OF mod(1)] user Some x by auto
      qed
    qed
  qed
qed

text \<open>On the packed image of one module and the tables of the start-up code.\<close>

definition sample_booted :: "unit hello_state" where
  "sample_booted = sample_state\<lparr>page_directory :=
     map (\<lambda>i. minemu_bootstrap_map (\<lambda>_. 0) (0x40010000 + 4 * of_nat i)) [0..<1024]\<rparr>"

lemma sample_booted_statics: "statics_ok sample_booted"
  using sample_statics by (simp add: statics_ok_def sample_booted_def del: upt.simps)

lemma sample_linked: "arrays_linked sample_symbols"
  by (simp add: arrays_linked_def array_frames_def sample_symbols_def kernel_vaddr_to_paddr_def
      page_of_def in_range_def)

lemma sample_kernel_tables: "kernel_tables sample_symbols (minemu_bootstrap_map (\<lambda>_. 0)) sample_booted"
  by (rule boot_kernel_tables [where n = "\<lambda>_. 0"])
    (simp_all add: sample_booted_def array_frames_def sample_symbols_def kernel_vaddr_to_paddr_def del: upt.simps)

theorem hello_user_confined_witness:
  "\<exists>user t. hello_kernel_main sample_platform sample_symbols sample_image 0xc0007000 sample_boot sample_booted
      = (Done user, t)
    \<and> user_view sample_symbols (minemu_bootstrap_map (\<lambda>_. 0)) t 0xc0100000 = None
    \<and> user_view sample_symbols (minemu_bootstrap_map (\<lambda>_. 0)) t 0x08000000 = None
    \<and> user_view sample_symbols (minemu_bootstrap_map (\<lambda>_. 0)) t 0x007ff123 \<noteq> None"
proof -
  let ?view = "user_view sample_symbols (minemu_bootstrap_map (\<lambda>_. 0))"
  obtain user t where t: "hello_kernel_main sample_platform sample_symbols sample_image 0xc0007000 sample_boot sample_booted
      = (Done user, t)"
    using hello_main_entered [OF sample_booted_statics sample_size sample_symbols_ok sample_handoff sample_hello,
      of sample_platform] by blast
  from hello_user_confined [OF sample_booted_statics sample_size sample_symbols_ok sample_linked
      sample_kernel_tables t]
  obtain mr where v: "\<And>v. case ?view t v of
      None \<Rightarrow> \<not> (0x007ff000 \<le> v \<and> v < 0x00800000)
    | Some (p, r) \<Rightarrow>
        0x007ff000 \<le> v \<and> v < 0x00800000 \<and> r = 0x17 \<and> frame_byte sample_symbols t p = Some 0
        \<or> 0x00400000 \<le> v \<and> v < 0x007ff000
          \<and> (\<exists>g \<in> set (module_segments sample_image sample_boot mr). page_of v \<in> segment_pages g
              \<and> frame_byte sample_symbols t p = Some (module_memory sample_image sample_boot mr v)
              \<and> r = 5 OR pte_flags_from_segment (ms_flags g))" by blast
  have "?view t 0xc0100000 = None" using v [of "0xc0100000"] by (auto split: option.splits)
  moreover have "?view t 0x08000000 = None" using v [of "0x08000000"] by (auto split: option.splits)
  moreover have "?view t 0x007ff123 \<noteq> None" using v [of "0x007ff123"] by (auto split: option.splits)
  ultimately show ?thesis using t by blast
qed

end
