(* ===== verification/SwitchLoops.thy ===== *)
theory SwitchLoops
  imports ContextSwitch
begin

text \<open>
  The loops of the context-switch examples: task A is the endless loop of \<^verbatim>\<open>minemu_kernel_main\<close>,
  task B that of \<^verbatim>\<open>task_b\<close>. A loop is compiled to its one instruction, at the head, and the
  branch back behind it; \<^verbatim>\<open>task_b\<close> has no other instruction. With the dispatchers and trampolines
  of \<open>ContextSwitch\<close> this is the whole run of each example.
\<close>

section \<open>The loops\<close>

text \<open>\<^verbatim>\<open>for (;;) { svc #0 }\<close> and \<^verbatim>\<open>for (;;) { nop }\<close>, one instruction at a time.\<close>

definition svc_loop :: "'d platform \<Rightarrow> (nat \<Rightarrow> u32) \<Rightarrow> 'd switch_state handlers \<Rightarrow> u32
    \<Rightarrow> ('d switch_state, unit) cmd" where
  "svc_loop P junk H head s =
     (if pc s = head then deliver P junk H Svc s
      else if pc s = head + 4 then (Done (), s\<lparr>pc := head\<rparr>)
      else (Fault, s))"


abbreviation "in_loop head a \<equiv> a = head \<or> a = head + 4"

text \<open>The functions of the two files; \<open>main_loop\<close> is where the linker puts the loop of the main.\<close>

definition svc_task_b :: "'d platform \<Rightarrow> (nat \<Rightarrow> u32) \<Rightarrow> switch_symbols \<Rightarrow> ('d switch_state, unit) cmd" where
  "svc_task_b P junk S = svc_loop P junk (svc_handlers S) (sym_task_b S)"

definition svc_kernel_main :: "'d platform \<Rightarrow> (nat \<Rightarrow> u32) \<Rightarrow> switch_symbols \<Rightarrow> u32
    \<Rightarrow> ('d switch_state, unit) cmd" where
  "svc_kernel_main P junk S main_loop = svc_loop P junk (svc_handlers S) main_loop"



section \<open>The run of the system-call example\<close>

text \<open>One instruction of whichever task the program counter is in, and a run of \<open>n\<close> of them.\<close>

definition svc_step :: "'d platform \<Rightarrow> (nat \<Rightarrow> u32) \<Rightarrow> switch_symbols \<Rightarrow> u32 \<Rightarrow> ('d switch_state, unit) cmd" where
  "svc_step P junk S main_loop s =
     (if in_loop main_loop (pc s) then svc_kernel_main P junk S main_loop s else svc_task_b P junk S s)"

fun svc_run :: "'d platform \<Rightarrow> (nat \<Rightarrow> u32) \<Rightarrow> switch_symbols \<Rightarrow> u32 \<Rightarrow> nat \<Rightarrow> ('d switch_state, u32 list) cmd" where
  "svc_run P junk S main_loop 0 = ret []"
| "svc_run P junk S main_loop (Suc n) =
     bind (svc_run P junk S main_loop n) (\<lambda>visited.
     bind (gets pc) (\<lambda>a.
     bind (svc_step P junk S main_loop) (\<lambda>_.
     ret (visited @ [a]))))"

text \<open>Where the run is before its \<open>k\<close>-th instruction.\<close>

definition svc_visits :: "switch_symbols \<Rightarrow> u32 \<Rightarrow> nat \<Rightarrow> u32" where
  "svc_visits S main_loop k =
     (if k = 0 then main_loop else if k = 1 then sym_task_b S
      else if even k then main_loop + 4 else main_loop)"

text \<open>The state after two instructions, and that every further one keeps the form.\<close>

definition back_in_a :: "u32 \<Rightarrow> u32 \<Rightarrow> task_context \<Rightarrow> u32 \<Rightarrow> 'd switch_state \<Rightarrow> bool" where
  "back_in_a a_frame b_frame c a t \<longleftrightarrow> a_turn a_frame b_frame t \<and> running_context t = c\<lparr>cx_pc := a\<rparr>"

lemma back_in_a_pc: "back_in_a a_frame b_frame c a t \<Longrightarrow> pc t = a"
  by (cases c) (simp add: back_in_a_def running_context_def)

lemma branch_back:
  assumes "back_in_a a_frame b_frame c (main_loop + 4) t"
  shows "\<exists>u. svc_step P junk S main_loop t = (Done (), u) \<and> back_in_a a_frame b_frame c main_loop u"
proof -
  have "svc_step P junk S main_loop t = (Done (), t\<lparr>pc := main_loop\<rparr>)"
    using back_in_a_pc [OF assms] by (simp add: svc_step_def svc_kernel_main_def svc_loop_def)
  moreover have "back_in_a a_frame b_frame c main_loop (t\<lparr>pc := main_loop\<rparr>)"
    using assms by (cases c) (auto simp: back_in_a_def a_turn_def running_context_def)
  ultimately show ?thesis by blast
qed

lemma call_returns:
  assumes "back_in_a a_frame (sym_task_b_storage S + 936) c main_loop t"
    and "a_frame \<noteq> 0" and "sym_task_b_storage S + 936 \<noteq> 0"
  shows "\<exists>u. svc_step P junk S main_loop t = (Done (), u)
    \<and> back_in_a a_frame (sym_task_b_storage S + 936) c (main_loop + 4) u"
proof -
  have pc: "pc t = main_loop" by (rule back_in_a_pc [OF assms(1)])
  have "a_turn a_frame (sym_task_b_storage S + 936) t" using assms(1) by (simp add: back_in_a_def)
  from svc_switch.a_turn_stays [OF this assms(2,3), of P junk] obtain u where
    u: "deliver P junk (svc_handlers S) Svc t = (Done (), u)" "a_turn a_frame (sym_task_b_storage S + 936) u"
      "running_context u = frame_context 0 (trap_frame_of Svc (claimed_of P t) t)" by auto
  have "frame_context 0 (trap_frame_of Svc (claimed_of P t) t) = (running_context t)\<lparr>cx_pc := main_loop + 4\<rparr>"
    using pc by (simp add: frame_context_def trap_frame_of_def running_context_def)
  with u assms(1) pc show ?thesis
    by (auto simp: back_in_a_def svc_step_def svc_kernel_main_def svc_loop_def)
qed

text \<open>The first two calls: A's starts B, and B's resumes A behind its call.\<close>

lemma first_calls:
  assumes "first_turn a_frame (sym_task_b_storage S + 936) s"
    and "frames_apart a_frame (sym_task_b_storage S + 936)"
    and "a_frame \<noteq> 0" and "sym_task_b_storage S + 936 \<noteq> 0"
    and "pc s = main_loop" and "\<not> in_loop main_loop (sym_task_b S)"
  shows "\<exists>t u. svc_step P junk S main_loop s = (Done (), t) \<and> pc t = sym_task_b S
    \<and> svc_step P junk S main_loop t = (Done (), u)
    \<and> back_in_a a_frame (sym_task_b_storage S + 936) (running_context s) (main_loop + 4) u"
proof -
  let ?b = "sym_task_b_storage S + 936"
  have A: "svc_step P junk S main_loop s = deliver P junk (svc_handlers S) Svc s"
    using assms(5) by (simp add: svc_step_def svc_kernel_main_def svc_loop_def)
  from svc_switch.switch_round [OF assms(1-4), of P junk] obtain t where
    t: "deliver P junk (svc_handlers S) Svc s = (Done (), t)" "b_turn a_frame ?b t"
      "running_context t = frame_context 0 (fresh_frame (sym_task_b S) (tf_spsr (trap_frame_of Svc (claimed_of P s) s)) (- 3))"
      "\<And>u. task_runs a_frame ?b t u \<Longrightarrow> \<exists>v. deliver P junk (svc_handlers S) Svc u = (Done (), v)
          \<and> a_turn a_frame ?b v \<and> running_context v = frame_context 0 (trap_frame_of Svc (claimed_of P s) s)"
    by auto
  have pc: "pc t = sym_task_b S"
    using arg_cong [where f = cx_pc, OF t(3)] by (simp add: running_context_def frame_context_def fresh_frame_def)
  then have B: "svc_step P junk S main_loop t = deliver P junk (svc_handlers S) Svc t"
    using assms(6) by (simp add: svc_step_def svc_task_b_def svc_loop_def)
  have "task_runs a_frame ?b t t" using t(2) by (simp add: task_runs_def b_turn_def)
  from t(4) [OF this] obtain u where
    u: "deliver P junk (svc_handlers S) Svc t = (Done (), u)" "a_turn a_frame ?b u"
      "running_context u = frame_context 0 (trap_frame_of Svc (claimed_of P s) s)" by blast
  have "frame_context 0 (trap_frame_of Svc (claimed_of P s) s) = (running_context s)\<lparr>cx_pc := main_loop + 4\<rparr>"
    using assms(5) by (simp add: frame_context_def trap_frame_of_def running_context_def)
  with A B t(1) pc u show ?thesis by (auto simp: back_in_a_def)
qed

lemma svc_run_Suc:
  assumes "svc_run P junk S main_loop n s = (Done vs, t)" and "svc_step P junk S main_loop t = (Done (), u)"
  shows "svc_run P junk S main_loop (Suc n) s = (Done (vs @ [pc t]), u)"
  using assms by (simp add: bind_def gets_def ret_def)

lemma visits_later:
  "svc_visits S main_loop (Suc (Suc k)) = (if even k then main_loop + 4 else main_loop)"
  by (simp add: svc_visits_def)

text \<open>
  C21: the whole run of the system-call example, from the first instruction of the main's loop: task
  A calls, task B calls once, and from then on only task A runs, always with its own registers; no
  number of instructions leads out of the two loops.
\<close>

theorem svc_example_visits:
  assumes "first_turn a_frame (sym_task_b_storage S + 936) s"
    and "frames_apart a_frame (sym_task_b_storage S + 936)"
    and "a_frame \<noteq> 0" and "sym_task_b_storage S + 936 \<noteq> 0"
    and "pc s = main_loop" and "\<not> in_loop main_loop (sym_task_b S)"
  shows "\<exists>t. svc_run P junk S main_loop n s = (Done (map (svc_visits S main_loop) [0..<n]), t)
    \<and> pc t = svc_visits S main_loop n
    \<and> (n \<noteq> 1 \<longrightarrow> running_context t = (running_context s)\<lparr>cx_pc := svc_visits S main_loop n\<rparr>)"
proof -
  let ?b = "sym_task_b_storage S + 936" and ?run = "svc_run P junk S main_loop"
  let ?in_a = "back_in_a a_frame ?b (running_context s)"
  from first_calls [OF assms, of P junk] obtain t u where
    tu: "svc_step P junk S main_loop s = (Done (), t)" "pc t = sym_task_b S"
      "svc_step P junk S main_loop t = (Done (), u)" "?in_a (main_loop + 4) u" by blast
  have zero: "?run 0 s = (Done [], s)" by (simp add: ret_def)
  note one = svc_run_Suc [OF zero tu(1)]
  note two = svc_run_Suc [OF one tu(3)]
  have later: "\<exists>v. ?run (Suc (Suc k)) s = (Done (map (svc_visits S main_loop) [0..<Suc (Suc k)]), v)
      \<and> ?in_a (svc_visits S main_loop (Suc (Suc k))) v" for k
  proof (induction k)
    case 0
    have "map (svc_visits S main_loop) [0..<Suc (Suc 0)] = [main_loop, sym_task_b S]"
      by (simp add: svc_visits_def)
    with two tu(2,4) assms(5) show ?case by (simp add: visits_later del: svc_run.simps upt_Suc)
  next
    case (Suc k)
    then obtain v where v: "?run (Suc (Suc k)) s = (Done (map (svc_visits S main_loop) [0..<Suc (Suc k)]), v)"
      "?in_a (svc_visits S main_loop (Suc (Suc k))) v" by blast
    have "\<exists>w. svc_step P junk S main_loop v = (Done (), w)
        \<and> ?in_a (svc_visits S main_loop (Suc (Suc (Suc k)))) w"
      using v(2) branch_back [of a_frame ?b "running_context s" main_loop v P junk S]
        call_returns [of a_frame S "running_context s" main_loop v P junk, OF _ assms(3,4)]
      by (cases "even k") (simp_all add: visits_later)
    then obtain w where w: "svc_step P junk S main_loop v = (Done (), w)"
      "?in_a (svc_visits S main_loop (Suc (Suc (Suc k)))) w" by blast
    from svc_run_Suc [OF v(1) w(1)] back_in_a_pc [OF v(2)] w(2) show ?case
      by (simp del: svc_run.simps)
  qed
  consider "n = 0" | "n = 1" | k where "n = Suc (Suc k)" by (cases n; cases "n - 1") auto
  then show ?thesis
  proof cases
    case 1
    with assms(5) show ?thesis by (simp add: ret_def svc_visits_def running_context_def)
  next
    case 2
    with one tu(2) assms(5) show ?thesis by (simp add: svc_visits_def del: svc_run.simps)
  next
    case 3
    with later [of k] show ?thesis
      by (auto simp: back_in_a_pc back_in_a_def dest: back_in_a_pc simp del: svc_run.simps upt_Suc)
  qed
qed

theorem svc_example_visits_witness:
  "\<exists>t. svc_run quiet (\<lambda>n. 7) sample_switch 0xc0001000 6 sample_tasks =
    (Done [0xc0001000, 0xc0001200, 0xc0001004, 0xc0001000, 0xc0001004, 0xc0001000], t)"
proof -
  have "map (svc_visits sample_switch 0xc0001000) [0..<6] =
      [0xc0001000, 0xc0001200, 0xc0001004, 0xc0001000, 0xc0001004, 0xc0001000]"
    by (simp add: upt_rec svc_visits_def sample_switch_def)
  then show ?thesis
    using svc_example_visits [of "0xc0002fa8" sample_switch sample_tasks "0xc0001000" quiet "\<lambda>n. 7" 6]
      sample_turns(3,4)
    by (auto simp: sample_switch_def sample_tasks_def)
qed

section \<open>The run of the interrupt example\<close>







lemma moved_context [simp]: "running_context (s\<lparr>pc := a\<rparr>) = (running_context s)\<lparr>cx_pc := a\<rparr>"
  by (simp add: running_context_def)

lemma moved_turns [simp]:
  "first_turn a_frame b_frame (s\<lparr>pc := a\<rparr>) = first_turn a_frame b_frame s"
  "b_turn a_frame b_frame (s\<lparr>pc := a\<rparr>) = b_turn a_frame b_frame s"
  "a_turn a_frame b_frame (s\<lparr>pc := a\<rparr>) = a_turn a_frame b_frame s"
  by (simp_all add: turn_defs)











end
