(* ===== verification/Trampolines.thy ===== *)
theory Trampolines
  imports Trap
begin

text \<open>
  Every program that handles system calls or interrupts brings its own trampoline file. The
  copies of the user-mode example (\<^verbatim>\<open>svc.S\<close>) and of the interrupt and exception cases (\<^verbatim>\<open>irq.S\<close>,
  \<^verbatim>\<open>trampolines.S\<close>) are transcribed here one by one, as the flat sequence of their instructions, and
  shown to be the trampolines of \<open>Trap\<close>, so that what is proved of those holds of each program.
\<close>

section \<open>The copies\<close>

text \<open>\<^verbatim>\<open>examples/user-mode-hello/kernel/svc.S\<close>\<close>

definition hello_svc_trampoline :: "(nat \<Rightarrow> u32) \<Rightarrow> (u32 \<Rightarrow> (('d, 'z) processor_scheme, u32) cmd)
    \<Rightarrow> (('d, 'z) processor_scheme, unit) cmd" where
  "hello_svc_trampoline junk minemu_svc_dispatch = block
    [add_sp (- 88), stm_gpr, str_lr 52, mov 1 exc_spsr, str 1 56, mov 1 (\<lambda>s. - 3),
     str 1 60, mov 1 (\<lambda>s. exc_lr s - 4), str 1 64, mov 1 (\<lambda>s. 0), str 1 68,
     str 1 72, mov 1 (\<lambda>s. exc_sp s + 76), stm_usr 1, mov 1 (\<lambda>s. 0), str 1 84,
     mov 0 exc_sp, bl junk minemu_svc_dispatch, mov_sp_r0, ldr_lr 52,
     mov 1 (\<lambda>s. ram s (exc_sp s + 56)), msr_spsr 1, mov 1 (\<lambda>s. exc_sp s + 76),
     ldm_usr 1, ldm_gpr, add_sp 88, subs_pc_lr 0]"

text \<open>\<^verbatim>\<open>headless/interrupts/irq.S\<close>\<close>

definition intr_irq_trampoline :: "'d platform \<Rightarrow> (nat \<Rightarrow> u32)
    \<Rightarrow> (u32 \<Rightarrow> (('d, 'z) processor_scheme, u32) cmd) \<Rightarrow> (('d, 'z) processor_scheme, unit) cmd" where
  "intr_irq_trampoline P junk minemu_irq_dispatch = block
    [add_sp (- 88), stm_gpr, str_lr 52, mov 1 exc_spsr, str 1 56, mov 1 (\<lambda>s. 0x10000000),
     ldr_device P 1 8, str 1 60, mov 1 (\<lambda>s. exc_lr s - 4), str 1 64,
     mov 1 (\<lambda>s. 0), str 1 68, str 1 72, mov 1 (\<lambda>s. exc_sp s + 76), stm_usr 1,
     mov 1 (\<lambda>s. 0), str 1 84, mov 0 exc_sp, bl junk minemu_irq_dispatch, mov_sp_r0,
     ldr_lr 52, mov 1 (\<lambda>s. ram s (exc_sp s + 56)), msr_spsr 1,
     mov 1 (\<lambda>s. exc_sp s + 76), ldm_usr 1, ldm_gpr, add_sp 88, subs_pc_lr 4]"

text \<open>\<^verbatim>\<open>headless/exceptions/trampolines.S\<close>\<close>

definition exc_svc_trampoline :: "(nat \<Rightarrow> u32) \<Rightarrow> (u32 \<Rightarrow> (('d, 'z) processor_scheme, u32) cmd)
    \<Rightarrow> (('d, 'z) processor_scheme, unit) cmd" where
  "exc_svc_trampoline junk minemu_svc_dispatch = block
    [add_sp (- 88), stm_gpr, str_lr 52, mov 1 exc_spsr, str 1 56, mov 1 (\<lambda>s. - 3),
     str 1 60, mov 1 (\<lambda>s. exc_lr s - 4), str 1 64, mov 1 (\<lambda>s. 0), str 1 68,
     str 1 72, mov 1 (\<lambda>s. exc_sp s + 76), stm_usr 1, mov 1 (\<lambda>s. 0), str 1 84,
     mov 0 exc_sp, bl junk minemu_svc_dispatch, mov_sp_r0, ldr_lr 52,
     mov 1 (\<lambda>s. ram s (exc_sp s + 56)), msr_spsr 1, mov 1 (\<lambda>s. exc_sp s + 76),
     ldm_usr 1, ldm_gpr, add_sp 88, subs_pc_lr 0]"

definition exc_irq_trampoline :: "'d platform \<Rightarrow> (nat \<Rightarrow> u32)
    \<Rightarrow> (u32 \<Rightarrow> (('d, 'z) processor_scheme, u32) cmd) \<Rightarrow> (('d, 'z) processor_scheme, unit) cmd" where
  "exc_irq_trampoline P junk minemu_irq_dispatch = block
    [add_sp (- 88), stm_gpr, str_lr 52, mov 1 exc_spsr, str 1 56, mov 1 (\<lambda>s. 0x10000000),
     ldr_device P 1 8, str 1 60, mov 1 (\<lambda>s. exc_lr s - 4), str 1 64,
     mov 1 (\<lambda>s. 0), str 1 68, str 1 72, mov 1 (\<lambda>s. exc_sp s + 76), stm_usr 1,
     mov 1 (\<lambda>s. 0), str 1 84, mov 0 exc_sp, bl junk minemu_irq_dispatch, mov_sp_r0,
     ldr_lr 52, mov 1 (\<lambda>s. ram s (exc_sp s + 56)), msr_spsr 1,
     mov 1 (\<lambda>s. exc_sp s + 76), ldm_usr 1, ldm_gpr, add_sp 88, subs_pc_lr 4]"

section \<open>They are the same programs\<close>

lemmas flat_code = block.simps append.simps bind_bind bind_ret_fun

theorem trampoline_copies:
  "hello_svc_trampoline = minemu_svc_trampoline" "exc_svc_trampoline = minemu_svc_trampoline"
  "intr_irq_trampoline = minemu_irq_trampoline" "exc_irq_trampoline = minemu_irq_trampoline"
  by ((rule ext)+, simp only: hello_svc_trampoline_def exc_svc_trampoline_def minemu_svc_trampoline_def
      intr_irq_trampoline_def exc_irq_trampoline_def minemu_irq_trampoline_def save_frame_def
      restore_frame_def flat_code)+

text \<open>The vector table enters them.\<close>

lemma vector_copies:
  "minemu_vectors P junk H Svc = hello_svc_trampoline junk (on_svc H)"
  "minemu_vectors P junk H Svc = exc_svc_trampoline junk (on_svc H)"
  "minemu_vectors P junk H Irq = intr_irq_trampoline P junk (on_irq H)"
  "minemu_vectors P junk H Irq = exc_irq_trampoline P junk (on_irq H)"
  by (simp_all add: trampoline_copies)

end
