(* ===== verification/BootReset.thy ===== *)
theory BootReset
  imports Bootloader Runtime
begin

text \<open>
  The reset code of the Boot ROM (\<^verbatim>\<open>bootloader/src/start.S\<close>): the vector table at address zero, the
  code that sets the mode and the stack, and \<open>boot_main\<close> running on that stack.
\<close>

record rom_cpu =
  rom_psr :: u32
  rom_sp :: u32
  rom_memory :: mem

section \<open>The loader on its stack\<close>

text \<open>
  The page below the boot record is the loader's stack. What the compiled code keeps in it is open:
  between any two steps of the loader it may hold anything, the memories \<open>spills\<close>.
\<close>

definition in_stack :: "u32 \<Rightarrow> bool" where
  "in_stack a \<longleftrightarrow> in_range 0x40006000 4096 a"

definition with_stack :: "mem \<Rightarrow> mem \<Rightarrow> mem" where
  "with_stack st m = (\<lambda>a. if in_stack a then st a else m a)"

definition spill :: "mem \<Rightarrow> (rom_cpu, unit) cmd" where
  "spill st = modify (\<lambda>s. s\<lparr>rom_memory := with_stack st (rom_memory s)\<rparr>)"

text \<open>A segment loaded over the stack would destroy the frame of the loader: a fault.\<close>

definition covers_stack :: "mem \<Rightarrow> u32 \<Rightarrow> bool" where
  "covers_stack m rec =
     (let destination = read_u32 (rec + 0x04) m; memory_size = read_u32 (rec + 0x10) m in
      memory_size \<noteq> 0 \<and> (in_stack destination \<or> in_range destination memory_size 0x40006000))"

definition load_segment_at :: "u32 \<Rightarrow> (rom_cpu, unit) cmd" where
  "load_segment_at rec s =
     (if covers_stack (rom_memory s) rec then (Fault, s)
      else (Done (), s\<lparr>rom_memory := load_kernel_segment rec (rom_memory s)\<rparr>))"

definition rom_word :: "u32 \<Rightarrow> (rom_cpu, u32) cmd" where
  "rom_word offset = gets (\<lambda>s. read_u32 (0x08000000 + offset) (rom_memory s))"

definition b_boot_main :: "(nat \<Rightarrow> mem) \<Rightarrow> (rom_cpu, bootstrap_jump) cmd" where
  "b_boot_main spills =
     bind (spill (spills 0)) (\<lambda>_.
     bind (rom_word 0x08) (\<lambda>image_size.
     bind (rom_word 0x0c) (\<lambda>kernel_table.
     bind (rom_word 0x10) (\<lambda>kernel_count.
     bind (for_cmd (\<lambda>index.
             bind (load_segment_at (0x08000000 + kernel_table + index * 32)) (\<lambda>_.
             bind (spill (spills (Suc (unat index)))) (\<lambda>_.
             ret (None :: unit option)))) 0 kernel_count) (\<lambda>_.
     bind (rom_word 0x14) (\<lambda>module_table.
     bind (rom_word 0x18) (\<lambda>module_count.
     bind (modify (\<lambda>s. s\<lparr>rom_memory := write_boot_info image_size module_table module_count (rom_memory s)\<rparr>)) (\<lambda>_.
     bind (spill (spills (Suc (unat kernel_count)))) (\<lambda>_.
     bind (rom_word 0x1c) (\<lambda>entry.
     ret \<lparr> entry = entry, argument = 0xc0007000 \<rparr>))))))))))"

section \<open>The reset code\<close>

text \<open>\<^verbatim>\<open>msr cpsr_c, #v\<close> writes the control byte of the status word.\<close>

definition msr_cpsr_c :: "u32 \<Rightarrow> (rom_cpu, unit) cmd" where
  "msr_cpsr_c v = modify (\<lambda>s. s\<lparr>rom_psr := (rom_psr s AND NOT 0xff) OR v\<rparr>)"

definition reset :: "(nat \<Rightarrow> mem) \<Rightarrow> (rom_cpu, bootstrap_jump) cmd" where
  "reset spills =
     bind (msr_cpsr_c 0xd3) (\<lambda>_.
     bind (modify (\<lambda>s. s\<lparr>rom_sp := 0x40007000\<rparr>)) (\<lambda>_.
     b_boot_main spills))"

definition rom_fail_stop :: "(rom_cpu, bootstrap_jump) cmd" where
  "rom_fail_stop = minemu_fail_stop"

text \<open>The eight slots of the table; the processor starts in the first.\<close>

definition start_vectors :: "(nat \<Rightarrow> mem) \<Rightarrow> (rom_cpu, bootstrap_jump) cmd list" where
  "start_vectors spills = [reset spills, rom_fail_stop, rom_fail_stop, rom_fail_stop, rom_fail_stop,
     rom_fail_stop, rom_fail_stop, rom_fail_stop]"

section \<open>The stack does not disturb the loader\<close>

definition off_stack :: "mem \<Rightarrow> mem \<Rightarrow> bool" where
  "off_stack m m' \<longleftrightarrow> (\<forall>a. \<not> in_stack a \<longrightarrow> m a = m' a)"

lemma rom_not_stack: "in_rom a 1 \<Longrightarrow> \<not> in_stack a"
proof -
  assume a: "in_rom a 1"
  have "no_wrap 0x40006000 4096" by (simp add: no_wrap_def)
  from in_range_no_wrap [OF this, of a] a show ?thesis by (simp add: in_rom_def in_stack_def)
qed

lemma bind_spill: "bind (spill st) f s = f () (s\<lparr>rom_memory := with_stack st (rom_memory s)\<rparr>)"
  by (simp add: spill_def bind_modify)

lemma with_stack_off: "off_stack m m' \<Longrightarrow> off_stack (with_stack st m) m'"
  by (simp add: off_stack_def with_stack_def)

lemma with_stack_rom: "same_rom rom m \<Longrightarrow> same_rom rom (with_stack st m)"
  using rom_not_stack by (simp add: same_rom_def with_stack_def)

lemma overlay_off: "off_stack m m' \<Longrightarrow> off_stack (overlay g m) (overlay g m')"
  by (simp add: off_stack_def overlay_def)

lemma write_boot_info_rom:
  assumes "same_rom rom m"
  shows "same_rom rom (write_boot_info i t c m)"
  unfolding same_rom_def
proof (intro allI impI)
  fix a assume a: "in_rom a 1"
  have "no_wrap 0x40007000 64" by (simp add: no_wrap_def)
  from in_range_no_wrap [OF this, of a] a have "\<not> in_range 0x40007000 64 a" by (simp add: in_rom_def)
  then show "write_boot_info i t c m a = rom a"
    using assms a by (simp add: write_boot_info_outside same_rom_def)
qed

text \<open>The boot record written over either memory is the same.\<close>

lemma write_boot_info_off:
  assumes "off_stack m m'"
  shows "off_stack (write_boot_info i t c m) (write_boot_info i t c m')"
proof -
  have z: "off_stack (zero_bytes p n m) (zero_bytes p n m')" for p n
    using assms by (simp add: off_stack_def zero_bytes_eq)
  have w: "off_stack (write_u32 p v u) (write_u32 p v u')" "off_stack (write_u16 p w u) (write_u16 p w u')"
    if "off_stack u u'" for p v w u u'
    using that by (simp_all add: off_stack_def write_u32_def write_u16_def)
  show ?thesis
    unfolding write_boot_info_def Let_def by (intro w z)
qed

text \<open>The words of the image header, and a segment record, are read from the ROM.\<close>

lemma header_word:
  assumes "same_rom rom m" and "unat offset + 4 \<le> 32"
  shows "read_u32 (0x08000000 + offset) m = read_u32 (0x08000000 + offset) rom"
  using assms by (intro read_u32_rom [where n = 32]) (simp_all add: in_rom_def)

lemma covers_stack_rom:
  assumes "same_rom rom m" and "segment_ok rom rec"
  shows "covers_stack m rec = covers_stack rom rec"
proof -
  have "in_rom rec 32" using assms(2) by (simp add: segment_ok_def Let_def)
  note rd = read_u32_rom [OF assms(1) this]
  show ?thesis using rd [of 4] rd [of 16] by (simp add: covers_stack_def)
qed

text \<open>The loop: off the stack the memory is that of the segments loaded so far.\<close>

lemma boot_segments:
  assumes packed: "packed_image rom" and clear: "\<And>r. r \<in> set (kernel_records rom) \<Longrightarrow> \<not> covers_stack rom r"
    and start: "same_rom rom (rom_memory s)" "off_stack (rom_memory s) rom"
  defines "table \<equiv> read_u32 0x0800000c rom" and "count \<equiv> read_u32 0x08000010 rom"
  shows "\<exists>m. for_cmd (\<lambda>index.
      bind (load_segment_at (0x08000000 + table + index * 32)) (\<lambda>_.
      bind (spill (spills (Suc (unat index)))) (\<lambda>_. ret (None :: unit option)))) 0 count s =
        (Done None, s\<lparr>rom_memory := m\<rparr>)
    \<and> same_rom rom m \<and> off_stack m (loaded_image rom)"
    (is "\<exists>m. for_cmd ?body _ _ _ = _ \<and> _")
proof -
  let ?rs = "kernel_records rom"
  let ?L = "\<lambda>k. fold overlay (map (kernel_segment rom) (take k ?rs)) rom"
  let ?I = "\<lambda>(k :: u32) t. \<exists>m. t = s\<lparr>rom_memory := m\<rparr> \<and> same_rom rom m \<and> off_stack m (?L (unat k))"
  have len: "length ?rs = unat count" by (simp add: kernel_records_def count_def)
  have "\<exists>t. for_cmd ?body 0 count s = (Done None, t) \<and> ?I count t"
  proof (rule for_cmd_total [where I = ?I])
    show "?I 0 s" using start by (intro exI [of _ "rom_memory s"]) simp
  next
    fix k :: u32 and t
    assume k: "k < count" and "?I k t"
    then obtain m where m: "t = s\<lparr>rom_memory := m\<rparr>" "same_rom rom m" "off_stack m (?L (unat k))" by blast
    let ?r = "0x08000000 + table + k * 32"
    have kn: "unat k < length ?rs" using k len by (simp add: word_less_nat_alt)
    then have r: "?rs ! unat k = ?r" by (simp add: kernel_records_def table_def)
    then have mem: "?r \<in> set ?rs" using kn by (metis nth_mem)
    then have ok: "segment_ok rom ?r" using packed by (simp add: packed_image_def list_all_iff)
    let ?m = "with_stack (spills (Suc (unat k))) (overlay (kernel_segment rom ?r) m)"
    have "load_kernel_segment ?r m = overlay (kernel_segment rom ?r) m"
      by (rule load_kernel_segment_overlay [OF ok m(2)])
    moreover from this have "same_rom rom (overlay (kernel_segment rom ?r) m)"
      using load_kernel_segment_rom [OF ok m(2)] by simp
    moreover have "\<not> covers_stack m ?r" using clear [OF mem] covers_stack_rom [OF m(2) ok] by simp
    moreover have "?L (Suc (unat k)) = overlay (kernel_segment rom ?r) (?L (unat k))"
      using kn r by (simp add: take_Suc_conv_app_nth)
    ultimately show "\<exists>u. ?body k t = (Done None, u) \<and> ?I (k + 1) u"
      using m(1,3) unat_Suc_u32 [OF k]
      by (intro exI [of _ "s\<lparr>rom_memory := ?m\<rparr>"] conjI exI [of _ ?m])
        (simp_all add: bind_def load_segment_at_def spill_def modify_def ret_def with_stack_rom
          with_stack_off overlay_off)
  qed simp_all
  then show ?thesis using len by (auto simp: loaded_image_def)
qed

text \<open>The refinement: on its stack the loader computes what \<open>boot_main\<close> computes.\<close>

lemma boot_on_stack:
  assumes packed: "packed_image (rom_memory s)"
    and clear: "\<And>r. r \<in> set (kernel_records (rom_memory s)) \<Longrightarrow> \<not> covers_stack (rom_memory s) r"
  shows "\<exists>m. b_boot_main spills s = (Done (fst (boot_main (rom_memory s))), s\<lparr>rom_memory := m\<rparr>)
    \<and> off_stack m (snd (boot_main (rom_memory s)))"
proof -
  let ?rom = "rom_memory s"
  let ?s = "s\<lparr>rom_memory := with_stack (spills 0) ?rom\<rparr>"
  have r0: "same_rom ?rom (with_stack (spills 0) ?rom)" by (rule with_stack_rom) simp
  have o0: "off_stack (with_stack (spills 0) ?rom) ?rom" by (rule with_stack_off) (simp add: off_stack_def)
  let ?loop = "for_cmd (\<lambda>index.
      bind (load_segment_at (0x08000000 + read_u32 0x0800000c ?rom + index * 32)) (\<lambda>_.
      bind (spill (spills (Suc (unat index)))) (\<lambda>_. ret (None :: unit option)))) 0
        (read_u32 0x08000010 ?rom)"
  obtain m where m: "?loop ?s = (Done None, ?s\<lparr>rom_memory := m\<rparr>)"
    "same_rom ?rom m" "off_stack m (loaded_image ?rom)"
    using boot_segments [OF packed clear, of ?s spills] r0 o0 by auto
  let ?w = "with_stack (spills (Suc (unat (read_u32 0x08000010 ?rom))))
      (write_boot_info (read_u32 0x08000008 ?rom) (read_u32 0x08000014 ?rom) (read_u32 0x08000018 ?rom) m)"
  have rw: "same_rom ?rom ?w" using m(2) by (intro with_stack_rom write_boot_info_rom)
  have "b_boot_main spills s =
      (Done \<lparr> entry = read_u32 0x0800001c ?rom, argument = 0xc0007000 \<rparr>, s\<lparr>rom_memory := ?w\<rparr>)"
    using header_word [OF r0, of 8] header_word [OF r0, of 12] header_word [OF r0, of 16]
      header_word [OF m(2), of 20] header_word [OF m(2), of 24] header_word [OF rw, of 28]
    by (simp add: b_boot_main_def bind_spill rom_word_def cmd_simps bind_Done [where c = ?loop and s = ?s, OF m(1)])
  moreover have "off_stack ?w (snd (boot_main ?rom))"
    using m(3) by (simp add: boot_main_result [OF packed] with_stack_off write_boot_info_off)
  ultimately show ?thesis by (auto simp: boot_main_result [OF packed])
qed

text \<open>
  C31: from reset the loader runs in supervisor mode with interrupts masked, on the page below the
  boot record, whatever it keeps there. When no kernel segment covers that page it ends with the
  jump of \<open>boot_main\<close>, every address off the page holds what \<open>boot_main\<close> gives it, and the Boot
  ROM has written nothing but the kernel segments, the boot record and its stack page.
\<close>

theorem boot_rom_confined:
  assumes "packed_image (rom_memory s)"
    and "\<And>r. r \<in> set (kernel_records (rom_memory s)) \<Longrightarrow> \<not> covers_stack (rom_memory s) r"
  shows "\<exists>t. (start_vectors spills ! 0) s = (Done (fst (boot_main (rom_memory s))), t)
    \<and> rom_sp t = 0x40007000 \<and> rom_psr t AND 0x1f = 0x13 \<and> bit (rom_psr t) 7 \<and> bit (rom_psr t) 6
    \<and> (\<forall>a. \<not> in_range 0x40006000 4096 a \<longrightarrow> rom_memory t a = snd (boot_main (rom_memory s)) a)
    \<and> (\<forall>a. \<not> in_range 0x40006000 4096 a \<longrightarrow> \<not> in_range 0x40007000 64 a \<longrightarrow>
        (\<forall>r \<in> set (kernel_records (rom_memory s)).
           \<not> in_range (read_u32 (r + 0x04) (rom_memory s)) (read_u32 (r + 0x10) (rom_memory s)) a) \<longrightarrow>
        rom_memory t a = rom_memory s a)"
proof -
  let ?s = "s\<lparr>rom_psr := (rom_psr s AND NOT 0xff) OR 0xd3, rom_sp := 0x40007000\<rparr>"
  obtain m where m: "b_boot_main spills ?s = (Done (fst (boot_main (rom_memory s))), ?s\<lparr>rom_memory := m\<rparr>)"
    "off_stack m (snd (boot_main (rom_memory s)))"
    using boot_on_stack [of ?s spills] assms by auto
  have psr: "((x AND NOT 0xff) OR 0xd3) AND 0x1f = (0x13 :: u32)" for x
    by (simp add: bit.conj_disj_distrib2 and.assoc)
  have "(start_vectors spills ! 0) s = (Done (fst (boot_main (rom_memory s))), ?s\<lparr>rom_memory := m\<rparr>)"
    using m(1) by (simp add: start_vectors_def reset_def msr_cpsr_c_def cmd_simps)
  then show ?thesis
    using m(2) psr boot_main_outside [OF assms(1)]
    by (intro exI [of _ "?s\<lparr>rom_memory := m\<rparr>"]) (simp add: off_stack_def in_stack_def bit_simps)
qed

theorem boot_rom_confined_witness:
  "\<exists>t. (start_vectors (\<lambda>n a. 0xaa) ! 0) \<lparr> rom_psr = 0, rom_sp = 0, rom_memory = sample_rom \<rparr> =
      (Done \<lparr> entry = 0x40008000, argument = 0xc0007000 \<rparr>, t)
    \<and> rom_memory t 0x40008008 = 0xee \<and> rom_memory t 0x40007040 = 0xee"
proof -
  let ?s = "\<lparr> rom_psr = 0, rom_sp = 0, rom_memory = sample_rom \<rparr>"
  have 1: "packed_image (rom_memory ?s)" by (simp add: sample_packed)
  have 2: "\<not> covers_stack (rom_memory ?s) r" if "r \<in> set (kernel_records (rom_memory ?s))" for r
    using that by (simp add: sample_records sample_fields covers_stack_def in_stack_def in_range_def)
  have j: "fst (boot_main sample_rom) = \<lparr> entry = 0x40008000, argument = 0xc0007000 \<rparr>"
    by (simp add: boot_main_result [OF sample_packed] sample_fields)
  have b: "sample_rom 0x40008008 = 0xee" "sample_rom 0x40007040 = 0xee" by code_simp+
  from boot_rom_confined [OF 1 2, of "\<lambda>n a. 0xaa"] obtain t where
    "(start_vectors (\<lambda>n a. 0xaa) ! 0) ?s = (Done (fst (boot_main sample_rom)), t)"
    "\<And>a. \<not> in_range 0x40006000 4096 a \<Longrightarrow> \<not> in_range 0x40007000 64 a \<Longrightarrow>
       \<forall>r \<in> set (kernel_records sample_rom). \<not> in_range (read_u32 (r + 0x04) sample_rom) (read_u32 (r + 0x10) sample_rom) a
       \<Longrightarrow> rom_memory t a = sample_rom a" by auto
  then show ?thesis
    using b by (intro exI [of _ t]) (simp add: j sample_records sample_fields in_range_def)
qed

text \<open>Every exception during the boot stops.\<close>

lemma rom_vectors_stop:
  assumes "0 < k" and "k < 8"
  shows "(start_vectors spills ! k) s = (FailStop, s)"
  using assms by (auto simp: start_vectors_def rom_fail_stop_def minemu_fail_stop_def nth_Cons'
      less_Suc_eq numeral_eq_Suc)

end
