(* ===== verification/Spec2Isabelle.thy ===== *)
theory Spec2Isabelle
  imports Memory Bootloader KernelCore Block BootChain ContextSwitch Bootstrap BlockCase HelloUser TtbrCase
    MmuCase InterruptCase ExceptionMain HelloTypes HelloConfine SwitchLoops Trampolines BootReset
begin

text \<open>
  A verification of the minemu test repository: the Boot ROM, the baseline kernel library, the
  example programs and the device conformance cases.

  \<^bold>\<open>The program.\<close> After reset the Boot ROM (\<^verbatim>\<open>bootloader/src/boot.c\<close>) reads the packed image in the
  system ROM, installs the kernel segments in RAM, writes the boot record and jumps to the
  kernel's bootstrap (\<^verbatim>\<open>kernel/src/startup/boot.S\<close>), which builds page tables, sets the mode
  stacks, turns the MMU on and calls \<^verbatim>\<open>minemu_kernel_main\<close>. There is one such main per program: the
  baseline kernel (\<^verbatim>\<open>kernel/src/core/main.c\<close>), the examples under \<^verbatim>\<open>examples/\<close> and the conformance cases
  under \<^verbatim>\<open>headless/\<close>. Exceptions enter through the vector table (\<^verbatim>\<open>vectors.S\<close>) and the trampolines,
  which build a trap frame and call a C dispatcher. Programs talk to the devices through volatile
  registers and report on the trace port.

  \<^bold>\<open>How it is modelled.\<close> Memory of the Boot ROM and of the C library is a flat byte map; code that
  runs with exceptions works on a map of 32-bit words. A stateful C function is a command, a
  function from a state to an outcome and a state (\<open>Machine\<close>); the outcomes are a value, the
  endless fail-stop loop, a fault and running out of fuel. Machine integers are 32-bit words with
  their wrap-around. The devices are no part of the repository: a \<open>platform\<close> argument says what a
  register answers and how an access changes the device state, and every volatile access is logged
  in order. Where a theorem relies on a device, the register contract is a hypothesis with a
  concrete device that keeps it.

  \<^bold>\<open>Theories and what they show.\<close>
  \<^item> \<open>Prelude\<close>: words, ranges that may wrap, pages, the counted C loop, the overlay of loadable
    segments and the locale \<open>segment_loader\<close>, which both loaders interpret.
  \<^item> \<open>Machine\<close>, \<open>Platform\<close>, \<open>Runtime\<close>: commands and loops; \<^verbatim>\<open>platform.h\<close>; the trace port, fail-stop,
    weak hooks, IRQ mask, \<^verbatim>\<open>mmu.h\<close>, \<^verbatim>\<open>conformance.h\<close> and the trap frame.
  \<^item> \<open>Memory\<close>: \<^verbatim>\<open>memcpy\<close>, \<^verbatim>\<open>memset\<close>, \<^verbatim>\<open>memmove\<close>, \<^verbatim>\<open>memcmp\<close> of kernel and user library, under overlap and
    wrap-around.
  \<^item> \<open>BootInfo\<close>, \<open>Bootloader\<close>: the ABI records of \<^verbatim>\<open>boot.h\<close> and the Boot ROM: contents of every
    segment, and the record the kernel decodes. \<open>BootReset\<close>: its reset code (\<^verbatim>\<open>start.S\<close>), which gives
    the loader its mode and its stack page, and the loader run on that stack: off the page its memory
    is that of \<open>Bootloader\<close>, and nothing but the segments, the record and the page is written.
  \<^item> \<open>KernelCore\<close>, \<open>BootChain\<close>: the baseline kernel, and Boot ROM and kernel composed.
  \<^item> \<open>Block\<close>: the synchronous block driver (\<^verbatim>\<open>block.c\<close>): its register protocol for every device, and
    that it serves the request of a controller that keeps the protocol.
  \<^item> \<open>Hello\<close> and \<open>HelloPages\<close>, \<open>HelloLoad\<close>, \<open>HelloModule\<close>, \<open>HelloSpace\<close>, \<open>HelloRom\<close>, \<open>HelloKernel\<close>,
    \<open>HelloProps\<close>: the kernel of \<^verbatim>\<open>examples/user-mode-hello\<close>: page slots, page-wise copying, the segment
    loop, the user page table as an address space, the ROM mapping and the module lookup, the main.
  \<^item> \<open>HelloConfine\<close>: the whole 32-bit address space of the user program, walked from the page directory
    over the tables of \<open>Bootstrap\<close>, the ROM tables and the user page table: user mode reaches the module
    and its stack, and nothing else.
  \<^item> \<open>HelloTypes\<close>: a typing judgement with one rule per form of command; the kernel keeps its static
    arrays well formed on every image, in every outcome.
  \<^item> \<open>HelloUser\<close>: its user program, system-call stub and entry to user mode, and the whole example as
    a system that prints its message.
  \<^item> \<open>Trap\<close>: the vector table and all trampolines, instruction by instruction, against a
    specification of trap frames, and what an exception with an idle dispatcher leaves of the
    interrupted program: everything for a program of another mode, all but link register and saved
    status for one in the exception's own mode. \<open>Trampolines\<close>: the copies in the programs are the
    same code.
  \<^item> \<open>ContextSwitch\<close>: the two context-switch examples over \<open>Trap\<close>; the locale \<open>switcher\<close> holds the
    common argument, a reachability invariant and what happens after the second exception.
    \<open>SwitchLoops\<close>: the loops of the two tasks, and with them the whole run of each example.
  \<^item> \<open>Bootstrap\<close>: the bootstrap page tables and the translation a page walk makes of them.
  \<^item> \<open>Conformance\<close>, \<open>BlockCase\<close>: the UART, RNG and block cases and the MMIO example: one verdict per
    run on every device, and which devices pass.
  \<^item> \<open>Triples\<close>: total-correctness assertions for the long straight programs of the other cases.
  \<^item> \<open>Paging\<close>, \<open>TtbrCase\<close>, \<open>MmuCase\<close>: accesses through an MMU with a TLB, aborts that enter the vector
    and are tried again, and the cases \<^verbatim>\<open>headless/ttbr-switch\<close> and \<^verbatim>\<open>headless/mmu\<close> over them.
  \<^item> \<open>Board\<close>, \<open>InterruptCase\<close>: the timer in ticks, the interrupt controller, interrupts taken between
    two instructions, and the case \<^verbatim>\<open>headless/interrupts\<close> over them.
  \<^item> \<open>ExceptionCase\<close>: the case \<^verbatim>\<open>headless/exceptions\<close> with its assembly, over the banked stacks of
    \<open>Bootstrap\<close>, the MMU of \<open>Paging\<close> and the devices of \<open>Board\<close>. \<open>ExceptionRun\<close> has the effect of
    every dispatcher, \<open>ExceptionWalk\<close> the accesses, \<open>ExceptionParts\<close> the instructions and the parts of
    the main function, \<open>ExceptionMain\<close> the run from the start-up tables to the success value.

  \<^bold>\<open>Bounds and fuel.\<close> \<open>prepare_pages\<close> runs on fuel 17: there are 16 page slots, so at most 16
  iterations find or make a page and one more stops; \<open>prepare_user_range_enters\<close> shows it never runs
  out. Polling loops run on a fuel argument that counts polls: the theorems that a transfer or a case
  ends assume more fuel than the latency of the device, and \<open>block_transfer_waits\<close> shows that without
  completion every fuel is used up. An access through the MMU takes one unit of fuel per attempt, and
  an instruction boundary one per interrupt taken; the MMU case needs two, the interrupt case three, and the exceptions case 64, since its wait lasts
  at most 63 ticks of the timer. Idle loops use up every fuel, which models that they never end. All
  other loops are counted and total.

  \<^bold>\<open>Not modelled.\<close> Linker scripts, Makefiles, image and test manifests. The emulator itself, its devices and MMU are
  parameters.
\<close>

end
